(* ===== verification/Prelude.thy ===== *)
theory Prelude
  imports Main "HOL-Library.Word"
begin

text \<open>
  Shared vocabulary of the development: the machine integer types of the Rust sources, results
  with early return (the \<^verbatim>\<open>?\<close> operator, \<^verbatim>\<open>try_for_each\<close>, \<^verbatim>\<open>collect::<Result<_,_>>()\<close>), and
  the generic facts on lists, options and words that the components rely on.

  A fallible Rust computation of type \<^verbatim>\<open>Result<T, E>\<close> is a value of \<open>'e + 'a\<close>, \<open>Inl\<close> being the error.
  The error types of the components have, beside the constructors of the source, one for a
  Rust panic (a slice index out of range, an overflow check, \<^verbatim>\<open>unwrap\<close> of an absent value) and, where
  a loop may run for ever, one for a computation that does not return.
\<close>

unbundle bit_operations_syntax

type_synonym byte = "8 word"
type_synonym u8 = "8 word"
type_synonym u16 = "16 word"
type_synonym u32 = "32 word"
type_synonym u64 = "64 word"

named_theorems res_simps \<open>evaluation of results with early return\<close>
named_theorems node_simps \<open>node indices of the left-balanced tree as levels and offsets\<close>

subsection \<open>Results with early return\<close>

definition bindR :: "'e + 'a \<Rightarrow> ('a \<Rightarrow> 'e + 'b) \<Rightarrow> 'e + 'b" where
  "bindR m f = (case m of Inl e \<Rightarrow> Inl e | Inr x \<Rightarrow> f x)"

definition guardR :: "bool \<Rightarrow> 'e \<Rightarrow> 'e + unit" where
  "guardR b e = (if b then Inr () else Inl e)"

definition ok_or :: "'a option \<Rightarrow> 'e \<Rightarrow> 'e + 'a" where
  "ok_or m e = (case m of None \<Rightarrow> Inl e | Some x \<Rightarrow> Inr x)"

definition map_errR :: "('e \<Rightarrow> 'f) \<Rightarrow> 'e + 'a \<Rightarrow> 'f + 'a" where
  "map_errR f m = (case m of Inl e \<Rightarrow> Inl (f e) | Inr x \<Rightarrow> Inr x)"

definition okR :: "'e + 'a \<Rightarrow> 'a option" where
  "okR m = (case m of Inl _ \<Rightarrow> None | Inr x \<Rightarrow> Some x)"

primrec mapR :: "('a \<Rightarrow> 'e + 'b) \<Rightarrow> 'a list \<Rightarrow> 'e + 'b list" where
  "mapR f [] = Inr []"
| "mapR f (x # xs) = bindR (f x) (\<lambda>y. bindR (mapR f xs) (\<lambda>ys. Inr (y # ys)))"

primrec foldR :: "('s \<Rightarrow> 'a \<Rightarrow> 'e + 's) \<Rightarrow> 's \<Rightarrow> 'a list \<Rightarrow> 'e + 's" where
  "foldR f s [] = Inr s"
| "foldR f s (x # xs) = bindR (f s x) (\<lambda>s'. foldR f s' xs)"

subsection \<open>Big-endian bytes\<close>

primrec be_bytes :: "nat \<Rightarrow> 'a::len word \<Rightarrow> byte list" where
  "be_bytes 0 w = []"
| "be_bytes (Suc n) w = be_bytes n (drop_bit 8 w) @ [ucast w]"

definition to_be_bytes :: "'a::len word \<Rightarrow> byte list" where
  "to_be_bytes w = be_bytes (LENGTH('a) div 8) w"

definition from_be_bytes :: "byte list \<Rightarrow> 'a::len word" where
  "from_be_bytes bs = foldl (\<lambda>n b. push_bit 8 n OR ucast b) 0 bs"

subsection \<open>Lemmas\<close>

lemma bindR_simps [simp, res_simps]:
  "bindR (Inl e) f = Inl e"
  "bindR (Inr x) f = f x"
  by (simp_all add: bindR_def)

lemma bindR_eq_Inr [simp]: "bindR m f = Inr y \<longleftrightarrow> (\<exists>x. m = Inr x \<and> f x = Inr y)"
  by (cases m) auto

lemma bindR_eq_Inl: "bindR m f = Inl e \<longleftrightarrow> m = Inl e \<or> (\<exists>x. m = Inr x \<and> f x = Inl e)"
  by (cases m) auto

lemma bindR_assoc: "bindR (bindR m f) g = bindR m (\<lambda>x. bindR (f x) g)"
  by (cases m) auto

lemma bindR_cong [fundef_cong]:
  "m = n \<Longrightarrow> (\<And>x. n = Inr x \<Longrightarrow> f x = g x) \<Longrightarrow> bindR m f = bindR n g"
  by (cases n) auto

lemma guardR_eq [simp]:
  "guardR b e = Inr u \<longleftrightarrow> b"
  "guardR b e = Inl e' \<longleftrightarrow> \<not> b \<and> e' = e"
  by (auto simp: guardR_def)

lemma guardR_simps [simp, res_simps]:
  "guardR True e = Inr ()" "guardR False e = Inl e"
  by (simp_all add: guardR_def)

lemma ok_or_simps [simp, res_simps]:
  "ok_or None e = Inl e" "ok_or (Some x) e = Inr x"
  by (simp_all add: ok_or_def)

lemma ok_or_eq [simp]:
  "ok_or m e = Inr x \<longleftrightarrow> m = Some x"
  "ok_or m e = Inl e' \<longleftrightarrow> m = None \<and> e' = e"
  by (auto simp: ok_or_def split: option.splits)

lemma map_errR_simps [simp, res_simps]:
  "map_errR f (Inl e) = Inl (f e)" "map_errR f (Inr x) = Inr x"
  by (simp_all add: map_errR_def)

lemma map_errR_eq_Inr [simp]: "map_errR f m = Inr x \<longleftrightarrow> m = Inr x"
  by (cases m) auto

lemma okR_simps [simp, res_simps]: "okR (Inl e) = None" "okR (Inr x) = Some x"
  by (simp_all add: okR_def)

lemma okR_eq_Some [simp]: "okR m = Some x \<longleftrightarrow> m = Inr x"
  by (cases m) auto

lemma mapR_length: "mapR f xs = Inr ys \<Longrightarrow> length ys = length xs"
  by (induction xs arbitrary: ys) auto

lemma mapR_Inr_iff: "mapR f xs = Inr ys \<longleftrightarrow> list_all2 (\<lambda>x y. f x = Inr y) xs ys"
  by (induction xs arbitrary: ys) (auto simp: list_all2_Cons1)

lemma foldR_append: "foldR f s (xs @ ys) = bindR (foldR f s xs) (\<lambda>s'. foldR f s' ys)"
  by (induction xs arbitrary: s) (auto simp: bindR_assoc)

lemma foldR_invariant:
  assumes "foldR f s xs = Inr s'" and "P s"
    and "\<And>s x s'. x \<in> set xs \<Longrightarrow> P s \<Longrightarrow> f s x = Inr s' \<Longrightarrow> P s'"
  shows "P s'"
  using assms by (induction xs arbitrary: s) auto

lemma unat_of_nat_small: "n < 2 ^ LENGTH('a) \<Longrightarrow> unat (of_nat n :: 'a::len word) = n"
  by (simp add: unat_of_nat)

lemma length_be_bytes [simp]: "length (be_bytes n w) = n"
  by (induction n arbitrary: w) auto

lemma length_to_be_bytes [simp]: "length (to_be_bytes (w :: 'a::len word)) = LENGTH('a) div 8"
  by (simp add: to_be_bytes_def)

lemma from_be_bytes_Nil [simp]: "from_be_bytes [] = 0"
  by (simp add: from_be_bytes_def)

lemma from_be_bytes_snoc: "from_be_bytes (bs @ [b]) = (push_bit 8 (from_be_bytes bs) OR ucast b)"
  by (simp add: from_be_bytes_def)

lemma from_be_bytes_be_bytes:
  "8 * n \<le> LENGTH('a) \<Longrightarrow> from_be_bytes (be_bytes n w) = take_bit (8 * n) (w :: 'a::len word)"
proof (induction n arbitrary: w)
  case 0
  then show ?case by simp
next
  case (Suc n)
  then have IH: "from_be_bytes (be_bytes n (drop_bit 8 w)) = take_bit (8 * n) (drop_bit 8 w)"
    by simp
  show ?case
    by (rule bit_word_eqI)
      (auto simp: from_be_bytes_snoc IH bit_simps dest: bit_imp_le_length)
qed

lemma from_to_be_bytes [simp]:
  assumes "8 dvd LENGTH('a)"
  shows "from_be_bytes (to_be_bytes w) = (w :: 'a::len word)"
proof -
  have "8 * (LENGTH('a) div 8) = LENGTH('a)" using assms by simp
  then show ?thesis
    by (simp add: to_be_bytes_def from_be_bytes_be_bytes take_bit_word_eq_self)
qed

lemma bit_from_be_bytes_less:
  "bit (from_be_bytes bs :: 'a::len word) n \<Longrightarrow> n < 8 * length bs"
proof (induction bs arbitrary: n rule: rev_induct)
  case Nil
  then show ?case by simp
next
  case (snoc b bs)
  then show ?case
    by (fastforce simp: from_be_bytes_snoc bit_simps dest: bit_imp_le_length)
qed

lemma be_bytes_from_be_bytes:
  "length bs = n \<Longrightarrow> 8 * n \<le> LENGTH('a) \<Longrightarrow> be_bytes n (from_be_bytes bs :: 'a::len word) = bs"
proof (induction n arbitrary: bs)
  case 0
  then show ?case by simp
next
  case (Suc n)
  then obtain cs b where bs: "bs = cs @ [b]" and cs: "length cs = n"
    by (metis length_Suc_conv_rev)
  have "drop_bit 8 (push_bit 8 (from_be_bytes cs) OR ucast b) = (from_be_bytes cs :: 'a word)"
  proof (rule bit_word_eqI)
    fix m assume "m < LENGTH('a)"
    have "bit (from_be_bytes cs :: 'a word) m \<Longrightarrow> m + 8 < LENGTH('a)"
      using bit_from_be_bytes_less [of cs m] cs Suc.prems by fastforce
    then show "bit (drop_bit 8 (push_bit 8 (from_be_bytes cs) OR ucast b) :: 'a word) m
        \<longleftrightarrow> bit (from_be_bytes cs :: 'a word) m"
      by (auto simp: bit_simps add.commute dest: bit_imp_le_length)
  qed
  moreover have "ucast (push_bit 8 (from_be_bytes cs) OR ucast b :: 'a word) = b"
    using Suc.prems by (intro bit_word_eqI) (auto simp: bit_simps)
  ultimately show ?case
    using Suc.IH [OF cs] Suc.prems by (simp add: bs from_be_bytes_snoc)
qed

lemma to_from_be_bytes:
  "length bs = LENGTH('a) div 8 \<Longrightarrow> to_be_bytes (from_be_bytes bs :: 'a::len word) = bs"
  by (simp add: to_be_bytes_def be_bytes_from_be_bytes)

end
