(* ===== verification/Codec.thy ===== *)
theory Codec
  imports Prelude
begin

text \<open>
  The TLS-style wire format of the crate \<^verbatim>\<open>mls-rs-codec\<close>. A codec is the triple of trait methods
  \<^verbatim>\<open>MlsSize::mls_encoded_len\<close>, \<^verbatim>\<open>MlsEncode::mls_encode\<close> and \<^verbatim>\<open>MlsDecode::mls_decode\<close> of one type:
  \<open>c_len\<close>, \<open>c_enc\<close> (the bytes one call appends to its writer) and \<open>c_dec\<close> (the value and what is left
  of the reader). \<^verbatim>\<open>usize\<close> is \<open>nat\<close>: a slice length is below \<open>2 ^ 64\<close> and is only added and compared.
\<close>

datatype codec_error =
    VarIntOutOfRange
  | InvalidVarIntPrefix u8
  | VarIntMinimumLengthEncoding
  | UnexpectedEOF
  | OptionOutOfRange u8
  | UnsupportedEnumDiscriminant
  | Utf8
  | Custom u8
  | Codec_Panic     \<comment> \<open>\<^verbatim>\<open>panic!\<close>\<close>
  | Codec_Diverges  \<comment> \<open>the item loop of a collection makes no progress and never returns\<close>

record 'a codec =
  c_len :: "'a \<Rightarrow> nat"
  c_enc :: "'a \<Rightarrow> codec_error + byte list"
  c_dec :: "byte list \<Rightarrow> codec_error + 'a \<times> byte list"

subsection \<open>Fixed-size values\<close>

definition array_decode :: "nat \<Rightarrow> byte list \<Rightarrow> codec_error + byte list \<times> byte list" where
  "array_decode n reader =
     (if n \<le> length reader then Inr (take n reader, drop n reader) else Inl UnexpectedEOF)"

definition array_codec :: "nat \<Rightarrow> byte list codec" where
  "array_codec n = \<lparr>c_len = (\<lambda>_. n), c_enc = (\<lambda>a. Inr a), c_dec = array_decode n\<rparr>"

definition stdint_codec :: "'a::len word codec" where
  "stdint_codec = \<lparr>
     c_len = (\<lambda>_. LENGTH('a) div 8),
     c_enc = (\<lambda>w. Inr (to_be_bytes w)),
     c_dec = (\<lambda>reader. bindR (array_decode (LENGTH('a) div 8) reader)
                (\<lambda>(bs, rest). Inr (from_be_bytes bs, rest)))\<rparr>"

abbreviation u8_codec :: "u8 codec" where "u8_codec \<equiv> stdint_codec"
abbreviation u16_codec :: "u16 codec" where "u16_codec \<equiv> stdint_codec"
abbreviation u32_codec :: "u32 codec" where "u32_codec \<equiv> stdint_codec"
abbreviation u64_codec :: "u64 codec" where "u64_codec \<equiv> stdint_codec"

definition bool_codec :: "bool codec" where
  "bool_codec = \<lparr>
     c_len = (\<lambda>_. 1),
     c_enc = (\<lambda>b. Inr [if b then 1 else 0]),
     c_dec = (\<lambda>reader. bindR (c_dec u8_codec reader) (\<lambda>(i, rest). Inr (i \<noteq> 0, rest)))\<rparr>"

subsection \<open>Variable-size integers\<close>

text \<open>A \<^verbatim>\<open>VarInt\<close> is its public \<^verbatim>\<open>u32\<close> field; \<open>count_bytes_to_encode_int\<close> is \<open>None\<close> where the code panics.\<close>

datatype length_encoding = LE_One | LE_Two | LE_Four

primrec le_bytes :: "length_encoding \<Rightarrow> nat" where
  "le_bytes LE_One = 1" | "le_bytes LE_Two = 2" | "le_bytes LE_Four = 4"

definition VARINT_MAX :: u32 where
  "VARINT_MAX = push_bit 30 1 - 1"

definition varint_try_from_u32 :: "u32 \<Rightarrow> codec_error + u32" where
  "varint_try_from_u32 n = (if n \<le> VARINT_MAX then Inr n else Inl VarIntOutOfRange)"

definition varint_try_from_usize :: "nat \<Rightarrow> codec_error + u32" where
  "varint_try_from_usize n =
     bindR (if n < 2 ^ 32 then Inr (of_nat n) else Inl VarIntOutOfRange) varint_try_from_u32"

definition leading_zeros :: "'a::len word \<Rightarrow> nat" where
  "leading_zeros w = length (takeWhile (\<lambda>i. \<not> bit w i) (rev [0..<LENGTH('a)]))"

definition count_bytes_to_encode_int :: "u32 \<Rightarrow> length_encoding option" where
  "count_bytes_to_encode_int n =
     (let used_bits = 32 - leading_zeros n in
      if used_bits \<le> 6 then Some LE_One
      else if used_bits \<le> 14 then Some LE_Two
      else if used_bits \<le> 30 then Some LE_Four
      else None)"

definition varint_encode :: "u32 \<Rightarrow> codec_error + byte list" where
  "varint_encode n =
     (let bytes = to_be_bytes n in
      case count_bytes_to_encode_int n of
        None \<Rightarrow> Inl Codec_Panic
      | Some LE_One \<Rightarrow> Inr (drop 3 bytes)
      | Some LE_Two \<Rightarrow> Inr (drop 2 (bytes[2 := bytes ! 2 OR 0x40]))
      | Some LE_Four \<Rightarrow> Inr (bytes[0 := bytes ! 0 OR 0x80]))"

text \<open>The \<^verbatim>\<open>try_fold\<close> over \<^verbatim>\<open>1..count\<close>: the first argument is the number of bytes still to read.\<close>

primrec varint_fold :: "nat \<Rightarrow> u32 \<Rightarrow> byte list \<Rightarrow> codec_error + u32 \<times> byte list" where
  "varint_fold 0 n reader = Inr (n, reader)"
| "varint_fold (Suc k) n reader =
     bindR (c_dec u8_codec reader) (\<lambda>(b, rest). varint_fold k (push_bit 8 n OR ucast b) rest)"

definition varint_decode :: "byte list \<Rightarrow> codec_error + u32 \<times> byte list" where
  "varint_decode reader =
     bindR (c_dec u8_codec reader) (\<lambda>(first, reader).
     let prefx = drop_bit 6 first in
     bindR (if prefx < 3 then Inr (2 ^ unat prefx) else Inl (InvalidVarIntPrefix prefx)) (\<lambda>count.
     bindR (varint_fold (count - 1) (ucast (first AND 0x3f)) reader) (\<lambda>(n, reader).
     case count_bytes_to_encode_int n of
       None \<Rightarrow> Inl Codec_Panic
     | Some le \<Rightarrow> if le_bytes le = count then Inr (n, reader) else Inl VarIntMinimumLengthEncoding)))"

definition varint_len :: "u32 \<Rightarrow> nat" where
  "varint_len n = (case count_bytes_to_encode_int n of None \<Rightarrow> 0 | Some le \<Rightarrow> le_bytes le)"

definition varint_codec :: "u32 codec" where
  "varint_codec = \<lparr>c_len = varint_len, c_enc = varint_encode, c_dec = varint_decode\<rparr>"

subsection \<open>Collections\<close>

text \<open>\<^verbatim>\<open>VarInt::try_from(len).unwrap_or(VarInt(0)).mls_encoded_len()\<close>\<close>

definition header_length :: "nat \<Rightarrow> nat" where
  "header_length len =
     c_len varint_codec (case varint_try_from_usize len of Inl _ \<Rightarrow> 0 | Inr n \<Rightarrow> n)"

definition mls_decode_split_on_collection ::
    "byte list \<Rightarrow> codec_error + byte list \<times> byte list" where
  "mls_decode_split_on_collection reader =
     bindR (c_dec varint_codec reader) (\<lambda>(n, reader).
     let len = unat n in
     if len > length reader then Inl UnexpectedEOF
     else Inr (take len reader, drop len reader))"

definition mls_decode_collection ::
    "(byte list \<Rightarrow> codec_error + 'a) \<Rightarrow> byte list \<Rightarrow> codec_error + 'a \<times> byte list" where
  "mls_decode_collection item_decode reader =
     bindR (mls_decode_split_on_collection reader) (\<lambda>(data, rest).
     bindR (item_decode data) (\<lambda>items. Inr (items, rest)))"

definition byte_vec_len :: "byte list \<Rightarrow> nat" where
  "byte_vec_len data = header_length (length data) + length data"

definition byte_vec_encode :: "byte list \<Rightarrow> codec_error + byte list" where
  "byte_vec_encode data =
     bindR (varint_try_from_usize (length data)) (\<lambda>len.
     bindR (c_enc varint_codec len) (\<lambda>hdr. Inr (hdr @ data)))"

definition byte_vec_decode :: "byte list \<Rightarrow> codec_error + byte list \<times> byte list" where
  "byte_vec_decode reader =
     bindR (mls_decode_split_on_collection reader) (\<lambda>(data, rest). Inr (data, rest))"

definition byte_vec_codec :: "byte list codec" where
  "byte_vec_codec = \<lparr>c_len = byte_vec_len, c_enc = byte_vec_encode, c_dec = byte_vec_decode\<rparr>"

text \<open>
  The module \<^verbatim>\<open>iter\<close>: an iterator is the list of its items. \<open>iter_encode_prealloc\<close> is the variant
  compiled under the feature \<^verbatim>\<open>preallocate\<close>, which writes the header from the predicted length before
  any item is encoded; \<open>iter_encode\<close> is the other one, which encodes into a buffer first.
\<close>

definition iter_len :: "'a codec \<Rightarrow> 'a list \<Rightarrow> nat" where
  "iter_len c xs = (let len = sum_list (map (c_len c) xs) in header_length len + len)"

definition iter_encode :: "'a codec \<Rightarrow> 'a list \<Rightarrow> codec_error + byte list" where
  "iter_encode c xs =
     bindR (mapR (c_enc c) xs) (\<lambda>bss. let buffer = concat bss in
     bindR (varint_try_from_usize (length buffer)) (\<lambda>len.
     bindR (c_enc varint_codec len) (\<lambda>hdr. Inr (hdr @ buffer))))"

definition iter_encode_prealloc :: "'a codec \<Rightarrow> 'a list \<Rightarrow> codec_error + byte list" where
  "iter_encode_prealloc c xs =
     (let len = sum_list (map (c_len c) xs) in
      bindR (varint_try_from_usize len) (\<lambda>n.
      bindR (c_enc varint_codec n) (\<lambda>hdr.
      bindR (mapR (c_enc c) xs) (\<lambda>bss. Inr (hdr @ concat bss)))))"

function decode_items ::
    "(byte list \<Rightarrow> codec_error + 'a \<times> byte list) \<Rightarrow> byte list \<Rightarrow> codec_error + 'a list" where
  "decode_items dec data =
     (if data = [] then Inr []
      else bindR (dec data) (\<lambda>(x, rest).
        if length rest < length data
        then bindR (decode_items dec rest) (\<lambda>xs. Inr (x # xs))
        else Inl Codec_Diverges))"
  by pat_completeness auto
termination
  by (relation "measure (\<lambda>(dec, data). length data)") auto

declare decode_items.simps [simp del]

definition vec_codec :: "'a codec \<Rightarrow> 'a list codec" where
  "vec_codec c = \<lparr>
     c_len = iter_len c,
     c_enc = iter_encode c,
     c_dec = mls_decode_collection (decode_items (c_dec c))\<rparr>"

subsection \<open>Options, pairs and derived implementations\<close>

definition option_codec :: "'a codec \<Rightarrow> 'a option codec" where
  "option_codec c = \<lparr>
     c_len = (\<lambda>v. 1 + (case v of Some x \<Rightarrow> c_len c x | None \<Rightarrow> 0)),
     c_enc = (\<lambda>v. case v of
        Some item \<Rightarrow> bindR (c_enc c item) (\<lambda>bs. Inr (1 # bs))
      | None \<Rightarrow> Inr [0]),
     c_dec = (\<lambda>reader. bindR (c_dec u8_codec reader) (\<lambda>(n, reader).
        if n = 0 then Inr (None, reader)
        else if n = 1 then bindR (c_dec c reader) (\<lambda>(x, reader). Inr (Some x, reader))
        else Inl (OptionOutOfRange n)))\<rparr>"

definition pair_codec :: "'a codec \<Rightarrow> 'b codec \<Rightarrow> ('a \<times> 'b) codec" where
  "pair_codec c d = \<lparr>
     c_len = (\<lambda>(x, y). c_len c x + c_len d y),
     c_enc = (\<lambda>(x, y). bindR (c_enc c x) (\<lambda>bs. bindR (c_enc d y) (\<lambda>bs'. Inr (bs @ bs')))),
     c_dec = (\<lambda>reader. bindR (c_dec c reader) (\<lambda>(x, reader).
        bindR (c_dec d reader) (\<lambda>(y, reader). Inr ((x, y), reader))))\<rparr>"

text \<open>
  \<^verbatim>\<open>#[derive(MlsSize, MlsEncode, MlsDecode)]\<close> on a struct (\<^verbatim>\<open>struct_impl\<close>) runs the fields' codecs in
  the order of their declaration: the codec of the nested pair of the fields, seen through the
  struct's constructor and its selectors.
\<close>

definition struct_codec :: "('a \<Rightarrow> 'b) \<Rightarrow> ('b \<Rightarrow> 'a) \<Rightarrow> 'b codec \<Rightarrow> 'a codec" where
  "struct_codec flds mk c = \<lparr>
     c_len = (\<lambda>v. c_len c (flds v)),
     c_enc = (\<lambda>v. c_enc c (flds v)),
     c_dec = (\<lambda>reader. bindR (c_dec c reader) (\<lambda>(f, reader). Inr (mk f, reader)))\<rparr>"

text \<open>
  The same derive on an enum (\<^verbatim>\<open>enum_impl\<close>) writes the discriminant and then the variant's field. A
  variant is its discriminant, a partial view of the enum and its constructor; a variant without a
  field has the codec of the unit value. The arms of the generated \<^verbatim>\<open>match\<close> are tried in order.
\<close>

definition unit_codec :: "unit codec" where
  "unit_codec = \<lparr>c_len = (\<lambda>_. 0), c_enc = (\<lambda>_. Inr []), c_dec = (\<lambda>reader. Inr ((), reader))\<rparr>"

record 'a variant =
  v_disc :: nat
  v_view :: "'a \<Rightarrow> bool"
  v_len :: "'a \<Rightarrow> nat"
  v_enc :: "'a \<Rightarrow> codec_error + byte list"
  v_dec :: "byte list \<Rightarrow> codec_error + 'a \<times> byte list"

definition variant_of :: "nat \<Rightarrow> ('a \<Rightarrow> 'b option) \<Rightarrow> ('b \<Rightarrow> 'a) \<Rightarrow> 'b codec \<Rightarrow> 'a variant" where
  "variant_of disc view mk c = \<lparr>
     v_disc = disc,
     v_view = (\<lambda>v. view v \<noteq> None),
     v_len = (\<lambda>v. case view v of None \<Rightarrow> 0 | Some x \<Rightarrow> c_len c x),
     v_enc = (\<lambda>v. case view v of None \<Rightarrow> Inl Codec_Panic | Some x \<Rightarrow> c_enc c x),
     v_dec = (\<lambda>reader. bindR (c_dec c reader) (\<lambda>(x, reader). Inr (mk x, reader)))\<rparr>"

definition enum_codec :: "'d::len word itself \<Rightarrow> 'a variant list \<Rightarrow> 'a codec" where
  "enum_codec repr vs = \<lparr>
     c_len = (\<lambda>v. case find (\<lambda>k. v_view k v) vs of
        None \<Rightarrow> 0
      | Some k \<Rightarrow> c_len (stdint_codec :: 'd word codec) (of_nat (v_disc k)) + v_len k v),
     c_enc = (\<lambda>v. case find (\<lambda>k. v_view k v) vs of
        None \<Rightarrow> Inl Codec_Panic
      | Some k \<Rightarrow> bindR (c_enc (stdint_codec :: 'd word codec) (of_nat (v_disc k)))
          (\<lambda>bs. bindR (v_enc k v) (\<lambda>bs'. Inr (bs @ bs')))),
     c_dec = (\<lambda>reader. bindR (c_dec (stdint_codec :: 'd word codec) reader) (\<lambda>(n, reader).
        case find (\<lambda>k. of_nat (v_disc k) = n) vs of
          None \<Rightarrow> Inl UnsupportedEnumDiscriminant
        | Some k \<Rightarrow> v_dec k reader))\<rparr>"

subsection \<open>Maps\<close>

text \<open>
  A \<^verbatim>\<open>HashMap\<close> or \<^verbatim>\<open>BTreeMap\<close> is written as the collection of its entries in iteration order, which is a
  parameter here (it is unspecified for a hash map), and read back by inserting the entries one by one.
\<close>

definition map_encode :: "'k codec \<Rightarrow> 'v codec \<Rightarrow> ('k \<times> 'v) list \<Rightarrow> codec_error + byte list" where
  "map_encode kc vc entries = iter_encode (pair_codec kc vc) entries"

definition map_decode :: "'k codec \<Rightarrow> 'v codec \<Rightarrow> byte list \<Rightarrow> codec_error + ('k \<rightharpoonup> 'v) \<times> byte list" where
  "map_decode kc vc =
     mls_decode_collection (\<lambda>data.
       bindR (decode_items (c_dec (pair_codec kc vc)) data) (\<lambda>entries.
       Inr (foldl (\<lambda>items (k, v). items(k \<mapsto> v)) Map.empty entries)))"

end
