(* ===== verification/CodecLaws.thy ===== *)
theory CodecLaws
  imports Codec
begin

text \<open>
  What the codecs promise. \<open>mls_codec\<close>: an encoding is decoded to the value it came from and leaves the
  rest of the reader alone, its length is the announced one, and a decoder only consumes a prefix of its
  reader. \<open>canonical_codec\<close>: a decoder accepts no byte string but the encoding of its result, so that a
  value hashed or signed after a round trip gives the bytes that were received. \<open>stream_codec\<close>: a decoder
  consumes at least one byte, without which the item loop of a collection would not end. \<open>wire_codec\<close>: both.
  The laws are proved for every primitive and for every way the crate has to combine codecs.
\<close>

text \<open>The two prefix bits of the first byte of an encoding.\<close>

definition prefix_of :: "length_encoding \<Rightarrow> u8" where
  "prefix_of le = (case le of LE_One \<Rightarrow> 0 | LE_Two \<Rightarrow> 1 | LE_Four \<Rightarrow> 2)"


text \<open>A variant of an enum is lawful when its field's codec is, on the values its view accepts.\<close>

definition lawful_variant :: "('a \<Rightarrow> bool) \<Rightarrow> 'a variant \<Rightarrow> bool" where
  "lawful_variant ok k \<longleftrightarrow>
     (\<forall>v bs rest. v_view k v \<longrightarrow> ok v \<longrightarrow> v_enc k v = Inr bs \<longrightarrow>
        v_len k v = length bs \<and> v_dec k (bs @ rest) = Inr (v, rest)) \<and>
     (\<forall>bs v rest. v_dec k bs = Inr (v, rest) \<longrightarrow>
        v_view k v \<and> ok v \<and> (\<exists>p. v_enc k v = Inr p \<and> bs = p @ rest))"

lemma takeWhile_rev_upt:
  "L - length (takeWhile P (rev [0..<L])) \<le> k \<longleftrightarrow> (\<forall>i. k \<le> i \<longrightarrow> i < L \<longrightarrow> P i)"
proof (induction L)
  case (Suc L)
  have le: "length (takeWhile P (rev [0..<L])) \<le> L"
    by (metis diff_zero length_rev length_takeWhile_le length_upt)
  show ?case
  proof (cases "P L")
    case True
    with Suc le show ?thesis by (auto simp: less_Suc_eq)
  next
    case False
    then show ?thesis by (auto simp: not_le Suc_le_eq)
  qed
qed simp

lemma used_bits_le:
  "LENGTH('a) - leading_zeros (w :: 'a::len word) \<le> k \<longleftrightarrow> (\<forall>i\<ge>k. \<not> bit w i)"
  unfolding leading_zeros_def takeWhile_rev_upt by (auto dest: bit_imp_le_length)

lemma high_bits_clear_iff:
  "(\<forall>i\<ge>k. \<not> bit w i) \<longleftrightarrow> take_bit k w = (w :: 'a::len word)"
  by (auto simp: bit_eq_iff bit_simps not_le) (meson bit_imp_le_length leD)

lemma high_bits_clear_unat:
  "(\<forall>i\<ge>k. \<not> bit w i) \<longleftrightarrow> unat (w :: 'a::len word) < 2 ^ k"
  unfolding high_bits_clear_iff
  by (simp add: word_unat_eq_iff unsigned_take_bit_eq take_bit_nat_eq_self_iff)

lemma byte_consts: "0x40 = (push_bit 6 1 :: u8)" "0x80 = (push_bit 7 1 :: u8)" "0x3f = (mask 6 :: u8)"
  by (simp_all add: mask_eq_exp_minus_1)

lemma to_be_bytes_u32:
  "to_be_bytes (n :: u32) = [ucast (drop_bit 24 n), ucast (drop_bit 16 n), ucast (drop_bit 8 n), ucast n]"
proof -
  have four: "LENGTH(32) div 8 = Suc (Suc (Suc (Suc 0)))" by simp
  show ?thesis unfolding to_be_bytes_def four by simp
qed

lemma count_bytes_cases:
  "count_bytes_to_encode_int n =
     (if unat n < 2 ^ 6 then Some LE_One else if unat n < 2 ^ 14 then Some LE_Two
      else if unat n < 2 ^ 30 then Some LE_Four else None)"
  using used_bits_le [of n 6] used_bits_le [of n 14] used_bits_le [of n 30]
  by (simp add: count_bytes_to_encode_int_def high_bits_clear_unat)

lemma u8_decode: "c_dec u8_codec reader = (case reader of [] \<Rightarrow> Inl UnexpectedEOF | b # r \<Rightarrow> Inr (b, r))"
  by (cases reader) (auto simp: stdint_codec_def array_decode_def from_be_bytes_def)

lemma varint_encode_cases:
  "varint_encode n =
     (if unat n < 2 ^ 6 then Inr [ucast n]
      else if unat n < 2 ^ 14 then Inr [ucast (drop_bit 8 n) OR 0x40, ucast n]
      else if unat n < 2 ^ 30 then
        Inr [ucast (drop_bit 24 n) OR 0x80, ucast (drop_bit 16 n), ucast (drop_bit 8 n), ucast n]
      else Inl Codec_Panic)"
  by (simp add: varint_encode_def count_bytes_cases to_be_bytes_u32 Let_def)

lemma split_first_byte: "take_bit 6 b OR push_bit 6 (drop_bit 6 b) = (b :: u8)"
proof (rule bit_word_eqI)
  fix n assume "n < LENGTH(8)"
  then show "bit (take_bit 6 b OR push_bit 6 (drop_bit 6 b)) n = bit b n"
    by (cases "n < 6") (auto simp: bit_simps not_less)
qed

lemma be_bytes_Suc: "be_bytes (Suc k) n = ucast (drop_bit (8 * k) n) # be_bytes k n"
proof (induction k arbitrary: n)
  case (Suc k)
  have "be_bytes (Suc (Suc k)) n = be_bytes (Suc k) (drop_bit 8 n) @ [ucast n]" by simp
  also have "\<dots> = ucast (drop_bit (8 * k) (drop_bit 8 n)) # be_bytes k (drop_bit 8 n) @ [ucast n]"
    by (simp only: Suc append_Cons)
  also have "\<dots> = ucast (drop_bit (8 * Suc k) n) # be_bytes (Suc k) n"
    by (simp add: add.commute)
  finally show ?case .
qed simp

lemma join_first_byte:
  fixes h p :: u8
  assumes "take_bit 6 h = h" "take_bit 2 p = p"
  shows "drop_bit 6 (h OR push_bit 6 p) = p" "take_bit 6 (h OR push_bit 6 p) = h"
proof -
  have h: "bit h i \<Longrightarrow> i < 6" for i using assms(1) by (metis bit_take_bit_iff)
  have p: "bit p i \<Longrightarrow> i < 2" for i using assms(2) by (metis bit_take_bit_iff)
  show "drop_bit 6 (h OR push_bit 6 p) = p"
    by (rule bit_word_eqI) (auto simp: bit_simps dest: h p)
  show "take_bit 6 (h OR push_bit 6 p) = h"
    by (rule bit_word_eqI) (auto simp: bit_simps dest: h)
qed

lemma prefix_of_facts:
  "2 ^ unat (prefix_of le) = le_bytes le" "prefix_of le < 3" "take_bit 2 (prefix_of le) = prefix_of le"
  by (simp_all add: prefix_of_def split: length_encoding.splits)

lemma varint_encode_be:
  "varint_encode n = (case count_bytes_to_encode_int n of None \<Rightarrow> Inl Codec_Panic
    | Some le \<Rightarrow> let bs = be_bytes (le_bytes le) n in Inr ((hd bs OR push_bit 6 (prefix_of le)) # tl bs))"
  by (auto simp: varint_encode_def to_be_bytes_u32 be_bytes_Suc numeral_2_eq_2 numeral_eq_Suc(1) prefix_of_def Let_def split: option.splits length_encoding.splits)


lemma varint_fold_foldl:
  "varint_fold k n reader =
     (if k \<le> length reader
      then Inr (foldl (\<lambda>n b. push_bit 8 n OR ucast b) n (take k reader), drop k reader)
      else Inl UnexpectedEOF)"
  by (induction k arbitrary: n reader) (auto simp: u8_decode split: list.splits)

lemma count_bytes_bound:
  "count_bytes_to_encode_int n = Some le \<Longrightarrow> \<forall>i\<ge>8 * le_bytes le - 2. \<not> bit n i"
  unfolding high_bits_clear_unat
  by (auto simp: count_bytes_cases split: if_splits)

lemma varint_decode_be:
  "varint_decode (first # reader) =
     (if drop_bit 6 first < 3 then
        let count = 2 ^ unat (drop_bit 6 first) in
        if count - 1 \<le> length reader then
          let n = from_be_bytes (take_bit 6 first # take (count - 1) reader) in
          (case count_bytes_to_encode_int n of
             None \<Rightarrow> Inl Codec_Panic
           | Some le \<Rightarrow> if le_bytes le = count then Inr (n, drop (count - 1) reader)
                        else Inl VarIntMinimumLengthEncoding)
        else Inl UnexpectedEOF
      else Inl (InvalidVarIntPrefix (drop_bit 6 first)))"
proof -
  have "first AND 63 = take_bit 6 first" by (simp add: take_bit_eq_mask mask_eq_exp_minus_1)
  then show ?thesis
    by (simp add: varint_decode_def u8_decode varint_fold_foldl from_be_bytes_def Let_def del: One_nat_def)
qed

lemma le_bytes_facts: "8 * le_bytes le \<le> LENGTH(32)" "0 < le_bytes le"
  by (cases le; simp)+

lemma word_less_3:
  fixes p :: u8 assumes "p < 3" shows "p = 0 \<or> p = 1 \<or> p = 2"
proof -
  have "unat p < 3" using assms by (simp add: word_less_nat_alt)
  then have "unat p = unat (0 :: u8) \<or> unat p = unat (1 :: u8) \<or> unat p = unat (2 :: u8)" by auto
  then show ?thesis by (blast intro: word_unat_eq_iff [THEN iffD2])
qed

lemma prefix_of_eqI:
  assumes "p < 3" and le: "le_bytes le = 2 ^ unat p" shows "prefix_of le = p"
proof -
  from word_less_3 [OF assms(1)] consider "p = 0" | "p = 1" | "p = 2" by blast
  then show ?thesis using le by cases (cases le; simp add: prefix_of_def)+
qed

lemma varint_round_trip:
  assumes "varint_encode n = Inr bs"
  shows "varint_decode (bs @ rest) = Inr (n, rest)"
proof -
  from assms obtain le where le: "count_bytes_to_encode_int n = Some le"
    and bs: "bs = (hd (be_bytes (le_bytes le) n) OR push_bit 6 (prefix_of le)) # tl (be_bytes (le_bytes le) n)"
    by (auto simp: varint_encode_be Let_def split: option.splits)
  obtain k where k: "le_bytes le = Suc k" by (cases le) auto
  obtain h t where ht: "be_bytes (le_bytes le) n = h # t" and h: "h = ucast (drop_bit (8 * k) n)"
    and t: "length t = k"
    unfolding k be_bytes_Suc by simp
  have h6: "take_bit 6 h = h"
  proof (rule bit_word_eqI)
    fix i assume "i < LENGTH(8)"
    have "\<not> bit n (8 * k + i)" if "6 \<le> i" using count_bytes_bound [OF le] that k by simp
    then show "bit (take_bit 6 h) i = bit h i" by (cases "i < 6") (auto simp: h bit_simps)
  qed
  have "from_be_bytes (h # t) = take_bit (8 * le_bytes le) n"
    unfolding ht [symmetric] by (rule from_be_bytes_be_bytes) (rule le_bytes_facts)
  also have "\<dots> = n"
    using count_bytes_bound [OF le] by (simp flip: high_bits_clear_iff)
  finally have n: "from_be_bytes (h # t) = n" .
  have bs': "bs = (h OR push_bit 6 (prefix_of le)) # t" by (simp only: bs ht list.sel)
  show ?thesis
    unfolding bs' append_Cons varint_decode_be join_first_byte [OF h6 prefix_of_facts(3), of le]
      prefix_of_facts(1) k
    using prefix_of_facts(2) [of le] le k t n by simp
qed

lemma varint_canonical:
  assumes "varint_decode bs = Inr (n, rest)"
  shows "\<exists>p. varint_encode n = Inr p \<and> bs = p @ rest"
proof -
  obtain first reader where bs: "bs = first # reader"
    using assms by (cases bs) (auto simp: varint_decode_def u8_decode)
  define count :: nat where "count = 2 ^ unat (drop_bit 6 first)"
  from assms [unfolded bs varint_decode_be, folded count_def]
  obtain le where p: "drop_bit 6 first < 3" and len: "count - 1 \<le> length reader"
    and n: "n = from_be_bytes (take_bit 6 first # take (count - 1) reader)"
    and le: "count_bytes_to_encode_int n = Some le" "le_bytes le = count"
    and rest: "rest = drop (count - 1) reader"
    by (auto simp: Let_def split: if_splits option.splits)
  have "length (take_bit 6 first # take (count - 1) reader) = le_bytes le"
    using len le le_bytes_facts(2) [of le] by simp
  from be_bytes_from_be_bytes [OF this le_bytes_facts(1)]
  have be: "be_bytes (le_bytes le) n = take_bit 6 first # take (count - 1) reader"
    unfolding n .
  have "varint_encode n = Inr ((take_bit 6 first OR push_bit 6 (prefix_of le)) # take (count - 1) reader)"
    by (simp only: varint_encode_be le(1) be Let_def list.sel option.case)
  also have "prefix_of le = drop_bit 6 first"
    using p le(2) [unfolded count_def] by (rule prefix_of_eqI)
  finally show ?thesis
    by (simp add: bs rest split_first_byte)
qed

subsection \<open>The interface of a codec\<close>

locale mls_codec =
  fixes c :: "'a codec" and ok :: "'a \<Rightarrow> bool"
  assumes len_law: "ok x \<Longrightarrow> c_enc c x = Inr bs \<Longrightarrow> c_len c x = length bs"
    and round_trip: "ok x \<Longrightarrow> c_enc c x = Inr bs \<Longrightarrow> c_dec c (bs @ rest) = Inr (x, rest)"
    and dec_ok: "c_dec c bs = Inr (x, rest) \<Longrightarrow> ok x"
    and consumes: "c_dec c bs = Inr (x, rest) \<Longrightarrow> \<exists>p. bs = p @ rest"
begin

lemma prefix_free:
  assumes "ok x" "ok y" "c_enc c x = Inr bs" "c_enc c y = Inr cs" "bs @ r = cs @ r'"
  shows "x = y \<and> r = r'"
  using round_trip [OF assms(1,3), of r] round_trip [OF assms(2,4), of r'] assms(5) by simp

lemma enc_inject: "ok x \<Longrightarrow> ok y \<Longrightarrow> c_enc c x = Inr bs \<Longrightarrow> c_enc c y = Inr bs \<Longrightarrow> x = y"
  using prefix_free by blast

end

locale canonical_codec = mls_codec +
  assumes canonical: "c_dec c bs = Inr (x, rest) \<Longrightarrow> \<exists>p. c_enc c x = Inr p \<and> bs = p @ rest"
begin

lemma dec_inject: "c_dec c bs = Inr (x, []) \<Longrightarrow> c_dec c cs = Inr (x, []) \<Longrightarrow> bs = cs"
  using canonical [of bs x "[]"] canonical [of cs x "[]"] by auto

lemma dec_iff: "c_dec c bs = Inr (x, rest) \<longleftrightarrow> ok x \<and> (\<exists>p. c_enc c x = Inr p \<and> bs = p @ rest)"
  using canonical dec_ok round_trip by blast

end

locale stream_codec = mls_codec +
  assumes progress: "c_dec c bs = Inr (x, rest) \<Longrightarrow> length rest < length bs"
begin

lemma enc_nonempty: "ok x \<Longrightarrow> c_enc c x = Inr bs \<Longrightarrow> bs \<noteq> []"
  using round_trip [of x bs "[]"] progress [of bs x "[]"] by fastforce

end

locale wire_codec = canonical_codec + stream_codec
begin

lemma dec_Nil: "c_dec c [] \<noteq> Inr (x, rest)"
  using progress by fastforce

end

lemma wire_codecI:
  assumes "\<And>x bs. ok x \<Longrightarrow> c_enc c x = Inr bs \<Longrightarrow> c_len c x = length bs \<and> bs \<noteq> []"
    and "\<And>x bs rest. ok x \<Longrightarrow> c_enc c x = Inr bs \<Longrightarrow> c_dec c (bs @ rest) = Inr (x, rest)"
    and "\<And>bs x rest. c_dec c bs = Inr (x, rest) \<Longrightarrow> ok x \<and> (\<exists>p. c_enc c x = Inr p \<and> bs = p @ rest)"
  shows "wire_codec c ok"
proof
  fix bs x rest assume "c_dec c bs = Inr (x, rest)"
  then show "length rest < length bs" using assms(1,3) by fastforce
qed (use assms in blast)+

lemma canonical_codecI:
  assumes "\<And>x bs. ok x \<Longrightarrow> c_enc c x = Inr bs \<Longrightarrow> c_len c x = length bs"
    and "\<And>x bs rest. ok x \<Longrightarrow> c_enc c x = Inr bs \<Longrightarrow> c_dec c (bs @ rest) = Inr (x, rest)"
    and "\<And>bs x rest. c_dec c bs = Inr (x, rest) \<Longrightarrow> ok x \<and> (\<exists>p. c_enc c x = Inr p \<and> bs = p @ rest)"
  shows "canonical_codec c ok"
  by unfold_locales (use assms in blast)+

lemma wire_canonical: "wire_codec c ok \<Longrightarrow> canonical_codec c ok"
  by (simp add: wire_codec_def)

lemma wire_stream: "wire_codec c ok \<Longrightarrow> stream_codec c ok"
  by (simp add: wire_codec_def)

lemma stream_mls: "stream_codec c ok \<Longrightarrow> mls_codec c ok"
  by (simp add: stream_codec_def)

lemma canonical_mls: "canonical_codec c ok \<Longrightarrow> mls_codec c ok"
  by (simp add: canonical_codec_def)

lemma stream_codecI:
  assumes "\<And>x bs. ok x \<Longrightarrow> c_enc c x = Inr bs \<Longrightarrow> c_len c x = length bs"
    and "\<And>x bs rest. ok x \<Longrightarrow> c_enc c x = Inr bs \<Longrightarrow> c_dec c (bs @ rest) = Inr (x, rest)"
    and "\<And>bs x rest. c_dec c bs = Inr (x, rest) \<Longrightarrow> ok x \<and> (\<exists>p. bs = p @ rest \<and> p \<noteq> [])"
  shows "stream_codec c ok"
proof
  fix bs x rest assume "c_dec c bs = Inr (x, rest)"
  then show "length rest < length bs" using assms(3) by fastforce
qed (use assms in blast)+

subsection \<open>Primitives\<close>

lemma array_codec_canonical: "canonical_codec (array_codec n) (\<lambda>a. length a = n)"
  by (rule canonical_codecI)
    (auto simp: array_codec_def array_decode_def split: if_splits)

lemma stdint_wire:
  assumes "8 dvd LENGTH('a)"
  shows "wire_codec (stdint_codec :: 'a::len word codec) (\<lambda>_. True)"
proof -
  have "0 < LENGTH('a) div 8" using assms by (simp add: dvd_imp_le div_greater_zero_iff)
  then have pos: "to_be_bytes x \<noteq> []" for x :: "'a word"
    by (metis length_to_be_bytes less_numeral_extra(3) list.size(3))
  show ?thesis
    by (rule wire_codecI)
      (use assms pos in \<open>auto simp: stdint_codec_def array_decode_def to_from_be_bytes split: if_splits\<close>)
qed

lemma le_VARINT_MAX: "n \<le> VARINT_MAX \<longleftrightarrow> unat n < 2 ^ 30"
  by (simp add: VARINT_MAX_def word_le_nat_alt less_Suc_eq_le flip: less_Suc_eq_le)

lemma varint_encode_ok: "varint_encode n = Inr bs \<Longrightarrow> n \<le> VARINT_MAX \<and> varint_len n = length bs \<and> bs \<noteq> []"
  unfolding le_VARINT_MAX
  by (auto simp: varint_encode_cases varint_len_def count_bytes_cases split: if_splits)

lemma varint_encode_total: "n \<le> VARINT_MAX \<Longrightarrow> \<exists>bs. varint_encode n = Inr bs"
  unfolding le_VARINT_MAX by (simp add: varint_encode_cases)

lemma varint_wire: "wire_codec varint_codec (\<lambda>n. n \<le> VARINT_MAX)"
  by (rule wire_codecI)
    (auto simp: varint_codec_def varint_round_trip dest: varint_encode_ok varint_canonical)

lemma varint_try_from_usize_eq:
  "varint_try_from_usize k = (if k < 2 ^ 30 then Inr (of_nat k) else Inl VarIntOutOfRange)"
  by (auto simp: varint_try_from_usize_def varint_try_from_u32_def le_VARINT_MAX unat_of_nat_small)

lemma unit_canonical: "canonical_codec unit_codec (\<lambda>_. True)"
  by (rule canonical_codecI) (auto simp: unit_codec_def)

lemma bool_mls: "mls_codec bool_codec (\<lambda>_. True)"
  by unfold_locales (auto simp: bool_codec_def u8_decode split: list.splits if_splits)

subsection \<open>Collections\<close>

lemma byte_vec_encode_iff:
  "byte_vec_encode data = Inr bs \<longleftrightarrow>
   length data < 2 ^ 30 \<and> (\<exists>hdr. varint_encode (of_nat (length data)) = Inr hdr \<and> bs = hdr @ data)"
  by (auto simp: byte_vec_encode_def varint_try_from_usize_eq varint_codec_def)

lemma byte_vec_encode_total:
  "byte_vec_encode data = Inl e \<longleftrightarrow> 2 ^ 30 \<le> length data \<and> e = VarIntOutOfRange"
proof (cases "length data < 2 ^ 30")
  case True
  then have "of_nat (length data) \<le> VARINT_MAX" by (simp add: le_VARINT_MAX unat_of_nat_small)
  from varint_encode_total [OF this] show ?thesis using True
    by (auto simp: byte_vec_encode_def varint_try_from_usize_eq varint_codec_def)
qed (auto simp: byte_vec_encode_def varint_try_from_usize_eq)

lemma split_on_collection_iff:
  "mls_decode_split_on_collection bs = Inr (data, rest) \<longleftrightarrow>
   (\<exists>p. byte_vec_encode data = Inr p \<and> bs = p @ rest)"
proof
  assume "mls_decode_split_on_collection bs = Inr (data, rest)"
  then obtain n r where dec: "varint_decode bs = Inr (n, r)" and n: "unat n \<le> length r"
    and data: "data = take (unat n) r" "rest = drop (unat n) r"
    by (auto simp: mls_decode_split_on_collection_def varint_codec_def Let_def split: if_splits)
  from varint_canonical [OF dec] obtain p where p: "varint_encode n = Inr p" "bs = p @ r" by blast
  from varint_encode_ok [OF p(1)] have "unat n < 2 ^ 30" unfolding le_VARINT_MAX by blast
  with n data p show "\<exists>p. byte_vec_encode data = Inr p \<and> bs = p @ rest"
    by (auto simp: byte_vec_encode_iff)
next
  assume "\<exists>p. byte_vec_encode data = Inr p \<and> bs = p @ rest"
  then obtain hdr where "length data < 2 ^ 30" "varint_encode (of_nat (length data)) = Inr hdr"
    and bs: "bs = hdr @ data @ rest"
    by (auto simp: byte_vec_encode_iff)
  then show "mls_decode_split_on_collection bs = Inr (data, rest)"
    by (simp add: mls_decode_split_on_collection_def varint_codec_def varint_round_trip unat_of_nat_small)
qed

lemma header_length_ok:
  "byte_vec_encode data = Inr bs \<Longrightarrow> header_length (length data) + length data = length bs"
  by (auto simp: header_length_def byte_vec_encode_iff varint_try_from_usize_eq varint_codec_def
      dest: varint_encode_ok)

lemma byte_vec_nonempty: "byte_vec_encode data = Inr bs \<Longrightarrow> bs \<noteq> []"
  by (auto simp: byte_vec_encode_iff dest: varint_encode_ok)

lemma byte_vec_wire: "wire_codec byte_vec_codec (\<lambda>_. True)"
  by (rule wire_codecI)
    (auto simp: byte_vec_codec_def byte_vec_len_def byte_vec_decode_def split_on_collection_iff
      header_length_ok byte_vec_nonempty)

lemma iter_encode_byte_vec:
  "iter_encode c xs = bindR (mapR (c_enc c) xs) (\<lambda>bss. byte_vec_encode (concat bss))"
  by (simp add: iter_encode_def byte_vec_encode_def Let_def)

lemma decode_items_Nil [simp]: "decode_items dec [] = Inr []"
  by (simp add: decode_items.simps)

context mls_codec
begin

lemma sum_len:
  "list_all ok xs \<Longrightarrow> mapR (c_enc c) xs = Inr bss \<Longrightarrow> sum_list (map (c_len c) xs) = length (concat bss)"
  by (induction xs arbitrary: bss) (auto dest: len_law)

lemma iter_len_law:
  assumes "list_all ok xs" "iter_encode c xs = Inr bs"
  shows "iter_len c xs = length bs"
proof -
  from assms(2) obtain bss where bss: "mapR (c_enc c) xs = Inr bss" "byte_vec_encode (concat bss) = Inr bs"
    by (auto simp: iter_encode_byte_vec)
  then show ?thesis
    using header_length_ok [OF bss(2)] sum_len [OF assms(1) bss(1)] by (simp add: iter_len_def)
qed

lemma iter_encode_prealloc_eq:
  assumes "list_all ok xs" "mapR (c_enc c) xs = Inr bss"
  shows "iter_encode_prealloc c xs = iter_encode c xs"
  using sum_len [OF assms] assms(2)
  by (simp add: iter_encode_prealloc_def iter_encode_byte_vec byte_vec_encode_def Let_def)

end

context stream_codec
begin

lemma decode_items_concat:
  "list_all ok xs \<Longrightarrow> mapR (c_enc c) xs = Inr bss \<Longrightarrow> decode_items (c_dec c) (concat bss) = Inr xs"
proof (induction xs arbitrary: bss)
  case (Cons x xs)
  then obtain bs bss' where enc: "c_enc c x = Inr bs" "mapR (c_enc c) xs = Inr bss'" "bss = bs # bss'"
    by auto
  with Cons have "bs \<noteq> []" "c_dec c (bs @ concat bss') = Inr (x, concat bss')"
    using enc_nonempty round_trip by auto
  with Cons enc show ?case by (simp add: decode_items.simps)
qed simp

lemma decode_items_ok: "decode_items (c_dec c) data = Inr xs \<Longrightarrow> list_all ok xs"
proof (induction "c_dec c" data arbitrary: xs rule: decode_items.induct)
  case (1 data)
  show ?case
  proof (cases "data = []")
    case True
    with 1 show ?thesis by auto
  next
    case False
    with 1(2) obtain x rest xs' where dec: "c_dec c data = Inr (x, rest)" and lt: "length rest < length data"
      and rec: "decode_items (c_dec c) rest = Inr xs'" and xs: "xs = x # xs'"
      by (subst (asm) decode_items.simps) (auto split: if_splits prod.splits)
    from 1(1) [OF False dec refl lt rec] dec_ok [OF dec] show ?thesis by (simp add: xs)
  qed
qed

lemma decode_items_returns:
  "(\<And>bs. c_dec c bs \<noteq> Inl Codec_Diverges) \<Longrightarrow> decode_items (c_dec c) data \<noteq> Inl Codec_Diverges"
proof (induction "c_dec c" data rule: decode_items.induct)
  case (1 data)
  then show ?case
    by (subst decode_items.simps) (auto simp: bindR_eq_Inl split: if_splits dest: progress)
qed

end

context wire_codec
begin

lemma decode_items_canonical:
  "decode_items (c_dec c) data = Inr xs \<Longrightarrow>
   list_all ok xs \<and> (\<exists>bss. mapR (c_enc c) xs = Inr bss \<and> data = concat bss)"
proof (induction "c_dec c" data arbitrary: xs rule: decode_items.induct)
  case (1 data)
  show ?case
  proof (cases "data = []")
    case True
    with 1 show ?thesis by auto
  next
    case False
    with 1(2) obtain x rest xs' where dec: "c_dec c data = Inr (x, rest)"
      and lt: "length rest < length data"
      and rec: "decode_items (c_dec c) rest = Inr xs'" and xs: "xs = x # xs'"
      by (subst (asm) decode_items.simps) (auto split: if_splits prod.splits)
    from 1(1) [OF False dec refl lt rec] canonical [OF dec] dec_ok [OF dec]
    show ?thesis by (fastforce simp: xs)
  qed
qed

lemma vec_wire: "wire_codec (vec_codec c) (list_all ok)"
proof (rule wire_codecI)
  fix xs bs assume ok: "list_all ok xs" and enc: "c_enc (vec_codec c) xs = Inr bs"
  then show "c_len (vec_codec c) xs = length bs \<and> bs \<noteq> []"
    using iter_len_law by (auto simp: vec_codec_def iter_encode_byte_vec dest: byte_vec_nonempty)
  fix rest
  from ok enc show "c_dec (vec_codec c) (bs @ rest) = Inr (xs, rest)"
    by (auto simp: vec_codec_def iter_encode_byte_vec mls_decode_collection_def
        split_on_collection_iff decode_items_concat)
next
  fix bs xs rest assume "c_dec (vec_codec c) bs = Inr (xs, rest)"
  then show "list_all ok xs \<and> (\<exists>p. c_enc (vec_codec c) xs = Inr p \<and> bs = p @ rest)"
    by (auto simp: vec_codec_def iter_encode_byte_vec mls_decode_collection_def
        split_on_collection_iff dest!: decode_items_canonical)
qed

end

subsection \<open>Options, pairs, structs and enums\<close>

lemma option_dec:
  "c_dec (option_codec c) (0 # r) = Inr (None, r)"
  "c_dec (option_codec c) (1 # r) = bindR (c_dec c r) (\<lambda>(x, reader). Inr (Some x, reader))"
  by (simp_all add: option_codec_def u8_decode del: bindR_eq_Inr)

lemma option_wire:
  assumes "canonical_codec c ok"
  shows "wire_codec (option_codec c) (pred_option ok)"
proof -
  from assms have mls: "mls_codec c ok" by (simp add: canonical_codec_def)
  show ?thesis
  proof (rule wire_codecI)
    fix v bs assume ok: "pred_option ok v" and enc: "c_enc (option_codec c) v = Inr bs"
    then show "c_len (option_codec c) v = length bs \<and> bs \<noteq> []"
      by (auto simp: option_codec_def split: option.splits dest: mls_codec.len_law [OF mls])
    fix rest
    from ok enc show "c_dec (option_codec c) (bs @ rest) = Inr (v, rest)"
      by (cases v) (auto simp: option_codec_def [THEN arg_cong [of _ _ c_enc]] option_dec mls_codec.round_trip [OF mls])
  next
    fix bs v rest assume "c_dec (option_codec c) bs = Inr (v, rest)"
    then show "pred_option ok v \<and> (\<exists>p. c_enc (option_codec c) v = Inr p \<and> bs = p @ rest)"
      using canonical_codec.dec_iff [OF assms]
      by (cases bs; cases v) (auto simp: option_codec_def u8_decode split: if_splits)
  qed
qed

lemma pair_canonical:
  assumes "canonical_codec c ok" "canonical_codec d ok'"
  shows "canonical_codec (pair_codec c d) (\<lambda>(x, y). ok x \<and> ok' y)"
proof -
  from assms have mls: "mls_codec c ok" "mls_codec d ok'" by (simp_all add: canonical_codec_def)
  show ?thesis
  proof (rule canonical_codecI)
    fix xy bs assume ok: "case xy of (x, y) \<Rightarrow> ok x \<and> ok' y" and enc: "c_enc (pair_codec c d) xy = Inr bs"
    then show "c_len (pair_codec c d) xy = length bs"
      by (auto simp: pair_codec_def mls_codec.len_law [OF mls(1)] mls_codec.len_law [OF mls(2)])
    fix rest
    from ok enc show "c_dec (pair_codec c d) (bs @ rest) = Inr (xy, rest)"
      by (auto simp: pair_codec_def mls_codec.round_trip [OF mls(1)] mls_codec.round_trip [OF mls(2)])
  next
    fix bs xy rest assume "c_dec (pair_codec c d) bs = Inr (xy, rest)"
    then show "(case xy of (x, y) \<Rightarrow> ok x \<and> ok' y) \<and> (\<exists>p. c_enc (pair_codec c d) xy = Inr p \<and> bs = p @ rest)"
      using canonical_codec.dec_iff [OF assms(1)] canonical_codec.dec_iff [OF assms(2)]
      by (auto simp: pair_codec_def)
  qed
qed

lemma pair_wire:
  assumes "wire_codec c ok" "canonical_codec d ok'"
  shows "wire_codec (pair_codec c d) (\<lambda>(x, y). ok x \<and> ok' y)"
proof -
  have "canonical_codec (pair_codec c d) (\<lambda>(x, y). ok x \<and> ok' y)"
    using assms pair_canonical wire_canonical by blast
  moreover have "length rest < length bs" if "c_dec (pair_codec c d) bs = Inr (xy, rest)" for bs xy rest
    using that stream_codec.progress [OF wire_stream [OF assms(1)]] canonical_codec.dec_iff [OF assms(2)]
    by (fastforce simp: pair_codec_def)
  ultimately show ?thesis
    by (simp add: wire_codec_def stream_codec_def stream_codec_axioms_def canonical_codec_def)
qed

lemma struct_canonical:
  assumes "canonical_codec c ok" "\<And>v. mk (flds v) = v" "\<And>f. flds (mk f) = f"
  shows "canonical_codec (struct_codec flds mk c) (\<lambda>v. ok (flds v))"
proof -
  from assms have mls: "mls_codec c ok" by (simp add: canonical_codec_def)
  show ?thesis
    by (rule canonical_codecI)
      (auto simp: struct_codec_def assms(2,3) mls_codec.len_law [OF mls] mls_codec.round_trip [OF mls]
        canonical_codec.dec_iff [OF assms(1)])
qed

lemma struct_wire:
  assumes "wire_codec c ok" "\<And>v. mk (flds v) = v" "\<And>f. flds (mk f) = f"
  shows "wire_codec (struct_codec flds mk c) (\<lambda>v. ok (flds v))"
proof -
  have "canonical_codec (struct_codec flds mk c) (\<lambda>v. ok (flds v))"
    using assms struct_canonical wire_canonical by blast
  moreover have "length rest < length bs" if "c_dec (struct_codec flds mk c) bs = Inr (v, rest)" for bs v rest
    using that stream_codec.progress [OF wire_stream [OF assms(1)]] by (auto simp: struct_codec_def)
  ultimately show ?thesis
    by (simp add: wire_codec_def stream_codec_def stream_codec_axioms_def canonical_codec_def)
qed

lemma variant_of_lawful:
  assumes "canonical_codec c ok'" "\<And>v x. view v = Some x \<longleftrightarrow> v = mk x" "\<And>x. ok (mk x) = ok' x"
  shows "lawful_variant ok (variant_of disc view mk c)"
proof -
  from assms have mls: "mls_codec c ok'" by (simp add: canonical_codec_def)
  have view: "view (mk x) = Some x" for x using assms(2) by simp
  show ?thesis
    unfolding lawful_variant_def variant_of_def
    by (auto simp: assms view mls_codec.len_law [OF mls] mls_codec.round_trip [OF mls]
        canonical_codec.dec_iff [OF assms(1)])
qed

lemma find_SomeD: "find P xs = Some k \<Longrightarrow> k \<in> set xs \<and> P k"
  by (auto simp: find_Some_iff)

lemma find_view:
  assumes "\<forall>k\<in>set vs. \<forall>k'\<in>set vs. v_view k v \<and> v_view k' v \<longrightarrow> k = k'" "k \<in> set vs" "v_view k v"
  shows "find (\<lambda>k. v_view k v) vs = Some k"
proof -
  from assms obtain k' where "find (\<lambda>k. v_view k v) vs = Some k'"
    by (cases "find (\<lambda>k. v_view k v) vs") (auto simp: find_None_iff)
  with assms show ?thesis by (blast dest: find_SomeD)
qed

lemma find_disc:
  assumes "distinct (map f vs)" "k \<in> set vs"
  shows "find (\<lambda>k'. f k' = f k) vs = Some k"
  using assms by (induction vs) (auto simp: image_iff)

lemma enum_wire:
  fixes vs :: "'a variant list"
  assumes "8 dvd LENGTH('d::len)"
    and lawful: "\<And>k. k \<in> set vs \<Longrightarrow> lawful_variant ok k"
    and disc: "distinct (map (\<lambda>k. of_nat (v_disc k) :: 'd word) vs)"
    and views: "\<And>v. \<forall>k\<in>set vs. \<forall>k'\<in>set vs. v_view k v \<and> v_view k' v \<longrightarrow> k = k'"
  shows "wire_codec (enum_codec TYPE('d word) vs) ok"
proof (rule wire_codecI)
  note wire = stdint_wire [OF assms(1)]
  note mls = wire [THEN wire_canonical, THEN canonical_mls]
  fix v bs rest assume ok: "ok v" and enc: "c_enc (enum_codec TYPE('d word) vs) v = Inr bs"
  then obtain k where k: "find (\<lambda>k. v_view k v) vs = Some k" "k \<in> set vs" "v_view k v"
    by (auto simp: enum_codec_def split: option.splits dest: find_SomeD)
  with enc obtain p q where pq: "c_enc (stdint_codec :: 'd word codec) (of_nat (v_disc k)) = Inr p"
    "v_enc k v = Inr q" "bs = p @ q"
    by (auto simp: enum_codec_def)
  from pq(1) have p: "p \<noteq> []" "c_len (stdint_codec :: 'd word codec) (of_nat (v_disc k)) = length p"
    "\<And>r. c_dec (stdint_codec :: 'd word codec) (p @ r) = Inr (of_nat (v_disc k), r)"
    using stream_codec.enc_nonempty [OF wire_stream [OF wire]] mls_codec.len_law [OF mls] mls_codec.round_trip [OF mls] by auto
  from lawful [OF k(2)] k pq p(1,2) ok
  show "c_len (enum_codec TYPE('d word) vs) v = length bs \<and> bs \<noteq> []"
    by (simp add: enum_codec_def lawful_variant_def)
  from lawful [OF k(2)] k pq ok p(3) find_disc [OF disc k(2)]
  show "c_dec (enum_codec TYPE('d word) vs) (bs @ rest) = Inr (v, rest)"
    by (simp add: enum_codec_def lawful_variant_def)
next
  fix bs v rest assume "c_dec (enum_codec TYPE('d word) vs) bs = Inr (v, rest)"
  then obtain n r k where dec: "c_dec (stdint_codec :: 'd word codec) bs = Inr (n, r)"
    and find: "find (\<lambda>k. of_nat (v_disc k) = n) vs = Some k" and k3: "v_dec k r = Inr (v, rest)"
    by (auto simp: enum_codec_def split: option.splits)
  from find_SomeD [OF find] k3 have k: "k \<in> set vs" "of_nat (v_disc k) = n" "v_dec k r = Inr (v, rest)"
    by auto
  from lawful [OF k(1)] k(3) obtain q where q: "v_view k v" "ok v" "v_enc k v = Inr q" "r = q @ rest"
    unfolding lawful_variant_def by blast
  from dec obtain p where "c_enc (stdint_codec :: 'd word codec) n = Inr p" "bs = p @ r"
    using canonical_codec.canonical [OF wire_canonical [OF stdint_wire [OF assms(1)]]] by blast
  with q k find_view [OF views k(1) q(1)]
  show "ok v \<and> (\<exists>p. c_enc (enum_codec TYPE('d word) vs) v = Inr p \<and> bs = p @ rest)"
    by (simp add: enum_codec_def)
qed

subsection \<open>Maps\<close>

lemma foldl_map_upd: "foldl (\<lambda>items (k, v). items(k \<mapsto> v)) m entries = m ++ map_of (rev entries)"
  by (induction entries arbitrary: m) (auto simp: fun_upd_def map_add_def fun_eq_iff split: option.splits)

lemma map_round_trip:
  assumes "wire_codec kc okk" "canonical_codec vc okv"
    and ok: "list_all (\<lambda>(k, v). okk k \<and> okv v) entries" and "distinct (map fst entries)"
    and enc: "map_encode kc vc entries = Inr bs"
  shows "map_decode kc vc (bs @ rest) = Inr (map_of entries, rest)"
proof -
  note wire = pair_wire [OF assms(1,2)]
  from enc obtain bss where bss: "mapR (c_enc (pair_codec kc vc)) entries = Inr bss"
    "byte_vec_encode (concat bss) = Inr bs"
    by (auto simp: map_encode_def iter_encode_byte_vec)
  from assms(4) have "map_of (rev entries) = map_of entries"
    by (intro map_of_eqI) (auto simp: rev_map [symmetric])
  with bss show ?thesis
    using stream_codec.decode_items_concat [OF wire_stream [OF wire] ok bss(1)]
    by (auto simp: map_decode_def mls_decode_collection_def split_on_collection_iff foldl_map_upd)
qed

subsection \<open>The codecs of the crate\<close>

interpretation u8c: wire_codec u8_codec "\<lambda>_. True"
  by (rule stdint_wire) simp

interpretation u16c: wire_codec u16_codec "\<lambda>_. True"
  by (rule stdint_wire) simp

interpretation u32c: wire_codec u32_codec "\<lambda>_. True"
  by (rule stdint_wire) simp

interpretation u64c: wire_codec u64_codec "\<lambda>_. True"
  by (rule stdint_wire) simp

interpretation varintc: wire_codec varint_codec "\<lambda>v. v \<le> VARINT_MAX"
  by (rule varint_wire)

interpretation bytesc: wire_codec byte_vec_codec "\<lambda>_. True"
  by (rule byte_vec_wire)

interpretation boolc: mls_codec bool_codec "\<lambda>_. True"
  by (rule bool_mls)

section \<open>Evaluation\<close>

text \<open>Code equations whose comparisons are on binary numbers.\<close>

lemma varint_try_from_usize_code [code]:
  "varint_try_from_usize n =
     bindR (if int n < 4294967296 then Inr (of_nat n) else Inl VarIntOutOfRange) varint_try_from_u32"
  by (simp add: varint_try_from_usize_def)

lemma varint_encode_code [code]:
  "varint_encode n =
     (if n < 0x40 then Inr [ucast n]
      else if n < 0x4000 then Inr [ucast (drop_bit 8 n) OR 0x40, ucast n]
      else if n < 0x40000000 then
        Inr [ucast (drop_bit 24 n) OR 0x80, ucast (drop_bit 16 n), ucast (drop_bit 8 n), ucast n]
      else Inl Codec_Panic)"
  by (simp add: varint_encode_cases word_less_nat_alt)

section \<open>Properties\<close>

text \<open>
  C20. A variable-size integer is read from exactly the bytes its encoder writes, and from no other bytes;
  the encoder writes every value up to the maximum and panics on a larger one.
\<close>
theorem varint_wire_format:
  "(varint_decode bs = Inr (n, rest) \<longleftrightarrow> (\<exists>p. varint_encode n = Inr p \<and> bs = p @ rest)) \<and>
   ((\<exists>p. varint_encode n = Inr p) \<longleftrightarrow> n \<le> VARINT_MAX) \<and>
   (VARINT_MAX < n \<longleftrightarrow> varint_encode n = Inl Codec_Panic)"
proof (intro conjI)
  show "varint_decode bs = Inr (n, rest) \<longleftrightarrow> (\<exists>p. varint_encode n = Inr p \<and> bs = p @ rest)"
    using varint_round_trip varint_canonical by blast
  show "(\<exists>p. varint_encode n = Inr p) \<longleftrightarrow> n \<le> VARINT_MAX"
    using varint_encode_total varint_encode_ok by blast
  show "VARINT_MAX < n \<longleftrightarrow> varint_encode n = Inl Codec_Panic"
    unfolding not_le [symmetric] le_VARINT_MAX by (simp add: varint_encode_cases)
qed

end
