(* ===== verification/TreeMath.thy ===== *)
theory TreeMath
  imports Prelude "HOL-Library.Multiset"
begin

text \<open>
  Array-based trees (\<^verbatim>\<open>mls-rs/src/tree_kem/math.rs\<close>): the index arithmetic on \<^verbatim>\<open>u32\<close> node indices by which
  a ratchet tree, a secret tree and a tree hash are navigated. Node indices stay machine words: shifts,
  masks and subtractions wrap as they do in a release build, where the amount of a shift is taken
  modulo the width. A loop of the source that need not end is a \<open>partial_function\<close> into options.
  The lemmas relate the arithmetic to the complete binary tree it navigates: \<open>node_at k i\<close> is the
  \<open>i\<close>-th node from the left on level \<open>k\<close>.
\<close>

type_synonym node_index = u32
type_synonym leaf_index = u32

record copath_node =
  path :: node_index
  copath :: node_index

record parent_sibling =
  parent :: node_index
  sibling :: node_index

record sub_tree =
  st_left :: leaf_index
  st_right :: leaf_index

definition trailing_ones :: "u32 \<Rightarrow> nat" where
  "trailing_ones w = length (takeWhile (bit w) [0..<32])"

definition shl :: "u32 \<Rightarrow> nat \<Rightarrow> u32" where
  "shl w n = push_bit (n mod 32) w"

definition root_index :: "node_index \<Rightarrow> node_index" where
  "root_index leaf_count = leaf_count - 1"

text \<open>\<open>trailing_ones() - 1\<close> is a \<^verbatim>\<open>u32\<close> subtraction: at 0 it wraps to a shift amount of 31 modulo 32.\<close>

definition left_unchecked :: "node_index \<Rightarrow> node_index" where
  "left_unchecked x = x XOR shl 1 (trailing_ones x + 31)"

definition right_unchecked :: "node_index \<Rightarrow> node_index" where
  "right_unchecked x = x XOR shl 3 (trailing_ones x + 31)"

definition parent_sibling_of :: "node_index \<Rightarrow> node_index \<Rightarrow> parent_sibling option" where
  "parent_sibling_of x leaf_count =
     (if x = root_index leaf_count then None
      else let lvl = trailing_ones x;
               p = (x AND NOT (shl 1 (lvl + 1))) OR shl 1 lvl;
               s = (if x < p then right_unchecked p else left_unchecked p)
           in Some \<lparr>parent = p, sibling = s\<rparr>)"

definition is_leaf :: "node_index \<Rightarrow> bool" where
  "is_leaf x \<longleftrightarrow> x AND 1 = 0"

definition is_in_tree :: "node_index \<Rightarrow> node_index \<Rightarrow> bool" where
  "is_in_tree x root \<longleftrightarrow> x \<le> 2 * root"

definition left_index :: "node_index \<Rightarrow> node_index option" where
  "left_index x = (if \<not> is_leaf x then Some (left_unchecked x) else None)"

definition right_index :: "node_index \<Rightarrow> node_index option" where
  "right_index x = (if \<not> is_leaf x then Some (right_unchecked x) else None)"

partial_function (option) copath_loop ::
  "node_index \<Rightarrow> node_index \<Rightarrow> copath_node list \<Rightarrow> copath_node list option" where
  [code]: "copath_loop leaf_count x acc =
     (case parent_sibling_of x leaf_count of
        None \<Rightarrow> Some acc
      | Some ps \<Rightarrow> copath_loop leaf_count (parent ps) (acc @ [\<lparr>path = parent ps, copath = sibling ps\<rparr>]))"

definition direct_copath :: "node_index \<Rightarrow> node_index \<Rightarrow> copath_node list option" where
  "direct_copath x leaf_count =
     (if \<not> is_in_tree x (root_index leaf_count) then Some [] else copath_loop leaf_count x [])"

function leaf_lca_loop :: "u32 \<Rightarrow> u32 \<Rightarrow> nat \<Rightarrow> nat" where
  "leaf_lca_loop xn yn k =
     (if xn = yn then k else leaf_lca_loop (drop_bit 1 xn) (drop_bit 1 yn) (k + 1))"
  by pat_completeness auto

lemma u32_bound: "unat (w :: u32) < 2 ^ 32"
proof -
  have "unat w < 2 ^ LENGTH(32)" by (rule unsigned_less)
  then show ?thesis by simp
qed

lemma drop_bit_1_less: "drop_bit 1 w < w" if "w \<noteq> 0" for w :: "'a::len word"
proof -
  from that have "unat w > 0" by (simp add: unat_gt_0)
  then show ?thesis by (simp only: word_less_nat_alt unat_drop_bit_eq) (simp add: drop_bit_Suc)
qed

termination leaf_lca_loop
proof (relation "measure (\<lambda>(x, y, _). unat x + unat y)", simp, clarsimp)
  fix x y :: u32 assume "x \<noteq> y"
  then consider "x \<noteq> 0" | "y \<noteq> 0" by auto
  moreover have "drop_bit 1 w \<le> w" for w :: u32
    using drop_bit_1_less [of w] by (cases "w = 0") auto
  ultimately show "unat (drop_bit (Suc 0) x) + unat (drop_bit (Suc 0) y) < unat x + unat y"
    using drop_bit_1_less [of x] drop_bit_1_less [of y]
    by cases (simp_all add: word_less_nat_alt word_le_nat_alt add_less_le_mono add_le_less_mono)
qed

definition leaf_lca_level :: "u32 \<Rightarrow> u32 \<Rightarrow> nat" where
  "leaf_lca_level x y = leaf_lca_loop x y 0"

definition from_node_index_unchecked :: "node_index \<Rightarrow> leaf_index" where
  "from_node_index_unchecked index = drop_bit 1 index"

definition next_unchecked :: "leaf_index \<Rightarrow> leaf_index" where
  "next_unchecked l = l + 1"

definition node_of_leaf :: "leaf_index \<Rightarrow> node_index" where
  "node_of_leaf l = l * 2"

definition subtree :: "node_index \<Rightarrow> sub_tree" where
  "subtree x =
     (let breadth = shl 1 (trailing_ones x)
      in \<lparr>st_left = from_node_index_unchecked (x + 1 - breadth),
          st_right = next_unchecked (from_node_index_unchecked (x + breadth))\<rparr>)"

text \<open>\<^verbatim>\<open>SubTreeIter\<close>: the leaf indices from \<open>left\<close> up to and without \<open>right\<close>.\<close>

function subtree_iter :: "leaf_index \<Rightarrow> leaf_index \<Rightarrow> leaf_index list" where
  "subtree_iter current end =
     (if current < end then current # subtree_iter (next_unchecked current) end else [])"
  by pat_completeness auto
termination
proof (relation "measure (\<lambda>(c, e). unat e - unat c)", simp, clarsimp)
  fix c e :: u32 assume "c < e"
  then have "unat c < unat e" "unat c + 1 < 2 ^ 32"
    using u32_bound [of e] by (simp_all add: word_less_nat_alt)
  then show "unat e - unat (next_unchecked c) < unat e - unat c"
    by (simp add: next_unchecked_def unat_word_ariths)
qed

declare leaf_lca_loop.simps [simp del] subtree_iter.simps [simp del]

definition into_iter :: "sub_tree \<Rightarrow> leaf_index list" where
  "into_iter st = subtree_iter (st_left st) (st_right st)"

text \<open>
  \<^verbatim>\<open>BfsIterTopDown\<close>: its fields are \<^verbatim>\<open>usize\<close>, and stay below twice the number of leaves.
\<close>

record bfs_iter =
  level :: nat
  mask_bits :: nat
  level_end :: nat
  ctr :: nat

definition trailing_zeros :: "nat \<Rightarrow> nat" where
  "trailing_zeros n = length (takeWhile (\<lambda>i. \<not> bit n i) [0..<64])"

definition bfs_new :: "nat \<Rightarrow> bfs_iter" where
  "bfs_new num_leaves =
     (let depth = trailing_zeros num_leaves
      in \<lparr>level = depth + 1, mask_bits = 2 ^ depth - 1, level_end = 1, ctr = 0\<rparr>)"

definition bfs_next :: "bfs_iter \<Rightarrow> (nat \<times> bfs_iter) option" where
  "bfs_next it =
     (if ctr it = level_end it \<and> level it = 1 then None
      else let it = (if ctr it = level_end it
                     then it\<lparr>level_end := (push_bit 1 (level_end it - 1) OR 1) + 1,
                             level := level it - 1, ctr := 0, mask_bits := drop_bit 1 (mask_bits it)\<rparr>
                     else it)
           in Some (push_bit (level it) (ctr it) OR mask_bits it, it\<lparr>ctr := ctr it + 1\<rparr>))"

partial_function (option) bfs_collect :: "bfs_iter \<Rightarrow> nat list option" where
  [code]: "bfs_collect it =
     (case bfs_next it of
        None \<Rightarrow> Some []
      | Some (n, it) \<Rightarrow> Option.bind (bfs_collect it) (\<lambda>ns. Some (n # ns)))"

definition bfs_top_down :: "nat \<Rightarrow> nat list option" where
  "bfs_top_down num_leaves = bfs_collect (bfs_new num_leaves)"

section \<open>The complete binary tree\<close>

definition node_at :: "nat \<Rightarrow> nat \<Rightarrow> nat" where
  "node_at k i = i * 2 ^ Suc k + (2 ^ k - 1)"

definition word_node :: "nat \<Rightarrow> nat \<Rightarrow> node_index" where
  "word_node k i = of_nat (node_at k i)"

definition sibling_at :: "nat \<Rightarrow> nat" where
  "sibling_at i = (if even i then i + 1 else i - 1)"

definition in_tree :: "nat \<Rightarrow> nat \<Rightarrow> nat \<Rightarrow> bool" where
  "in_tree d k i \<longleftrightarrow> k \<le> d \<and> i < 2 ^ (d - k)"

text \<open>The path of a node to the root of a tree of depth \<open>d\<close>, each node with its child off the path.\<close>

definition copath_spec :: "nat \<Rightarrow> nat \<Rightarrow> nat \<Rightarrow> copath_node list" where
  "copath_spec d k i =
     map (\<lambda>j. \<lparr>path = word_node (Suc j) (i div 2 ^ (Suc j - k)),
               copath = word_node j (sibling_at (i div 2 ^ (j - k)))\<rparr>) [k..<d]"

subsection \<open>Bits of a node index\<close>

lemma Suc_node_at: "Suc (node_at k i) = (2 * i + 1) * 2 ^ k"
  using one_le_power [of "2 :: nat" k] by (simp add: node_at_def algebra_simps del: one_le_power one_le_numeral)

lemma bit_node_at: "bit (node_at k i) m \<longleftrightarrow> m < k \<or> k < m \<and> bit i (m - Suc k)"
proof -
  have "node_at k i = push_bit (Suc k) i + mask k"
    by (simp add: node_at_def push_bit_eq_mult mask_eq_exp_minus_1)
  also have "\<dots> = push_bit (Suc k) i OR mask k"
    by (rule disjunctive_add) (auto simp: bit_push_bit_iff bit_mask_iff)
  finally show ?thesis
    by (auto simp: bit_or_iff bit_push_bit_iff bit_mask_iff simp del: push_bit_Suc)
qed

lemma bit_word_node: "bit (word_node k i) m \<longleftrightarrow> m < 32 \<and> (m < k \<or> k < m \<and> bit i (m - Suc k))"
  by (auto simp: word_node_def bit_of_nat_iff bit_node_at)

lemma takeWhile_upt_prefix:
  "(\<And>m. m < k \<Longrightarrow> P m) \<Longrightarrow> \<not> P k \<Longrightarrow> k < n \<Longrightarrow> length (takeWhile P [0..<n]) = k"
proof -
  assume P: "\<And>m. m < k \<Longrightarrow> P m" "\<not> P k" "k < n"
  then have "[0..<n] = [0..<k] @ k # [Suc k..<n]"
    by (metis less_imp_add_positive upt_add_eq_append upt_conv_Cons zero_le)
  with P show ?thesis by (simp add: takeWhile_append)
qed

lemma trailing_ones_word_node: "k < 32 \<Longrightarrow> trailing_ones (word_node k i) = k"
  unfolding trailing_ones_def by (rule takeWhile_upt_prefix) (auto simp: bit_word_node)

lemma bit_shl: "bit (shl w n) m \<longleftrightarrow> n mod 32 \<le> m \<and> m < 32 \<and> bit w (m - n mod 32)"
  by (auto simp: shl_def bit_push_bit_iff)

lemma bit_3_int: "bit (3 :: int) n \<longleftrightarrow> n = 0 \<or> n = 1"
proof -
  have "(3 :: int) = mask 2" by (simp add: mask_eq_exp_minus_1)
  then show ?thesis by (simp only: bit_mask_iff) auto
qed

lemma bit_Suc_double: "bit (Suc (2 * i)) n \<longleftrightarrow> n = 0 \<or> bit i (n - 1)"
  by (cases n) (auto simp: bit_Suc bit_0)

lemma left_word_node:
  assumes "Suc k < 32"
  shows "left_unchecked (word_node (Suc k) i) = word_node k (2 * i)"
proof (rule bit_word_eqI)
  fix m assume "m < LENGTH(32)"
  with assms show "bit (left_unchecked (word_node (Suc k) i)) m = bit (word_node k (2 * i)) m"
    by (cases m k rule: linorder_cases)
      (auto simp: left_unchecked_def trailing_ones_word_node bit_xor_iff bit_shl bit_word_node bit_double_iff
        bit_1_iff mod_add_self2 less_Suc_eq_le)
qed

lemma right_word_node:
  assumes "Suc k < 32"
  shows "right_unchecked (word_node (Suc k) i) = word_node k (2 * i + 1)"
proof (rule bit_word_eqI)
  fix m assume "m < LENGTH(32)"
  with assms show "bit (right_unchecked (word_node (Suc k) i)) m = bit (word_node k (2 * i + 1)) m"
    by (cases m k rule: linorder_cases)
      (auto simp: right_unchecked_def trailing_ones_word_node bit_xor_iff bit_shl bit_word_node
        bit_Suc_double bit_3_int mod_add_self2 less_Suc_eq_le)
qed

lemma word_node_less_parent:
  assumes "node_at (Suc k) (i div 2) < 2 ^ 32" "node_at k i < 2 ^ 32"
  shows "word_node k i < word_node (Suc k) (i div 2) \<longleftrightarrow> even i"
proof -
  have "Suc (node_at k i) < Suc (node_at (Suc k) (i div 2)) \<longleftrightarrow> even i"
    unfolding Suc_node_at by (cases "even i") (auto elim!: evenE oddE)
  then have "node_at k i < node_at (Suc k) (i div 2) \<longleftrightarrow> even i" by simp
  then show ?thesis
    unfolding word_node_def using assms by (subst word_less_nat_alt) (simp add: unat_of_nat_small)
qed

lemma parent_word_node:
  assumes "Suc k < 32"
  shows "(word_node k i AND NOT (shl 1 (k + 1))) OR shl 1 k = word_node (Suc k) (i div 2)"
proof (rule bit_word_eqI)
  fix m assume "m < LENGTH(32)"
  with assms show "bit ((word_node k i AND NOT (shl 1 (k + 1))) OR shl 1 k) m = bit (word_node (Suc k) (i div 2)) m"
    by (cases m k rule: linorder_cases)
      (auto simp: bit_or_iff bit_and_iff bit_not_iff bit_shl bit_word_node bit_1_iff Suc_diff_Suc simp flip: bit_Suc)
qed

lemma sibling_at_halves: "sibling_at i = (if even i then 2 * (i div 2) + 1 else 2 * (i div 2))"
  by (auto simp: sibling_at_def elim!: evenE oddE)

lemma parent_sibling_word_node:
  assumes "node_at (Suc k) (i div 2) < 2 ^ 32" "node_at k i < 2 ^ 32" "Suc k < 32"
    and "word_node k i \<noteq> root_index leaf_count"
  shows "parent_sibling_of (word_node k i) leaf_count =
           Some \<lparr>parent = word_node (Suc k) (i div 2), sibling = word_node k (sibling_at i)\<rparr>"
proof -
  have "trailing_ones (word_node k i) = k"
    using assms by (simp add: trailing_ones_word_node)
  then show ?thesis
    using assms parent_word_node [of k i] word_node_less_parent [of k i]
      left_word_node [of k "i div 2"] right_word_node [of k "i div 2"]
    by (simp add: parent_sibling_of_def Let_def sibling_at_halves)
qed


subsection \<open>Paths to the root\<close>

lemma in_tree_bound:
  assumes "in_tree d k i"
  shows "node_at k i < 2 ^ Suc d - 2 ^ k"
proof -
  from assms have "Suc i \<le> 2 ^ (d - k)" "d = k + (d - k)" by (simp_all add: in_tree_def)
  then have "Suc i * 2 ^ Suc k \<le> 2 ^ (d - k) * 2 ^ Suc k" by (intro mult_right_mono) auto
  also have "\<dots> = 2 ^ Suc d"
    using assms by (simp add: in_tree_def flip: power_add)
  finally have "Suc (node_at k i) + 2 ^ k \<le> 2 ^ Suc d"
    unfolding Suc_node_at by (simp add: algebra_simps)
  then show ?thesis by linarith
qed

lemma in_tree_word:
  assumes "in_tree d k i" "d \<le> 31"
  shows "node_at k i < 2 ^ 32" "unat (word_node k i) = node_at k i"
proof -
  from in_tree_bound [OF assms(1)] have "node_at k i < 2 ^ Suc d" by linarith
  also have "\<dots> \<le> 2 ^ 32" using assms by (intro power_increasing) auto
  finally show "node_at k i < 2 ^ 32" .
  then show "unat (word_node k i) = node_at k i"
    by (simp add: word_node_def unat_of_nat_small)
qed

lemma node_at_inject: "node_at k i = node_at k' i' \<longleftrightarrow> k = k' \<and> i = i'"
proof
  assume eq: "node_at k i = node_at k' i'"
  then have "bit (node_at k i) (min k k') \<longleftrightarrow> bit (node_at k' i') (min k k')" by simp
  then have "k = k'" by (auto simp: bit_node_at min_def split: if_splits)
  moreover from this eq have "(2 * i + 1) * 2 ^ k = (2 * i' + 1) * 2 ^ k"
    unfolding Suc_node_at [symmetric] by (rule_tac arg_cong [of _ _ Suc]) simp
  ultimately show "k = k' \<and> i = i'" by simp
qed simp

lemma word_node_inject:
  "in_tree d k i \<Longrightarrow> in_tree d k' i' \<Longrightarrow> d \<le> 31 \<Longrightarrow> word_node k i = word_node k' i' \<longleftrightarrow> k = k' \<and> i = i'"
  by (metis in_tree_word(2) node_at_inject)

lemma in_tree_root: "in_tree d d 0"
  by (simp add: in_tree_def)

lemma root_index_word_node: "root_index (2 ^ d) = word_node d 0"
  by (simp add: root_index_def word_node_def node_at_def of_nat_diff)

lemma in_tree_parent: "in_tree d k i \<Longrightarrow> k < d \<Longrightarrow> in_tree d (Suc k) (i div 2)"
  by (auto simp: in_tree_def less_mult_imp_div_less Suc_diff_Suc simp flip: power_Suc2)

lemma in_tree_sibling:
  assumes "in_tree d k i" "k < d"
  shows "in_tree d k (sibling_at i)"
proof -
  from assms have "2 ^ (d - k) = 2 * (2 ^ (d - Suc k) :: nat)"
    by (simp add: Suc_diff_Suc flip: power_Suc)
  with assms show ?thesis by (auto simp: in_tree_def sibling_at_def elim!: evenE)
qed

lemma is_root_iff:
  assumes "in_tree d k i" "d \<le> 31"
  shows "word_node k i = root_index (2 ^ d) \<longleftrightarrow> k = d"
proof -
  from assms have "k = d \<Longrightarrow> i = 0" by (simp add: in_tree_def)
  then show ?thesis
    using assms in_tree_root word_node_inject by (metis root_index_word_node)
qed

lemma copath_spec_Cons:
  assumes "k < d"
  shows "copath_spec d k i =
           \<lparr>path = word_node (Suc k) (i div 2), copath = word_node k (sibling_at i)\<rparr> # copath_spec d (Suc k) (i div 2)"
proof -
  have "i div 2 ^ (Suc j - k) = i div 2 div 2 ^ (j - k)" if "k \<le> j" for j
    using that by (simp add: Suc_diff_le div_mult2_eq)
  moreover have "i div 2 ^ (j - k) = i div 2 div 2 ^ (j - Suc k)" if "Suc k \<le> j" for j
    using that by (simp add: Suc_diff_Suc flip: div_mult2_eq power_Suc)
  ultimately show ?thesis
    using assms by (simp add: copath_spec_def upt_conv_Cons)
qed

lemma copath_loop_word_node:
  assumes "in_tree d k i" "d \<le> 31"
  shows "copath_loop (2 ^ d) (word_node k i) acc = Some (acc @ copath_spec d k i)"
  using assms(1)
proof (induction "d - k" arbitrary: k i acc)
  case 0
  then have "k = d" by (simp add: in_tree_def)
  with 0 show ?case
    using is_root_iff [OF 0(2) assms(2)]
    by (subst copath_loop.simps) (simp add: parent_sibling_of_def copath_spec_def)
next
  case (Suc n)
  then have k: "k < d" by simp
  from Suc.prems k have p: "in_tree d (Suc k) (i div 2)" by (rule in_tree_parent)
  have "parent_sibling_of (word_node k i) (2 ^ d) =
      Some \<lparr>parent = word_node (Suc k) (i div 2), sibling = word_node k (sibling_at i)\<rparr>"
    using in_tree_word(1) [OF Suc.prems assms(2)] in_tree_word(1) [OF p assms(2)] k assms(2)
      is_root_iff [OF Suc.prems assms(2)]
    by (intro parent_sibling_word_node) auto
  then show ?case
    using Suc(1) [OF _ p] Suc(2) k
    by (subst copath_loop.simps) (simp add: copath_spec_Cons)
qed

lemma unat_double_root:
  assumes "d \<le> 31"
  shows "unat (2 * root_index (2 ^ d)) = 2 * (2 ^ d - 1)"
proof -
  have "2 * (2 ^ d - 1) < (2 ^ 32 :: nat)"
    using power_increasing [of "Suc d" 32 "2 :: nat"] assms by simp
  then show ?thesis
    using in_tree_word(2) [OF in_tree_root assms]
    by (simp add: root_index_word_node unat_word_ariths node_at_def)
qed

lemma is_in_tree_word_node:
  assumes "in_tree d k i" "d \<le> 31"
  shows "is_in_tree (word_node k i) (root_index (2 ^ d))"
proof -
  have "node_at k i \<le> 2 * (2 ^ d - 1)"
    using in_tree_bound [OF assms(1)] one_le_power [of "2 :: nat" k] unfolding power_Suc by linarith
  then show ?thesis
    using in_tree_word(2) [OF assms] unat_double_root [OF assms(2)]
    by (simp add: is_in_tree_def word_le_nat_alt)
qed

lemma direct_copath_word_node:
  "in_tree d k i \<Longrightarrow> d \<le> 31 \<Longrightarrow> direct_copath (word_node k i) (2 ^ d) = Some (copath_spec d k i)"
  by (simp add: direct_copath_def is_in_tree_word_node copath_loop_word_node)

subsection \<open>Leaves, common ancestors and subtrees\<close>

lemma node_of_leaf_word_node: "node_of_leaf (of_nat i) = word_node 0 i"
  by (simp add: node_of_leaf_def word_node_def node_at_def)

lemma of_nat_u32_inject:
  "a < 2 ^ 32 \<Longrightarrow> b < 2 ^ 32 \<Longrightarrow> (of_nat a :: u32) = of_nat b \<longleftrightarrow> a = b"
  by (auto simp: word_unat_eq_iff unat_of_nat_small)

lemma drop_bit_of_nat:
  assumes "n < 2 ^ 32"
  shows "drop_bit k (of_nat n :: u32) = of_nat (n div 2 ^ k)"
proof -
  have "n div 2 ^ k < 2 ^ 32" using assms div_le_dividend order_le_less_trans by blast
  with assms have "unat (drop_bit k (of_nat n :: u32)) = unat (of_nat (n div 2 ^ k) :: u32)"
    unfolding unat_drop_bit_eq by (simp add: unat_of_nat_small drop_bit_nat_eq drop_bit_eq_div)
  then show ?thesis by (simp only: word_unat_eq_iff)
qed

lemma leaf_lca_loop_ge: "k \<le> leaf_lca_loop x y k"
  by (induction x y k rule: leaf_lca_loop.induct)
    (subst leaf_lca_loop.simps, auto dest: Suc_leD)

lemma leaf_lca_loop_le_iff: "leaf_lca_loop x y k \<le> k + j \<longleftrightarrow> drop_bit j x = drop_bit j y"
proof (induction x y k arbitrary: j rule: leaf_lca_loop.induct)
  case (1 x y k)
  show ?case
  proof (cases "x = y")
    case False
    show ?thesis
    proof (cases j)
      case 0
      with False show ?thesis
        using leaf_lca_loop_ge [of "k + 1" "drop_bit 1 x" "drop_bit 1 y"]
        by (subst leaf_lca_loop.simps) simp
    next
      case (Suc j')
      with False 1 [of j'] show ?thesis
        by (subst leaf_lca_loop.simps) (simp add: drop_bit_drop_bit)
    qed
  qed (subst leaf_lca_loop.simps, simp)
qed

lemma leaf_lca_level_le_iff: "leaf_lca_level x y \<le> j \<longleftrightarrow> drop_bit j x = drop_bit j y"
  using leaf_lca_loop_le_iff [of x y 0 j] by (simp add: leaf_lca_level_def)

lemma leaf_lca_level_of_nat:
  "i < 2 ^ 32 \<Longrightarrow> i' < 2 ^ 32 \<Longrightarrow>
   leaf_lca_level (of_nat i) (of_nat i') \<le> j \<longleftrightarrow> i div 2 ^ j = i' div 2 ^ j"
proof -
  assume b: "i < 2 ^ 32" "i' < 2 ^ 32"
  then have "i div 2 ^ j < 2 ^ 32" "i' div 2 ^ j < 2 ^ 32"
    using div_le_dividend order_le_less_trans by blast+
  then show ?thesis
    using b of_nat_u32_inject [of "i div 2 ^ j" "i' div 2 ^ j"]
    by (simp only: leaf_lca_level_le_iff drop_bit_of_nat)
qed

lemma subtree_iter_of_nat:
  "a \<le> b \<Longrightarrow> b < 2 ^ 32 \<Longrightarrow> subtree_iter (of_nat a) (of_nat b) = map of_nat [a..<b]"
proof (induction "b - a" arbitrary: a)
  case 0
  then show ?case by (simp add: subtree_iter.simps)
next
  case (Suc n)
  then have "(of_nat a :: u32) < of_nat b"
    by (simp add: word_less_nat_alt unat_of_nat_small)
  moreover have "next_unchecked (of_nat a) = of_nat (Suc a)" by (simp add: next_unchecked_def)
  ultimately show ?case
    using Suc(1) [of "Suc a"] Suc(2-) by (subst subtree_iter.simps) (simp add: upt_conv_Cons)
qed

lemma subtree_word_node:
  assumes "in_tree d k i" "d \<le> 31"
  shows "subtree (word_node k i) = \<lparr>st_left = of_nat (i * 2 ^ k), st_right = of_nat (Suc i * 2 ^ k)\<rparr>"
proof -
  define b :: nat where "b = 2 ^ k"
  have k: "k < 32" and b: "0 < b" using assms by (simp_all add: in_tree_def b_def)
  have Suc: "word_node k i + 1 = of_nat ((2 * i + 1) * b)"
    unfolding word_node_def b_def Suc_node_at [symmetric] by simp
  have shl: "shl 1 k = of_nat b" using k by (simp add: shl_def push_bit_eq_mult b_def)
  have l: "word_node k i + 1 - shl 1 k = of_nat (2 * (i * b))"
    unfolding Suc shl by (simp add: algebra_simps)
  have "word_node k i + shl 1 k = word_node k i + 1 + shl 1 k - 1" by simp
  also have "\<dots> = of_nat (2 * (Suc i * b)) - of_nat 1"
    unfolding Suc shl by (simp add: algebra_simps)
  also have "\<dots> = of_nat (2 * (Suc i * b) - 1)" using b by (simp add: of_nat_diff)
  finally have r: "word_node k i + shl 1 k = of_nat (2 * (Suc i * b) - 1)" .
  have "2 * (Suc i * b) \<le> 2 ^ Suc d"
    using in_tree_bound [OF assms(1)] Suc_node_at [of k i] by (simp add: algebra_simps b_def)
  also have "\<dots> \<le> 2 ^ 32" using assms(2) by (intro power_increasing) auto
  finally have lt: "2 * (Suc i * b) - 1 < 2 ^ 32" "2 * (i * b) < 2 ^ 32" using b by (auto simp: mult.commute)
  have "(2 * (Suc i * b) - 1) div 2 = Suc i * b - 1" by arith
  then have "of_nat ((2 * (Suc i * b) - 1) div 2) + 1 = (of_nat (Suc i * b) :: u32)"
    using b by (simp add: of_nat_diff)
  then show ?thesis
    using trailing_ones_word_node [OF k] drop_bit_of_nat [OF lt(1), of 1] drop_bit_of_nat [OF lt(2), of 1]
    by (simp add: subtree_def Let_def from_node_index_unchecked_def next_unchecked_def l r b_def)
qed

lemma into_iter_subtree:
  assumes "in_tree d k i" "d \<le> 31"
  shows "into_iter (subtree (word_node k i)) = map of_nat [i * 2 ^ k..<Suc i * 2 ^ k]"
proof -
  have "2 * (Suc i * 2 ^ k) \<le> 2 ^ Suc d"
    using in_tree_bound [OF assms(1)] Suc_node_at [of k i] by (simp add: algebra_simps)
  also have "\<dots> \<le> 2 ^ 32" using assms(2) by (intro power_increasing) auto
  finally have "Suc i * 2 ^ k < 2 ^ 32" by simp
  then show ?thesis
    by (simp only: into_iter_def subtree_word_node [OF assms] sub_tree.simps)
      (rule subtree_iter_of_nat, simp_all)
qed

subsection \<open>The top-down iterator\<close>

lemma bfs_item: "push_bit (Suc l) c OR (2 ^ l - 1) = node_at l c"
  unfolding mask_eq_exp_minus_1 [symmetric]
  by (rule bit_eqI)
    (auto simp: bit_or_iff bit_push_bit_iff bit_mask_iff bit_node_at simp del: push_bit_Suc)

lemma level_end_double: "0 < e \<Longrightarrow> (push_bit 1 (e - 1) OR 1) + 1 = 2 * (e :: nat)"
  unfolding push_bit_eq_mult or_one_eq by simp

lemma trailing_zeros_power: "d < 64 \<Longrightarrow> trailing_zeros (2 ^ d) = d"
  unfolding trailing_zeros_def by (rule takeWhile_upt_prefix) (auto simp: bit_exp_iff)

lemma bfs_next_item:
  "c < e \<Longrightarrow> bfs_next \<lparr>level = Suc l, mask_bits = 2 ^ l - 1, level_end = e, ctr = c\<rparr> =
     Some (node_at l c, \<lparr>level = Suc l, mask_bits = 2 ^ l - 1, level_end = e, ctr = Suc c\<rparr>)"
  using bfs_item [of l c] by (simp add: bfs_next_def del: push_bit_Suc)

lemma bfs_level:
  "c \<le> e \<Longrightarrow> bfs_collect \<lparr>level = Suc l, mask_bits = 2 ^ l - 1, level_end = e, ctr = c\<rparr> =
     map_option (\<lambda>ns. map (node_at l) [c..<e] @ ns)
       (bfs_collect \<lparr>level = Suc l, mask_bits = 2 ^ l - 1, level_end = e, ctr = e\<rparr>)"
proof (induction "e - c" arbitrary: c)
  case 0
  then show ?case by (simp add: option.map_ident)
next
  case (Suc n)
  then have "c < e" by simp
  with Suc(1) [of "Suc c"] Suc(2) show ?case
    by (subst bfs_collect.simps)
      (simp add: bfs_next_item [simplified] upt_conv_Cons bind_map_option option.map_comp comp_def
        map_conv_bind_option)
qed

lemma bfs_next_level:
  assumes "0 < e"
  shows "bfs_collect \<lparr>level = Suc (Suc l), mask_bits = 2 ^ Suc l - 1, level_end = e, ctr = e\<rparr> =
           bfs_collect \<lparr>level = Suc l, mask_bits = 2 ^ l - 1, level_end = 2 * e, ctr = 0\<rparr>"
proof -
  have "drop_bit 1 (2 ^ Suc l - 1 :: nat) = 2 ^ l - 1"
    by (simp add: drop_bit_eq_div)
  with assms level_end_double [OF assms] show ?thesis
    by (subst (1 2) bfs_collect.simps) (simp add: bfs_next_def)
qed

lemma bfs_collect_levels:
  "l \<le> d \<Longrightarrow> bfs_collect \<lparr>level = Suc l, mask_bits = 2 ^ l - 1, level_end = 2 ^ (d - l), ctr = 0\<rparr> =
     Some (concat (map (\<lambda>l. map (node_at l) [0..<2 ^ (d - l)]) (rev [0..<Suc l])))"
proof (induction l)
  case 0
  show ?case
    by (subst bfs_level) (simp_all add: bfs_collect.simps bfs_next_def)
next
  case (Suc l)
  then have "2 * 2 ^ (d - Suc l) = (2 :: nat) ^ (d - l)" by (simp add: Suc_diff_Suc flip: power_Suc)
  with Suc show ?case
    by (subst bfs_level) (simp_all add: bfs_next_level [simplified])
qed

lemma bfs_top_down_levels:
  "d < 64 \<Longrightarrow> bfs_top_down (2 ^ d) =
     Some (concat (map (\<lambda>l. map (node_at l) [0..<2 ^ (d - l)]) (rev [0..<Suc d])))"
  using bfs_collect_levels [of d d] by (simp add: bfs_top_down_def bfs_new_def trailing_zeros_power)

lemma sibling_at_less: "q < n \<Longrightarrow> even n \<Longrightarrow> sibling_at q < n"
  by (auto simp: sibling_at_def elim!: evenE)

lemma copath_leaves_upto:
  assumes "i < 2 ^ d" "d \<le> 31" "j \<le> d"
  shows "mset (concat (map (\<lambda>l. [sibling_at (i div 2 ^ l) * 2 ^ l ..< Suc (sibling_at (i div 2 ^ l)) * 2 ^ l]) [0..<j])) + {#i#}
    = mset [(i div 2 ^ j) * 2 ^ j ..< Suc (i div 2 ^ j) * 2 ^ j]"
  using assms(3)
proof (induction j)
  case 0
  then show ?case by simp
next
  case (Suc j)
  define q where "q = i div 2 ^ j"
  have q: "i div 2 ^ Suc j = q div 2" by (simp add: q_def div_mult2_eq power_Suc2 del: power_Suc)
  have split: "[(q div 2) * 2 ^ Suc j ..< Suc (q div 2) * 2 ^ Suc j] =
     [(2 * (q div 2)) * 2 ^ j ..< Suc (2 * (q div 2)) * 2 ^ j] @ [Suc (2 * (q div 2)) * 2 ^ j ..< Suc (Suc (2 * (q div 2))) * 2 ^ j]"
    using upt_add_eq_append [of "(2 * (q div 2)) * 2 ^ j" "Suc (2 * (q div 2)) * 2 ^ j" "2 ^ j"]
    by (simp add: algebra_simps)
  have "mset [(q div 2) * 2 ^ Suc j ..< Suc (q div 2) * 2 ^ Suc j] =
     mset [sibling_at q * 2 ^ j ..< Suc (sibling_at q) * 2 ^ j] + mset [q * 2 ^ j ..< Suc q * 2 ^ j]"
  proof (cases "even q")
    case True
    then have "2 * (q div 2) = q" "sibling_at q = Suc q" by (auto simp: sibling_at_def)
    then show ?thesis unfolding split by (simp only: mset_append add.commute)
  next
    case False
    then have "Suc (2 * (q div 2)) = q" "sibling_at q = 2 * (q div 2)" by (auto simp: sibling_at_def odd_two_times_div_two_nat)
    then show ?thesis unfolding split by (simp only: mset_append)
  qed
  moreover have "[0..<Suc j] = [0..<j] @ [j]" by simp
  ultimately show ?case
    using Suc unfolding q q_def [symmetric] by (simp add: q_def ac_simps del: upt_Suc power_Suc mult_Suc)
qed

lemma in_tree_children: "in_tree d (Suc k) i \<Longrightarrow> in_tree d k (2 * i) \<and> in_tree d k (2 * i + 1)"
proof -
  assume "in_tree d (Suc k) i"
  then have "Suc k \<le> d" "Suc i \<le> 2 ^ (d - Suc k)" by (auto simp: in_tree_def)
  moreover then have "2 ^ (d - k) = 2 * (2::nat) ^ (d - Suc k)" by (simp add: Suc_diff_Suc flip: power_Suc)
  ultimately show ?thesis by (auto simp: in_tree_def)
qed

section \<open>Properties\<close>

text \<open>
  C23. \<^verbatim>\<open>leaf_lca_level\<close> is the level of the lowest common ancestor: two leaves lie below one node of
  level \<open>j\<close>, i.e. their indices agree above bit \<open>j\<close>, exactly from the computed level on.
\<close>
theorem leaf_common_ancestor_level:
  "leaf_lca_level x y \<le> j \<longleftrightarrow> drop_bit j x = drop_bit j y"
  by (rule leaf_lca_level_le_iff)

text \<open>
  C14. The walk from a leaf of a full tree to its root ends, and the subtrees of the copath nodes it returns,
  with the leaf itself, hold every leaf of the tree exactly once.
\<close>
theorem copath_partitions_leaves:
  assumes "i < 2 ^ d" "d \<le> 31"
  shows "\<exists>cps. direct_copath (word_node 0 i) (2 ^ d) = Some cps \<and>
    mset (concat (map (\<lambda>cp. into_iter (subtree (copath cp))) cps)) + {#of_nat i#} = mset (map of_nat [0..<2 ^ d])"
proof (intro exI conjI)
  have t: "in_tree d 0 i" using assms(1) by (simp add: in_tree_def)
  show "direct_copath (word_node 0 i) (2 ^ d) = Some (copath_spec d 0 i)"
    using direct_copath_word_node [OF t assms(2)] .
  have "in_tree d l (sibling_at (i div 2 ^ l))" if "l < d" for l
  proof -
    have "i div 2 ^ l < 2 ^ (d - l)"
      using assms(1) that by (simp add: less_mult_imp_div_less flip: power_add)
    moreover have "even ((2::nat) ^ (d - l))" using that by simp
    ultimately have "sibling_at (i div 2 ^ l) < 2 ^ (d - l)" by (rule sibling_at_less)
    with that show ?thesis by (simp add: in_tree_def)
  qed
  then have "map (\<lambda>cp. into_iter (subtree (copath cp))) (copath_spec d 0 i) =
     map (\<lambda>l. map of_nat [sibling_at (i div 2 ^ l) * 2 ^ l ..< Suc (sibling_at (i div 2 ^ l)) * 2 ^ l]) [0..<d]"
    using into_iter_subtree [OF _ assms(2)] by (simp add: copath_spec_def)
  moreover have "i div 2 ^ d = 0" using assms(1) by simp
  ultimately show "mset (concat (map (\<lambda>cp. into_iter (subtree (copath cp))) (copath_spec d 0 i))) + {#of_nat i#} =
      mset (map of_nat [0..<2 ^ d])"
    using arg_cong [OF copath_leaves_upto [OF assms order_refl], of "image_mset (of_nat :: nat \<Rightarrow> u32)"]
    by (simp add: image_mset_union map_concat comp_def del: mset_upt flip: mset_map)
qed

theorem copath_partitions_leaves_witness:
  "\<exists>cps. direct_copath (word_node 0 5) (2 ^ 3) = Some cps \<and>
    mset (concat (map (\<lambda>cp. into_iter (subtree (copath cp))) cps)) + {#of_nat 5#} = mset (map of_nat [0..<2 ^ 3])"
  by (rule copath_partitions_leaves) simp_all

end
