(* ===== verification/MlsTypes.thy ===== *)
theory MlsTypes
  imports CodecLaws TreeMath
begin

text \<open>
  The data of the protocol: extensions, credentials, capabilities, lifetimes, leaf and parent nodes, the
  group context (\<^verbatim>\<open>mls-rs-core\<close> and \<^verbatim>\<open>mls-rs/src/tree_kem\<close>), each with the codec its derive or its
  hand-written implementation gives it, the errors of the library and the cipher suite provider the
  library is parametrised by. Newtypes around byte vectors and integers are type synonyms. The model is
  that of a build with the features \<^verbatim>\<open>std\<close>, \<^verbatim>\<open>by_ref_proposal\<close>, \<^verbatim>\<open>tree_index\<close>, \<^verbatim>\<open>custom_proposal\<close>,
  \<^verbatim>\<open>private_message\<close>, \<^verbatim>\<open>out_of_order\<close>, \<^verbatim>\<open>psk\<close>, \<^verbatim>\<open>x509\<close> and without \<^verbatim>\<open>grease\<close>.
\<close>

section \<open>Errors\<close>

text \<open>
  The variants of \<^verbatim>\<open>MlsError\<close> the modelled code raises; the error \<^verbatim>\<open>AnyError\<close> of a provider is opaque. Those that
  only the processing of messages and the rules on proposals raise are grouped in datatypes of their own.
  \<open>Mls_Panic\<close> stands for a panic (an index out of bounds, a failing subtraction),
  \<open>Mls_Diverges\<close> for a loop that does not end.
\<close>

type_synonym any_error = string

datatype message_error =
    GroupStorageError any_error
  | PskStoreError any_error
  | LeafNotFound u32
  | CommitMissingPath
  | InvalidEpoch
  | InvalidConfirmationTag
  | InvalidMembershipTag
  | ExternalSenderCannotCommit
  | ProtocolVersionMismatch
  | UnknownSigningIdentityForExternalSender
  | ExternalProposalsDisabled
  | InvalidExternalSigningIdentity
  | MissingExternalPubExtension
  | EpochNotFound
  | UnencryptedApplicationMessage
  | ExpectedCommitForNewMemberCommit
  | ExpectedAddProposalForNewMemberProposal
  | ExternalCommitMissingExternalInit
  | GroupUsedAfterReInit
  | ExistingPendingCommit
  | PendingCommitNotFound
  | UnexpectedMessageType
  | MembershipTagForNonMember
  | InvalidSender
  | GroupIdMismatch
  | NonZeroRetentionRequired
  | TooManyPskIds
  | MissingRequiredPsk
  | OldGroupStateNotFound
  | ExporterDeleted
  | CommitRequired

datatype proposal_error =
    InvalidInitKey
  | InitLeafKeyEquality
  | InvalidCommitSelfUpdate
  | InvalidTypeOrUsageInPreSharedKeyProposal
  | InvalidPskNonceLength
  | InvalidProtocolVersionInReInit
  | MoreThanOneProposalForLeaf u32
  | MoreThanOneGroupContextExtensionsProposal
  | InvalidProposalTypeForSender
  | ExternalCommitMustHaveExactlyOneExternalInit
  | ExternalCommitMustHaveNewLeaf
  | ExternalCommitRemovesOtherIdentity
  | ExternalCommitWithMoreThanOneRemove
  | DuplicatePskIds
  | InvalidProposalTypeInExternalCommit u16
  | CommitterSelfRemoval
  | OnlyMembersCanCommitProposalsByRef
  | OtherProposalWithReInit
  | UnsupportedCustomProposal u16
  | ProposalNotFound

datatype (plugins del: "quickcheck") mls_error =
    IdentityProviderError any_error
  | CryptoProviderError any_error
  | SerializationError codec_error
  | ExtensionError codec_error
  | CipherSuiteMismatch
  | InvalidSignature
  | InvalidTreeKemPrivateKey
  | CantProcessMessageFromSelf
  | InvalidLeafConsumption
  | KeyMissing u32
  | InvalidFutureGeneration u32
  | LeafNodeNoChildren
  | LeafNodeNoParent
  | InvalidTreeIndex
  | TimeOverflow
  | InvalidLeafNodeSource
  | InvalidLifetime u64 u64 u64
  | RequiredExtensionNotFound u16
  | RequiredProposalNotFound u16
  | RequiredCredentialNotFound u16
  | ExtensionNotInCapabilities u16
  | UnsupportedGroupExtension u16
  | ExpectedNode
  | InvalidNodeIndex node_index
  | UnexpectedEmptyNode
  | DuplicateLeafData u32
  | InUseCredentialTypeUnsupportedByNewLeaf
  | CredentialTypeOfNewLeafIsUnsupported
  | WrongPathLen
  | SameHpkeKey u32
  | DifferentIdentityInUpdate u32
  | PubKeyMismatch
  | TreeHashMismatch
  | UpdateErrorNoSecretKey
  | LcaNotFoundInDirectPath
  | ParentHashMismatch
  | UnmergedLeavesMismatch
  | UnexpectedEmptyTree
  | UnexpectedTrailingBlanks
  | RemovingNonExistingMember
  | InvalidSuccessor
  | UpdatingNonExistingMember
  | FailedGeneratingPathSecret
  | Message_Error message_error
  | Proposal_Error proposal_error
  | Mls_Panic
  | Mls_Diverges

type_synonym 'a res = "mls_error + 'a"

section \<open>The cipher suite provider\<close>

text \<open>
  \<^verbatim>\<open>CipherSuiteProvider\<close>: its deterministic operations, a parameter of everything that uses them. The
  outcome of an operation that draws randomness is an argument of the operation that calls it.
\<close>

type_synonym hpke_public_key = "byte list"
type_synonym hpke_secret_key = "byte list"
type_synonym signature_public_key = "byte list"
type_synonym signature_secret_key = "byte list"

record hpke_ciphertext =
  kem_output :: "byte list"
  ciphertext :: "byte list"

text \<open>An HPKE context, of which the library only uses the exporter.\<close>

type_synonym hpke_context = "byte list \<Rightarrow> nat \<Rightarrow> any_error + byte list"

record cipher_suite_provider =
  csp_cipher_suite :: u16
  csp_hash :: "byte list \<Rightarrow> any_error + byte list"
  csp_mac :: "byte list \<Rightarrow> byte list \<Rightarrow> any_error + byte list"
  aead_seal :: "byte list \<Rightarrow> byte list \<Rightarrow> byte list option \<Rightarrow> byte list \<Rightarrow> any_error + byte list"
  aead_open :: "byte list \<Rightarrow> byte list \<Rightarrow> byte list option \<Rightarrow> byte list \<Rightarrow> any_error + byte list"
  aead_key_size :: nat
  aead_nonce_size :: nat
  kdf_extract :: "byte list \<Rightarrow> byte list \<Rightarrow> any_error + byte list"
  kdf_expand :: "byte list \<Rightarrow> byte list \<Rightarrow> nat \<Rightarrow> any_error + byte list"
  kdf_extract_size :: nat
  hpke_seal :: "hpke_public_key \<Rightarrow> byte list \<Rightarrow> byte list option \<Rightarrow> byte list \<Rightarrow> any_error + hpke_ciphertext"
  hpke_open :: "hpke_ciphertext \<Rightarrow> hpke_secret_key \<Rightarrow> hpke_public_key \<Rightarrow> byte list \<Rightarrow> byte list option \<Rightarrow>
    any_error + byte list"
  kem_derive :: "byte list \<Rightarrow> any_error + hpke_secret_key \<times> hpke_public_key"
  kem_public_key_validate :: "hpke_public_key \<Rightarrow> any_error + unit"
  csp_sign :: "signature_secret_key \<Rightarrow> byte list \<Rightarrow> any_error + byte list"
  csp_verify :: "signature_public_key \<Rightarrow> byte list \<Rightarrow> byte list \<Rightarrow> any_error + unit"
  hpke_setup_r :: "byte list \<Rightarrow> hpke_secret_key \<Rightarrow> hpke_public_key \<Rightarrow> byte list \<Rightarrow> any_error + hpke_context"

abbreviation crypto :: "any_error + 'a \<Rightarrow> 'a res" where
  "crypto \<equiv> map_errR CryptoProviderError"

abbreviation codecR :: "codec_error + 'a \<Rightarrow> 'a res" where
  "codecR \<equiv> map_errR SerializationError"

text \<open>The bytes of a string literal.\<close>

definition bytes_of :: "string \<Rightarrow> byte list" where
  "bytes_of s = map (\<lambda>c. of_nat (of_char c)) s"

definition sign_content_new :: "string \<Rightarrow> byte list \<Rightarrow> byte list \<times> byte list" where
  "sign_content_new label content = (bytes_of ''MLS 1.0 '' @ bytes_of label, content)"

definition sign_content_codec :: "(byte list \<times> byte list) codec" where
  "sign_content_codec = pair_codec byte_vec_codec byte_vec_codec"

section \<open>Extensions\<close>

type_synonym extension_type = u16
type_synonym proposal_type = u16
type_synonym credential_type = u16
type_synonym protocol_version = u16
type_synonym cipher_suite = u16

record extension =
  ext_type :: extension_type
  ext_data :: "byte list"

type_synonym extension_list = "extension list"

definition REQUIRED_CAPABILITIES :: extension_type where
  "REQUIRED_CAPABILITIES = 3"

definition is_default_extension :: "extension_type \<Rightarrow> bool" where
  "is_default_extension t \<longleftrightarrow> t \<le> 5"

definition proposal_types_default :: "proposal_type list" where
  "proposal_types_default = [1, 2, 3, 4, 5, 6, 7]"

definition extension_codec :: "extension codec" where
  "extension_codec = struct_codec (\<lambda>e. (ext_type e, ext_data e)) (\<lambda>(t, d). \<lparr>ext_type = t, ext_data = d\<rparr>)
     (pair_codec u16_codec byte_vec_codec)"

text \<open>The loop of the decoder of an extension list, which refuses a second extension of a type.\<close>

function extension_items :: "extension_list \<Rightarrow> byte list \<Rightarrow> codec_error + extension_list" where
  "extension_items list data =
     (if data = [] then Inr list
      else bindR (c_dec extension_codec data) (\<lambda>(ext, rest).
        if length rest < length data
        then (if list_ex (\<lambda>e. ext_type e = ext_type ext) list then Inl (Custom 1)
              else extension_items (list @ [ext]) rest)
        else Inl Codec_Diverges))"
  by pat_completeness auto
termination
  by (relation "measure (\<lambda>(list, data). length data)") auto

declare extension_items.simps [simp del]

definition extension_list_codec :: "extension_list codec" where
  "extension_list_codec = \<lparr>
     c_len = iter_len extension_codec,
     c_enc = iter_encode extension_codec,
     c_dec = mls_decode_collection (extension_items [])\<rparr>"

definition ext_get :: "extension_list \<Rightarrow> extension_type \<Rightarrow> extension option" where
  "ext_get l t = find (\<lambda>e. ext_type e = t) l"

definition has_extension :: "extension_list \<Rightarrow> extension_type \<Rightarrow> bool" where
  "has_extension l t = list_ex (\<lambda>e. ext_type e = t) l"

fun ext_set :: "extension_list \<Rightarrow> extension \<Rightarrow> extension_list" where
  "ext_set [] ext = [ext]"
| "ext_set (e # l) ext = (if ext_type e = ext_type ext then ext # l else e # ext_set l ext)"

definition ext_remove :: "extension_list \<Rightarrow> extension_type \<Rightarrow> extension_list" where
  "ext_remove l t = filter (\<lambda>e. ext_type e \<noteq> t) l"

definition ext_append :: "extension_list \<Rightarrow> extension_list \<Rightarrow> extension_list" where
  "ext_append l others = l @ others"

definition ext_extend :: "extension_list \<Rightarrow> extension list \<Rightarrow> extension_list" where
  "ext_extend l exts = foldl ext_set l exts"

definition ext_from_iter :: "extension list \<Rightarrow> extension_list" where
  "ext_from_iter exts = ext_extend [] exts"

definition ext_list_eq :: "extension_list \<Rightarrow> extension_list \<Rightarrow> bool" where
  "ext_list_eq l other \<longleftrightarrow>
     length l = length other \<and> list_all (\<lambda>ext. ext_get other (ext_type ext) = Some ext) l"

text \<open>\<^verbatim>\<open>get_as\<close>, for an extension whose data has the given codec; bytes after the value are ignored.\<close>

definition ext_get_as :: "extension_type \<Rightarrow> 'a codec \<Rightarrow> extension_list \<Rightarrow> 'a option res" where
  "ext_get_as t c l =
     (case ext_get l t of
        None \<Rightarrow> Inr None
      | Some ext \<Rightarrow> bindR (map_errR ExtensionError (c_dec c (ext_data ext))) (\<lambda>(x, _). Inr (Some x)))"

record required_capabilities_ext =
  rc_extensions :: "extension_type list"
  rc_proposals :: "proposal_type list"
  rc_credentials :: "credential_type list"

definition required_capabilities_codec :: "required_capabilities_ext codec" where
  "required_capabilities_codec =
     struct_codec (\<lambda>r. (rc_extensions r, rc_proposals r, rc_credentials r))
       (\<lambda>(e, p, c). \<lparr>rc_extensions = e, rc_proposals = p, rc_credentials = c\<rparr>)
       (pair_codec (vec_codec u16_codec) (pair_codec (vec_codec u16_codec) (vec_codec u16_codec)))"

section \<open>Credentials\<close>

datatype credential =
    Cred_Basic "byte list"
  | Cred_X509 "byte list list"
  | Cred_Custom credential_type "byte list"

definition BASIC :: credential_type where "BASIC = 1"
definition X509 :: credential_type where "X509 = 2"

fun credential_type_of :: "credential \<Rightarrow> credential_type" where
  "credential_type_of (Cred_Basic _) = BASIC"
| "credential_type_of (Cred_X509 _) = X509"
| "credential_type_of (Cred_Custom t _) = t"

fun credential_inner_len :: "credential \<Rightarrow> nat" where
  "credential_inner_len (Cred_Basic i) = byte_vec_len i"
| "credential_inner_len (Cred_X509 certs) = c_len (vec_codec byte_vec_codec) certs"
| "credential_inner_len (Cred_Custom _ d) = byte_vec_len d"

fun credential_inner_encode :: "credential \<Rightarrow> codec_error + byte list" where
  "credential_inner_encode (Cred_Basic i) = byte_vec_encode i"
| "credential_inner_encode (Cred_X509 certs) = c_enc (vec_codec byte_vec_codec) certs"
| "credential_inner_encode (Cred_Custom _ d) = byte_vec_encode d"

definition credential_codec :: "credential codec" where
  "credential_codec = \<lparr>
     c_len = (\<lambda>c. c_len u16_codec (credential_type_of c) + credential_inner_len c),
     c_enc = (\<lambda>c. bindR (c_enc u16_codec (credential_type_of c)) (\<lambda>bs.
        bindR (credential_inner_encode c) (\<lambda>bs'. Inr (bs @ bs')))),
     c_dec = (\<lambda>reader. bindR (c_dec u16_codec reader) (\<lambda>(t, reader).
        if t = BASIC then bindR (byte_vec_decode reader) (\<lambda>(i, reader). Inr (Cred_Basic i, reader))
        else if t = X509 then
          bindR (c_dec (vec_codec byte_vec_codec) reader) (\<lambda>(certs, reader). Inr (Cred_X509 certs, reader))
        else bindR (byte_vec_decode reader) (\<lambda>(d, reader). Inr (Cred_Custom t d, reader))))\<rparr>"

record signing_identity =
  signature_key :: signature_public_key
  si_credential :: credential

definition signing_identity_codec :: "signing_identity codec" where
  "signing_identity_codec =
     struct_codec (\<lambda>s. (signature_key s, si_credential s)) (\<lambda>(k, c). \<lparr>signature_key = k, si_credential = c\<rparr>)
       (pair_codec byte_vec_codec credential_codec)"

section \<open>Capabilities, lifetimes and leaf nodes\<close>

record capabilities =
  cap_protocol_versions :: "protocol_version list"
  cap_cipher_suites :: "cipher_suite list"
  cap_extensions :: "extension_type list"
  cap_proposals :: "proposal_type list"
  cap_credentials :: "credential_type list"

definition capabilities_codec :: "capabilities codec" where
  "capabilities_codec =
     struct_codec
       (\<lambda>c. (cap_protocol_versions c, cap_cipher_suites c, cap_extensions c, cap_proposals c, cap_credentials c))
       (\<lambda>(v, s, e, p, c). \<lparr>cap_protocol_versions = v, cap_cipher_suites = s, cap_extensions = e,
          cap_proposals = p, cap_credentials = c\<rparr>)
       (pair_codec (vec_codec u16_codec) (pair_codec (vec_codec u16_codec) (pair_codec (vec_codec u16_codec)
         (pair_codec (vec_codec u16_codec) (vec_codec u16_codec)))))"

definition capabilities_default :: capabilities where
  "capabilities_default = \<lparr>cap_protocol_versions = [1], cap_cipher_suites = map of_nat [1..<8],
     cap_extensions = [], cap_proposals = [], cap_credentials = [BASIC]\<rparr>"

definition capabilities_sorted :: "capabilities \<Rightarrow> capabilities" where
  "capabilities_sorted c = \<lparr>cap_protocol_versions = sort (cap_protocol_versions c),
     cap_cipher_suites = sort (cap_cipher_suites c), cap_extensions = sort (cap_extensions c),
     cap_proposals = sort (cap_proposals c), cap_credentials = sort (cap_credentials c)\<rparr>"

type_synonym mls_time = u64

record lifetime =
  not_before :: mls_time
  not_after :: mls_time

definition lifetime_codec :: "lifetime codec" where
  "lifetime_codec = struct_codec (\<lambda>l. (not_before l, not_after l)) (\<lambda>(b, a). \<lparr>not_before = b, not_after = a\<rparr>)
     (pair_codec u64_codec u64_codec)"

text \<open>
  The clock reading \<open>now\<close> is an argument. The subtraction of an hour is unchecked and wraps; so is the
  multiplication by the number of seconds of a day, which is a 32-bit one.
\<close>

definition lifetime_seconds :: "mls_time \<Rightarrow> u64 \<Rightarrow> mls_time option \<Rightarrow> lifetime res" where
  "lifetime_seconds now s maybe_not_before =
     (let nb = (case maybe_not_before of Some t \<Rightarrow> t | None \<Rightarrow> now)
      in if unat nb + unat s < 2 ^ 64
         then Inr \<lparr>not_before = nb - 3600, not_after = nb + s\<rparr>
         else Inl TimeOverflow)"

definition lifetime_days :: "mls_time \<Rightarrow> u32 \<Rightarrow> mls_time option \<Rightarrow> lifetime res" where
  "lifetime_days now d maybe_not_before = lifetime_seconds now (ucast (d * 86400)) maybe_not_before"

definition lifetime_years :: "mls_time \<Rightarrow> u8 \<Rightarrow> mls_time option \<Rightarrow> lifetime res" where
  "lifetime_years now y maybe_not_before = lifetime_days now (365 * ucast y) maybe_not_before"

definition within_lifetime :: "lifetime \<Rightarrow> mls_time \<Rightarrow> bool" where
  "within_lifetime l t \<longleftrightarrow> not_before l \<le> t \<and> t \<le> not_after l"

type_synonym parent_hash = "byte list"

datatype leaf_node_source = KeyPackage lifetime | Update | Commit parent_hash

definition leaf_node_source_codec :: "leaf_node_source codec" where
  "leaf_node_source_codec = enum_codec TYPE(u8)
     [variant_of 1 (\<lambda>s. case s of KeyPackage l \<Rightarrow> Some l | _ \<Rightarrow> None) KeyPackage lifetime_codec,
      variant_of 2 (\<lambda>s. case s of Update \<Rightarrow> Some () | _ \<Rightarrow> None) (\<lambda>_. Update) unit_codec,
      variant_of 3 (\<lambda>s. case s of Commit h \<Rightarrow> Some h | _ \<Rightarrow> None) Commit byte_vec_codec]"

record leaf_node =
  ln_public_key :: hpke_public_key
  ln_signing_identity :: signing_identity
  ln_capabilities :: capabilities
  ln_source :: leaf_node_source
  ln_extensions :: extension_list
  ln_signature :: "byte list"

definition leaf_node_codec :: "leaf_node codec" where
  "leaf_node_codec =
     struct_codec
       (\<lambda>l. (ln_public_key l, ln_signing_identity l, ln_capabilities l, ln_source l, ln_extensions l, ln_signature l))
       (\<lambda>(k, i, c, s, e, g). \<lparr>ln_public_key = k, ln_signing_identity = i, ln_capabilities = c, ln_source = s,
          ln_extensions = e, ln_signature = g\<rparr>)
       (pair_codec byte_vec_codec (pair_codec signing_identity_codec (pair_codec capabilities_codec
         (pair_codec leaf_node_source_codec (pair_codec extension_list_codec byte_vec_codec)))))"

text \<open>
  The content a leaf node's signature covers: the node without its signature, and the group and the leaf
  index unless the leaf node is that of a key package.
\<close>

type_synonym leaf_signing_context = "(byte list \<times> u32) option"

definition leaf_node_tbs :: "leaf_node \<Rightarrow> leaf_signing_context \<Rightarrow> codec_error + byte list" where
  "leaf_node_tbs l context =
     bindR (c_enc byte_vec_codec (ln_public_key l)) (\<lambda>b1.
     bindR (c_enc signing_identity_codec (ln_signing_identity l)) (\<lambda>b2.
     bindR (c_enc capabilities_codec (ln_capabilities l)) (\<lambda>b3.
     bindR (c_enc leaf_node_source_codec (ln_source l)) (\<lambda>b4.
     bindR (c_enc extension_list_codec (ln_extensions l)) (\<lambda>b5.
     bindR (case context of None \<Rightarrow> Inr [] | Some (group_id, _) \<Rightarrow> byte_vec_encode group_id) (\<lambda>b6.
     bindR (case context of None \<Rightarrow> Inr [] | Some (_, leaf_index) \<Rightarrow> c_enc u32_codec leaf_index) (\<lambda>b7.
       Inr (b1 @ b2 @ b3 @ b4 @ b5 @ b6 @ b7))))))))"

definition leaf_node_signed_bytes :: "leaf_node \<Rightarrow> leaf_signing_context \<Rightarrow> byte list res" where
  "leaf_node_signed_bytes l context =
     bindR (codecR (leaf_node_tbs l context)) (\<lambda>content.
       codecR (c_enc sign_content_codec (sign_content_new ''LeafNodeTBS'' content)))"

definition leaf_node_sign ::
    "cipher_suite_provider \<Rightarrow> leaf_node \<Rightarrow> signature_secret_key \<Rightarrow> leaf_signing_context \<Rightarrow> leaf_node res" where
  "leaf_node_sign csp l signer context =
     bindR (leaf_node_signed_bytes l context) (\<lambda>bytes.
     bindR (crypto (csp_sign csp signer bytes)) (\<lambda>sig. Inr (l\<lparr>ln_signature := sig\<rparr>)))"

definition leaf_node_verify ::
    "cipher_suite_provider \<Rightarrow> leaf_node \<Rightarrow> signature_public_key \<Rightarrow> leaf_signing_context \<Rightarrow> unit res" where
  "leaf_node_verify csp l public_key context =
     bindR (leaf_node_signed_bytes l context) (\<lambda>bytes.
       map_errR (\<lambda>_. InvalidSignature) (csp_verify csp public_key (ln_signature l) bytes))"

record config_properties =
  cp_capabilities :: capabilities
  cp_extensions :: extension_list

definition leaf_node_generate ::
    "cipher_suite_provider \<Rightarrow> any_error + hpke_secret_key \<times> hpke_public_key \<Rightarrow> config_properties \<Rightarrow>
     signing_identity \<Rightarrow> signature_secret_key \<Rightarrow> lifetime \<Rightarrow> (leaf_node \<times> hpke_secret_key) res" where
  "leaf_node_generate csp generated properties identity signer lt =
     bindR (crypto generated) (\<lambda>(secret_key, public_key).
     bindR (leaf_node_sign csp
       \<lparr>ln_public_key = public_key, ln_signing_identity = identity, ln_capabilities = cp_capabilities properties,
        ln_source = KeyPackage lt, ln_extensions = cp_extensions properties, ln_signature = []\<rparr> signer None)
     (\<lambda>l. Inr (l, secret_key)))"

definition set_properties :: "config_properties option \<Rightarrow> leaf_node \<Rightarrow> leaf_node" where
  "set_properties new l =
     (case new of
        None \<Rightarrow> l
      | Some p \<Rightarrow> l\<lparr>ln_capabilities := cp_capabilities p, ln_extensions := cp_extensions p\<rparr>)"

definition set_identity :: "signing_identity option \<Rightarrow> leaf_node \<Rightarrow> leaf_node" where
  "set_identity new l = (case new of None \<Rightarrow> l | Some i \<Rightarrow> l\<lparr>ln_signing_identity := i\<rparr>)"

definition leaf_node_update ::
    "cipher_suite_provider \<Rightarrow> any_error + hpke_secret_key \<times> hpke_public_key \<Rightarrow> leaf_node \<Rightarrow> byte list \<Rightarrow> u32 \<Rightarrow>
     config_properties option \<Rightarrow> signing_identity option \<Rightarrow> signature_secret_key \<Rightarrow>
     (leaf_node \<times> hpke_secret_key) res" where
  "leaf_node_update csp generated l group_id leaf_index new_properties identity signer =
     bindR (crypto generated) (\<lambda>(secret, public).
     bindR (leaf_node_sign csp
       (set_identity identity ((set_properties new_properties (l\<lparr>ln_public_key := public\<rparr>))\<lparr>ln_source := Update\<rparr>))
       signer (Some (group_id, leaf_index)))
     (\<lambda>l. Inr (l, secret)))"

definition leaf_node_commit ::
    "cipher_suite_provider \<Rightarrow> any_error + hpke_secret_key \<times> hpke_public_key \<Rightarrow> leaf_node \<Rightarrow> byte list \<Rightarrow> u32 \<Rightarrow>
     config_properties option \<Rightarrow> signing_identity option \<Rightarrow> signature_secret_key \<Rightarrow>
     (leaf_node \<times> hpke_secret_key) res" where
  "leaf_node_commit csp generated l group_id leaf_index new_properties identity signer =
     bindR (crypto generated) (\<lambda>(secret, public).
     bindR (leaf_node_sign csp
       (set_identity identity (set_properties new_properties (l\<lparr>ln_public_key := public\<rparr>)))
       signer (Some (group_id, leaf_index)))
     (\<lambda>l. Inr (l, secret)))"

section \<open>Nodes of a ratchet tree\<close>

definition MAX_LEAF_INDEX :: u32 where
  "MAX_LEAF_INDEX = 2 ^ 24 - 1"

definition leaf_index_try_from :: "u32 \<Rightarrow> leaf_index res" where
  "leaf_index_try_from v = (if v > MAX_LEAF_INDEX then Inl InvalidTreeIndex else Inr v)"

definition leaf_index_codec :: "leaf_index codec" where
  "leaf_index_codec = \<lparr>
     c_len = c_len u32_codec,
     c_enc = c_enc u32_codec,
     c_dec = (\<lambda>reader. bindR (c_dec u32_codec reader) (\<lambda>(v, reader).
        bindR (map_errR (\<lambda>_. Custom 6) (leaf_index_try_from v)) (\<lambda>l. Inr (l, reader))))\<rparr>"

record parent =
  p_public_key :: hpke_public_key
  p_parent_hash :: parent_hash
  p_unmerged_leaves :: "leaf_index list"

datatype node = Leaf leaf_node | Parent parent

definition parent_codec :: "parent codec" where
  "parent_codec =
     struct_codec (\<lambda>p. (p_public_key p, p_parent_hash p, p_unmerged_leaves p))
       (\<lambda>(k, h, u). \<lparr>p_public_key = k, p_parent_hash = h, p_unmerged_leaves = u\<rparr>)
       (pair_codec byte_vec_codec (pair_codec byte_vec_codec (vec_codec leaf_index_codec)))"

definition node_codec :: "node codec" where
  "node_codec = enum_codec TYPE(u8)
     [variant_of 1 (\<lambda>n. case n of Leaf l \<Rightarrow> Some l | _ \<Rightarrow> None) Leaf leaf_node_codec,
      variant_of 2 (\<lambda>n. case n of Parent p \<Rightarrow> Some p | _ \<Rightarrow> None) Parent parent_codec]"

fun node_public_key :: "node \<Rightarrow> hpke_public_key" where
  "node_public_key (Parent p) = p_public_key p"
| "node_public_key (Leaf l) = ln_public_key l"

type_synonym node_vec = "node option list"

definition node_vec_codec :: "node_vec codec" where
  "node_vec_codec = vec_codec (option_codec node_codec)"

section \<open>The group context\<close>

record group_context =
  gc_protocol_version :: protocol_version
  gc_cipher_suite :: cipher_suite
  gc_group_id :: "byte list"
  gc_epoch :: u64
  gc_tree_hash :: "byte list"
  gc_confirmed_transcript_hash :: "byte list"
  gc_extensions :: extension_list

definition group_context_codec :: "group_context codec" where
  "group_context_codec =
     struct_codec
       (\<lambda>g. (gc_protocol_version g, gc_cipher_suite g, gc_group_id g, gc_epoch g, gc_tree_hash g,
             gc_confirmed_transcript_hash g, gc_extensions g))
       (\<lambda>(v, s, i, n, t, h, e). \<lparr>gc_protocol_version = v, gc_cipher_suite = s, gc_group_id = i, gc_epoch = n,
          gc_tree_hash = t, gc_confirmed_transcript_hash = h, gc_extensions = e\<rparr>)
       (pair_codec u16_codec (pair_codec u16_codec (pair_codec byte_vec_codec (pair_codec u64_codec
         (pair_codec byte_vec_codec (pair_codec byte_vec_codec extension_list_codec))))))"

definition group_context_new ::
    "protocol_version \<Rightarrow> cipher_suite \<Rightarrow> byte list \<Rightarrow> byte list \<Rightarrow> extension_list \<Rightarrow> group_context" where
  "group_context_new version suite group_id tree_hash exts =
     \<lparr>gc_protocol_version = version, gc_cipher_suite = suite, gc_group_id = group_id, gc_epoch = 0,
      gc_tree_hash = tree_hash, gc_confirmed_transcript_hash = [], gc_extensions = exts\<rparr>"

section \<open>The identity provider\<close>

text \<open>\<^verbatim>\<open>IdentityProvider\<close> is implemented by the application and a parameter of the model.\<close>

datatype member_validation_context =
    ForCommit group_context extension_list
  | ForNewGroup group_context
  | NoContext

fun new_extensions :: "member_validation_context \<Rightarrow> extension_list option" where
  "new_extensions (ForCommit _ exts) = Some exts"
| "new_extensions (ForNewGroup current) = Some (gc_extensions current)"
| "new_extensions NoContext = None"

record identity_provider =
  idp_validate_member :: "signing_identity \<Rightarrow> mls_time option \<Rightarrow> member_validation_context \<Rightarrow> any_error + unit"
  idp_validate_external_sender :: "signing_identity \<Rightarrow> mls_time option \<Rightarrow> extension_list option \<Rightarrow> any_error + unit"
  idp_identity :: "signing_identity \<Rightarrow> extension_list \<Rightarrow> any_error + byte list"
  idp_valid_successor :: "signing_identity \<Rightarrow> signing_identity \<Rightarrow> extension_list \<Rightarrow> any_error + bool"
  idp_supported_types :: "credential_type list"

definition identity_of :: "identity_provider \<Rightarrow> signing_identity \<Rightarrow> extension_list \<Rightarrow> byte list res" where
  "identity_of provider signing_id exts = map_errR IdentityProviderError (idp_identity provider signing_id exts)"

end
