(* ===== verification/MlsTypesLaws.thy ===== *)
theory MlsTypesLaws
  imports MlsTypes
begin

text \<open>
  The codecs of the protocol's data are wire codecs: a value that satisfies its type's invariant is
  decoded back from its encoding, and every encoding that is accepted is the one encoding of its value.
\<close>

section \<open>Invariants\<close>

definition extension_list_ok :: "extension_list \<Rightarrow> bool" where
  "extension_list_ok l = distinct (map ext_type l)"

fun credential_ok :: "credential \<Rightarrow> bool" where
  "credential_ok (Cred_Custom t _) = (t \<noteq> BASIC \<and> t \<noteq> X509)"
| "credential_ok _ = True"

definition leaf_node_ok :: "leaf_node \<Rightarrow> bool" where
  "leaf_node_ok l \<longleftrightarrow> credential_ok (si_credential (ln_signing_identity l)) \<and> extension_list_ok (ln_extensions l)"

definition parent_ok :: "parent \<Rightarrow> bool" where
  "parent_ok p \<longleftrightarrow> list_all (\<lambda>l. l \<le> MAX_LEAF_INDEX) (p_unmerged_leaves p)"

fun node_ok :: "node \<Rightarrow> bool" where
  "node_ok (Leaf l) = leaf_node_ok l"
| "node_ok (Parent p) = parent_ok p"

definition node_vec_ok :: "node_vec \<Rightarrow> bool" where
  "node_vec_ok nodes = list_all (pred_option node_ok) nodes"

section \<open>Codecs\<close>

lemma wire_codec_cong: "wire_codec c ok \<Longrightarrow> (\<And>x. ok x = ok' x) \<Longrightarrow> wire_codec c ok'"
proof -
  assume w: "wire_codec c ok" and "\<And>x. ok x = ok' x"
  then have "ok = ok'" by blast
  with w show ?thesis by simp
qed

lemma list_all_True: "list_all (\<lambda>_. True) = (\<lambda>_. True)"
  by (simp add: fun_eq_iff list_all_iff)

lemma vec_u16_wire: "wire_codec (vec_codec u16_codec) (\<lambda>_. True)"
  using u16c.vec_wire by (simp add: list_all_True)

lemmas wire_intros = pair_wire vec_u16_wire
  u16c.wire_codec_axioms u32c.wire_codec_axioms u64c.wire_codec_axioms bytesc.wire_codec_axioms

lemma extension_wire: "wire_codec extension_codec (\<lambda>_. True)"
  unfolding extension_codec_def
  by (rule wire_codec_cong [OF struct_wire]) (rule wire_intros wire_canonical | auto split: prod.splits)+

interpretation extensionc: wire_codec extension_codec "\<lambda>_. True"
  by (rule extension_wire)

lemma extension_items_iff:
  "extension_items list data = Inr l \<longleftrightarrow>
     (\<exists>xs. decode_items (c_dec extension_codec) data = Inr xs \<and> l = list @ xs \<and>
       distinct (map ext_type xs) \<and> set (map ext_type list) \<inter> set (map ext_type xs) = {})"
proof (induction list data arbitrary: l rule: extension_items.induct)
  case (1 list data)
  show ?case
  proof (cases "data = []")
    case True
    then show ?thesis by (auto simp: extension_items.simps decode_items_Nil)
  next
    case False
    show ?thesis
    proof (cases "c_dec extension_codec data")
      case (Inl e)
      with False show ?thesis by (simp add: extension_items.simps decode_items.simps)
    next
      case (Inr p)
      then obtain e rest where p: "c_dec extension_codec data = Inr (e, rest)" by (cases p) auto
      then have "length rest < length data" by (rule extensionc.progress)
      with p False 1 [OF False p refl this, of l] show ?thesis
        by (subst extension_items.simps, subst decode_items.simps) (auto simp: list_ex_iff, blast)
    qed
  qed
qed

lemma extension_list_wire: "wire_codec extension_list_codec extension_list_ok"
proof -
  note wire = extensionc.vec_wire [unfolded list_all_True]
  have dec: "c_dec extension_list_codec bs = Inr (l, rest) \<longleftrightarrow>
      c_dec (vec_codec extension_codec) bs = Inr (l, rest) \<and> extension_list_ok l" for bs l rest
    by (auto simp: extension_list_codec_def vec_codec_def mls_decode_collection_def extension_items_iff
        extension_list_ok_def)
  have enc: "c_enc extension_list_codec = c_enc (vec_codec extension_codec)"
    "c_len extension_list_codec = c_len (vec_codec extension_codec)"
    by (simp_all add: extension_list_codec_def vec_codec_def)
  show ?thesis
    using wire stream_codec.enc_nonempty [OF wire_stream [OF wire]]
    by (intro wire_codecI) (auto simp: dec enc wire_codec_def canonical_codec_def mls_codec_def
        canonical_codec_axioms_def)
qed

lemma credential_wire: "wire_codec credential_codec credential_ok"
proof (rule wire_codecI)
  note certs = bytesc.vec_wire [unfolded list_all_True]
  note certs_mls = certs [THEN wire_canonical, THEN canonical_mls]
  have bytes_dec: "byte_vec_decode = c_dec byte_vec_codec" and bytes_enc: "byte_vec_encode = c_enc byte_vec_codec"
    and bytes_len: "byte_vec_len = c_len byte_vec_codec"
    by (simp_all add: byte_vec_codec_def)
  fix c bs assume ok: "credential_ok c" and enc: "c_enc credential_codec c = Inr bs"
  then obtain p q where pq: "c_enc u16_codec (credential_type_of c) = Inr p"
    "credential_inner_encode c = Inr q" "bs = p @ q"
    by (auto simp: credential_codec_def)
  have len: "c_len u16_codec (credential_type_of c) = length p" "p \<noteq> []"
    using u16c.len_law [OF _ pq(1)] u16c.enc_nonempty [OF _ pq(1)] by auto
  have dec: "c_dec u16_codec (p @ r) = Inr (credential_type_of c, r)" for r
    using u16c.round_trip [OF _ pq(1)] by simp
  from pq(2) have "credential_inner_len c = length q"
    using bytesc.len_law mls_codec.len_law [OF certs_mls]
    by (cases c) (auto simp: bytes_len bytes_enc)
  with pq len show "c_len credential_codec c = length bs \<and> bs \<noteq> []"
    by (simp add: credential_codec_def)
  fix rest
  from pq(2) ok show "c_dec credential_codec (bs @ rest) = Inr (c, rest)"
    using dec bytesc.round_trip mls_codec.round_trip [OF certs_mls]
    by (cases c) (simp_all add: credential_codec_def pq(3) bytes_dec bytes_enc BASIC_def X509_def)
next
  note certs = bytesc.vec_wire [unfolded list_all_True]
  fix bs c rest assume "c_dec credential_codec bs = Inr (c, rest)"
  then show "credential_ok c \<and> (\<exists>p. c_enc credential_codec c = Inr p \<and> bs = p @ rest)"
    using u16c.dec_iff bytesc.dec_iff canonical_codec.dec_iff [OF wire_canonical [OF certs]]
    by (auto simp: credential_codec_def byte_vec_codec_def split: if_splits)
qed

lemma signing_identity_wire:
  "wire_codec signing_identity_codec (\<lambda>s. credential_ok (si_credential s))"
  unfolding signing_identity_codec_def
  by (rule wire_codec_cong [OF struct_wire])
    (rule wire_intros wire_canonical credential_wire | auto split: prod.splits)+

lemma capabilities_wire: "wire_codec capabilities_codec (\<lambda>_. True)"
  unfolding capabilities_codec_def
  by (rule wire_codec_cong [OF struct_wire])
    (rule wire_intros wire_canonical | auto split: prod.splits)+

lemma required_capabilities_wire: "wire_codec required_capabilities_codec (\<lambda>_. True)"
  unfolding required_capabilities_codec_def
  by (rule wire_codec_cong [OF struct_wire])
    (rule wire_intros wire_canonical | auto split: prod.splits)+

lemma lifetime_wire: "wire_codec lifetime_codec (\<lambda>_. True)"
  unfolding lifetime_codec_def
  by (rule wire_codec_cong [OF struct_wire])
    (rule wire_intros wire_canonical | auto split: prod.splits)+

lemma leaf_node_source_wire: "wire_codec leaf_node_source_codec (\<lambda>_. True)"
  unfolding leaf_node_source_codec_def
proof (rule enum_wire)
  show "lawful_variant (\<lambda>_. True) k"
    if "k \<in> set [variant_of 1 (\<lambda>s. case s of KeyPackage l \<Rightarrow> Some l | _ \<Rightarrow> None) KeyPackage lifetime_codec,
      variant_of 2 (\<lambda>s. case s of Update \<Rightarrow> Some () | _ \<Rightarrow> None) (\<lambda>_. Update) unit_codec,
      variant_of 3 (\<lambda>s. case s of Commit h \<Rightarrow> Some h | _ \<Rightarrow> None) Commit byte_vec_codec]" for k
    using that
    by (auto intro!: variant_of_lawful [where ok' = "\<lambda>_. True"] wire_canonical lifetime_wire unit_canonical
        bytesc.wire_codec_axioms split: leaf_node_source.splits)
qed (auto simp: variant_of_def split: leaf_node_source.splits)

lemma leaf_node_wire: "wire_codec leaf_node_codec leaf_node_ok"
  unfolding leaf_node_codec_def
  by (rule wire_codec_cong [OF struct_wire])
    (rule wire_intros wire_canonical signing_identity_wire capabilities_wire leaf_node_source_wire extension_list_wire
      | auto simp: leaf_node_ok_def split: prod.splits)+

lemma leaf_index_wire: "wire_codec leaf_index_codec (\<lambda>l. l \<le> MAX_LEAF_INDEX)"
proof -
  have "c_dec leaf_index_codec bs = Inr (l, rest) \<longleftrightarrow> c_dec u32_codec bs = Inr (l, rest) \<and> l \<le> MAX_LEAF_INDEX"
    for bs l rest
    by (cases "c_dec u32_codec bs") (auto simp: leaf_index_codec_def leaf_index_try_from_def split: if_splits)
  moreover have "c_enc leaf_index_codec = c_enc u32_codec" "c_len leaf_index_codec = c_len u32_codec"
    by (simp_all add: leaf_index_codec_def)
  ultimately show ?thesis
    using u32c.len_law u32c.round_trip u32c.enc_nonempty u32c.dec_iff
    by (intro wire_codecI) auto
qed

lemma parent_wire: "wire_codec parent_codec parent_ok"
  unfolding parent_codec_def
  by (rule wire_codec_cong [OF struct_wire])
    (rule wire_intros wire_canonical wire_codec.vec_wire leaf_index_wire
      | auto simp: parent_ok_def split: prod.splits)+

lemma node_wire: "wire_codec node_codec node_ok"
  unfolding node_codec_def
proof (rule enum_wire)
  show "lawful_variant node_ok k"
    if "k \<in> set [variant_of 1 (\<lambda>n. case n of Leaf l \<Rightarrow> Some l | _ \<Rightarrow> None) Leaf leaf_node_codec,
      variant_of 2 (\<lambda>n. case n of Parent p \<Rightarrow> Some p | _ \<Rightarrow> None) Parent parent_codec]" for k
    using that variant_of_lawful [OF wire_canonical [OF leaf_node_wire], of "case_node Some (\<lambda>_. None)" Leaf node_ok]
      variant_of_lawful [OF wire_canonical [OF parent_wire], of "case_node (\<lambda>_. None) Some" Parent node_ok]
    by (auto split: node.splits)
qed (auto simp: variant_of_def split: node.splits)

lemma node_vec_wire: "wire_codec node_vec_codec node_vec_ok"
  unfolding node_vec_codec_def node_vec_ok_def [abs_def]
  using wire_codec.vec_wire [OF option_wire [OF wire_canonical [OF node_wire]]] .

lemma group_context_wire: "wire_codec group_context_codec (\<lambda>g. extension_list_ok (gc_extensions g))"
  unfolding group_context_codec_def
  by (rule wire_codec_cong [OF struct_wire])
    (rule wire_intros wire_canonical extension_list_wire | auto split: prod.splits)+

section \<open>Interpretations\<close>

interpretation extension_listc: wire_codec extension_list_codec extension_list_ok
  by (rule extension_list_wire)

interpretation credentialc: wire_codec credential_codec credential_ok
  by (rule credential_wire)

interpretation leaf_nodec: wire_codec leaf_node_codec leaf_node_ok
  by (rule leaf_node_wire)

interpretation parentc: wire_codec parent_codec parent_ok
  by (rule parent_wire)

interpretation nodec: wire_codec node_codec node_ok
  by (rule node_wire)

interpretation node_vecc: wire_codec node_vec_codec node_vec_ok
  by (rule node_vec_wire)

interpretation group_contextc: wire_codec group_context_codec "\<lambda>g. extension_list_ok (gc_extensions g)"
  by (rule group_context_wire)

section \<open>Properties\<close>

text \<open>
  C19. The decoder of an exported ratchet tree accepts exactly the encodings of trees whose extension lists
  have distinct types, whose custom credentials do not use a reserved type and whose leaf indices are in
  range, and returns the tree that was encoded.
\<close>
theorem ratchet_tree_wire_format:
  "c_dec node_vec_codec bs = Inr (nodes, rest) \<longleftrightarrow>
     node_vec_ok nodes \<and> (\<exists>p. c_enc node_vec_codec nodes = Inr p \<and> bs = p @ rest)"
  by (rule node_vecc.dec_iff)

text \<open>
  C22. The decoder of a group context accepts exactly the encodings of group contexts whose extensions have
  distinct types, and returns the context that was encoded.
\<close>
theorem group_context_wire_format:
  "c_dec group_context_codec bs = Inr (gc, rest) \<longleftrightarrow>
     extension_list_ok (gc_extensions gc) \<and> (\<exists>p. c_enc group_context_codec gc = Inr p \<and> bs = p @ rest)"
  by (rule group_contextc.dec_iff)

end
