(* ===== verification/NodeVec.thy ===== *)
theory NodeVec
  imports MlsTypesLaws "HOL-Library.Log_Nat"
begin

text \<open>
  The array of nodes of a ratchet tree (\<^verbatim>\<open>NodeVec\<close> of \<^verbatim>\<open>mls-rs/src/tree_kem/node.rs\<close>). A method that
  borrows a node mutably is modelled by the read, the caller writes the node back with \<open>set_parent\<close> or a
  list update. A method that can leave the array changed although it returns an error gives the array
  beside the result. Indexing past the end is the error \<open>Mls_Panic\<close>.
\<close>

definition get_at :: "'a list \<Rightarrow> nat \<Rightarrow> 'a option" where
  "get_at xs i = (if i < length xs then Some (xs ! i) else None)"

fun step_by2 :: "'a list \<Rightarrow> 'a list" where
  "step_by2 [] = []"
| "step_by2 [x] = [x]"
| "step_by2 (x # _ # xs) = x # step_by2 xs"

definition next_power_of_two :: "nat \<Rightarrow> nat" where
  "next_power_of_two n = (if n \<le> 1 then 1 else 2 ^ floorlog 2 (n - 1))"

section \<open>Node types\<close>

definition as_parent :: "node option \<Rightarrow> parent res" where
  "as_parent n = (case n of Some (Parent p) \<Rightarrow> Inr p | _ \<Rightarrow> Inl ExpectedNode)"

definition as_leaf :: "node option \<Rightarrow> leaf_node res" where
  "as_leaf n = (case n of Some (Leaf l) \<Rightarrow> Inr l | _ \<Rightarrow> Inl ExpectedNode)"

definition as_non_empty :: "node option \<Rightarrow> node res" where
  "as_non_empty n = ok_or n UnexpectedEmptyNode"

section \<open>Reading\<close>

definition total_leaf_count :: "node_vec \<Rightarrow> u32" where
  "total_leaf_count nodes = of_nat (next_power_of_two (unat ((of_nat (length nodes) :: u32) div 2 + 1)))"

definition validate_index :: "node_vec \<Rightarrow> node_index \<Rightarrow> nat res" where
  "validate_index nodes index =
     (if unat index \<ge> next_power_of_two (length nodes) then Inl (InvalidNodeIndex index) else Inr (unat index))"

definition borrow_node :: "node_vec \<Rightarrow> node_index \<Rightarrow> node option res" where
  "borrow_node nodes index =
     bindR (validate_index nodes index) (\<lambda>i. Inr (case get_at nodes i of Some n \<Rightarrow> n | None \<Rightarrow> None))"

definition leaves :: "node_vec \<Rightarrow> leaf_node option list" where
  "leaves nodes = map (\<lambda>n. okR (as_leaf n)) (step_by2 nodes)"

definition non_empty_leaves :: "node_vec \<Rightarrow> (leaf_index \<times> leaf_node) list" where
  "non_empty_leaves nodes =
     List.map_filter (\<lambda>(i, l). map_option (\<lambda>l. (of_nat i, l)) l) (enumerate 0 (leaves nodes))"

definition occupied_leaf_count :: "node_vec \<Rightarrow> u32" where
  "occupied_leaf_count nodes = of_nat (length (non_empty_leaves nodes))"

definition non_empty_parents :: "node_vec \<Rightarrow> (node_index \<times> parent) list" where
  "non_empty_parents nodes =
     List.map_filter (\<lambda>(i, n). map_option (\<lambda>p. (of_nat i, p)) (okR (as_parent n)))
       (step_by2 (drop 1 (enumerate 0 nodes)))"

definition nv_direct_copath :: "node_vec \<Rightarrow> leaf_index \<Rightarrow> copath_node list res" where
  "nv_direct_copath nodes index =
     ok_or (direct_copath (node_of_leaf index) (total_leaf_count nodes)) Mls_Diverges"

definition is_blank :: "node_vec \<Rightarrow> node_index \<Rightarrow> bool res" where
  "is_blank nodes index = bindR (borrow_node nodes index) (\<lambda>n. Inr (n = None))"

definition nv_is_leaf :: "node_index \<Rightarrow> bool" where
  "nv_is_leaf index \<longleftrightarrow> index mod 2 = 0"

definition borrow_as_parent :: "node_vec \<Rightarrow> node_index \<Rightarrow> parent res" where
  "borrow_as_parent nodes index = bindR (borrow_node nodes index) as_parent"

definition borrow_as_leaf :: "node_vec \<Rightarrow> leaf_index \<Rightarrow> leaf_node res" where
  "borrow_as_leaf nodes index = bindR (borrow_node nodes (node_of_leaf index)) as_leaf"

definition borrow_as_parent_mut :: "node_vec \<Rightarrow> node_index \<Rightarrow> parent res" where
  "borrow_as_parent_mut nodes index =
     bindR (validate_index nodes index) (\<lambda>i.
     bindR (ok_or (get_at nodes i) (InvalidNodeIndex index)) as_parent)"

definition borrow_as_leaf_mut :: "node_vec \<Rightarrow> leaf_index \<Rightarrow> leaf_node res" where
  "borrow_as_leaf_mut nodes index =
     bindR (validate_index nodes (node_of_leaf index)) (\<lambda>i.
     bindR (ok_or (get_at nodes i) (InvalidNodeIndex (node_of_leaf index))) as_leaf)"

section \<open>Resolutions\<close>

text \<open>
  The node at an index that may be past the end of the array; the array stands for the tree whose nodes
  to the right of its end are blank.
\<close>

definition node_slot :: "node_vec \<Rightarrow> node_index \<Rightarrow> node option" where
  "node_slot nodes index = (case get_at nodes (unat index) of Some n \<Rightarrow> n | None \<Rightarrow> None)"

lemma trailing_ones_pos: "\<not> is_leaf x \<Longrightarrow> 0 < trailing_ones x"
proof -
  assume "\<not> is_leaf x"
  then have "bit x 0" by (simp add: is_leaf_def bit_0 and_one_eq odd_iff_mod_2_eq_one)
  moreover have "[0..<32] = 0 # [1..<32]" by (simp add: upt_rec)
  ultimately show ?thesis by (simp add: trailing_ones_def)
qed

lemma trailing_ones_bound: "trailing_ones x \<le> 32"
  unfolding trailing_ones_def using length_takeWhile_le [of "bit x" "[0..<32]"] by simp

lemma trailing_ones_bits:
  "m < trailing_ones x \<Longrightarrow> bit x m"
  "trailing_ones x < 32 \<Longrightarrow> \<not> bit x (trailing_ones x)"
proof -
  show "bit x m" if "m < trailing_ones x"
    using that nth_mem [of m "takeWhile (bit x) [0..<32]"] takeWhile_nth [of m "bit x" "[0..<32]"]
      length_takeWhile_le [of "bit x" "[0..<32]"]
    by (auto simp: trailing_ones_def dest: set_takeWhileD)
  show "\<not> bit x (trailing_ones x)" if "trailing_ones x < 32"
    using that nth_length_takeWhile [of "bit x" "[0..<32]"] by (simp add: trailing_ones_def)
qed

lemma trailing_ones_children:
  assumes "\<not> is_leaf x"
  shows "trailing_ones (left_unchecked x) = trailing_ones x - 1"
    and "trailing_ones (right_unchecked x) = trailing_ones x - 1"
proof -
  define t where "t = trailing_ones x - 1"
  from trailing_ones_pos [OF assms] have Suc: "trailing_ones x = Suc t" by (simp add: t_def)
  with trailing_ones_bound [of x] have t: "trailing_ones x = Suc t" "(trailing_ones x + 31) mod 32 = t" "t < 32"
    by simp_all
  have "bit (left_unchecked x) m \<longleftrightarrow> m < t \<and> True" if "m \<le> t" for m
    using that trailing_ones_bits(1) [of m x] t
    by (auto simp: left_unchecked_def bit_xor_iff bit_shl bit_1_iff)
  then show "trailing_ones (left_unchecked x) = trailing_ones x - 1"
    unfolding trailing_ones_def [of "left_unchecked x"] t_def [symmetric]
    by (intro takeWhile_upt_prefix) (use t in auto)
  have "bit (right_unchecked x) m \<longleftrightarrow> m < t \<and> True" if "m \<le> t" for m
    using that trailing_ones_bits(1) [of m x] t
    by (auto simp: right_unchecked_def bit_xor_iff bit_shl bit_3_int)
  then show "trailing_ones (right_unchecked x) = trailing_ones x - 1"
    unfolding trailing_ones_def [of "right_unchecked x"] t_def [symmetric]
    by (intro takeWhile_upt_prefix) (use t in auto)
qed

definition stack_weight :: "node_index list \<Rightarrow> nat" where
  "stack_weight xs = sum_list (map (\<lambda>x. 3 ^ trailing_ones x) xs)"

lemma stack_weight_children:
  assumes "\<not> is_leaf x"
  shows "stack_weight (left_unchecked x # right_unchecked x # xs) < stack_weight (x # xs)"
proof -
  from trailing_ones_pos [OF assms] obtain t where "trailing_ones x = Suc t" by (cases "trailing_ones x") auto
  then show ?thesis
    using trailing_ones_children [OF assms] by (simp add: stack_weight_def)
qed

text \<open>The stack is a list whose head is its top.\<close>

function resolution_loop :: "node_vec \<Rightarrow> node_index list \<Rightarrow> node_index list \<Rightarrow> node_index list" where
  "resolution_loop nodes [] resolution = resolution"
| "resolution_loop nodes (index # indexes) resolution =
     (case node_slot nodes index of
        Some node \<Rightarrow> resolution_loop nodes indexes (resolution @ [index] @
          (case node of Parent p \<Rightarrow> map node_of_leaf (p_unmerged_leaves p) | Leaf _ \<Rightarrow> []))
      | None \<Rightarrow> (if \<not> is_leaf index
          then resolution_loop nodes (left_unchecked index # right_unchecked index # indexes) resolution
          else resolution_loop nodes indexes resolution))"
  by pat_completeness auto
termination
proof (relation "measure (\<lambda>(nodes, indexes, resolution). stack_weight indexes)")
qed (simp_all add: stack_weight_children, simp_all add: stack_weight_def)

definition get_resolution_index :: "node_vec \<Rightarrow> node_index \<Rightarrow> node_index list" where
  "get_resolution_index nodes index = resolution_loop nodes [index] []"

partial_function (option) find_in_resolution_loop ::
    "node_vec \<Rightarrow> node_index option \<Rightarrow> node_index list \<Rightarrow> nat \<Rightarrow> nat option option" where
  [code]: "find_in_resolution_loop nodes to_find indexes resolution_len =
     (case indexes of
        [] \<Rightarrow> Some None
      | index # indexes \<Rightarrow>
          (case node_slot nodes index of
             Some node \<Rightarrow>
               if Some index = to_find \<or> to_find = None then Some (Some resolution_len)
               else find_in_resolution_loop nodes to_find
                 (rev (case node of Parent p \<Rightarrow> map node_of_leaf (p_unmerged_leaves p) | Leaf _ \<Rightarrow> []) @ indexes)
                 (resolution_len + 1)
           | None \<Rightarrow>
               if \<not> is_leaf index
               then find_in_resolution_loop nodes to_find
                 (left_unchecked index # right_unchecked index # indexes) resolution_len
               else find_in_resolution_loop nodes to_find indexes resolution_len))"

definition find_in_resolution :: "node_vec \<Rightarrow> node_index \<Rightarrow> node_index option \<Rightarrow> nat option res" where
  "find_in_resolution nodes index to_find =
     ok_or (find_in_resolution_loop nodes to_find [index] 0) Mls_Diverges"

definition is_resolution_empty :: "node_vec \<Rightarrow> node_index \<Rightarrow> bool res" where
  "is_resolution_empty nodes index =
     bindR (find_in_resolution nodes index None) (\<lambda>r. Inr (r = None))"

definition filtered :: "node_vec \<Rightarrow> leaf_index \<Rightarrow> bool list res" where
  "filtered nodes index =
     bindR (nv_direct_copath nodes index) (\<lambda>cps. mapR (\<lambda>cp. is_resolution_empty nodes (copath cp)) cps)"

section \<open>Writing\<close>

definition blank_leaf_node :: "node_vec \<Rightarrow> leaf_index \<Rightarrow> node_vec \<times> leaf_node res" where
  "blank_leaf_node nodes leaf_index =
     (case validate_index nodes (node_of_leaf leaf_index) of
        Inl e \<Rightarrow> (nodes, Inl e)
      | Inr i \<Rightarrow>
          (nodes[i := None],
           case get_at nodes i of Some (Some (Leaf l)) \<Rightarrow> Inr l | _ \<Rightarrow> Inl RemovingNonExistingMember))"

definition blank_nodes :: "copath_node list \<Rightarrow> node_vec \<Rightarrow> node_vec" where
  "blank_nodes cps nodes = foldl (\<lambda>nodes cp. nodes[unat (path cp) := None]) nodes cps"

definition blank_direct_path :: "node_vec \<Rightarrow> leaf_index \<Rightarrow> node_vec res" where
  "blank_direct_path nodes leaf =
     bindR (nv_direct_copath nodes leaf) (\<lambda>cps. Inr (blank_nodes cps nodes))"

fun pop_blanks :: "node option list \<Rightarrow> node option list" where
  "pop_blanks (None # rest) = pop_blanks rest"
| "pop_blanks rest = rest"

text \<open>\<^verbatim>\<open>trim\<close> pops blanks off the end, the head of the reversed array.\<close>

definition trim :: "node_vec \<Rightarrow> node_vec" where
  "trim nodes = rev (pop_blanks (rev nodes))"

definition set_parent :: "node_vec \<Rightarrow> node_index \<Rightarrow> parent \<Rightarrow> node_vec" where
  "set_parent nodes index p = nodes[unat index := Some (Parent p)]"

definition set_leaf :: "node_vec \<Rightarrow> leaf_index \<Rightarrow> leaf_node \<Rightarrow> node_vec" where
  "set_leaf nodes index l = nodes[unat (node_of_leaf index) := Some (Leaf l)]"

definition borrow_or_fill_node_as_parent ::
    "node_vec \<Rightarrow> node_index \<Rightarrow> hpke_public_key \<Rightarrow> (node_vec \<times> parent) res" where
  "borrow_or_fill_node_as_parent nodes node_index public_key =
     bindR (validate_index nodes node_index) (\<lambda>index.
       let nodes = nodes @ replicate (Suc index - length nodes) None;
           nodes = (if nodes ! index = None
                    then nodes[index := Some (Parent \<lparr>p_public_key = public_key, p_parent_hash = [],
                                                      p_unmerged_leaves = []\<rparr>)]
                    else nodes)
       in bindR (as_parent (nodes ! index)) (\<lambda>p. Inr (nodes, p)))"

function next_empty_loop :: "node_vec \<Rightarrow> nat \<Rightarrow> leaf_index" where
  "next_empty_loop nodes n =
     (if n < length nodes
      then if nodes ! n = None then from_node_index_unchecked (of_nat n)
           else next_empty_loop nodes (n + 2)
      else from_node_index_unchecked (of_nat (length nodes) + 1))"
  by pat_completeness auto
termination
  by (relation "measure (\<lambda>(nodes, n). length nodes - n)") auto

declare next_empty_loop.simps [simp del]

definition next_empty_leaf :: "node_vec \<Rightarrow> leaf_index \<Rightarrow> leaf_index" where
  "next_empty_leaf nodes start = next_empty_loop nodes (unat (node_of_leaf start))"

definition insert_leaf :: "node_vec \<Rightarrow> leaf_index \<Rightarrow> leaf_node \<Rightarrow> node_vec res" where
  "insert_leaf nodes index leaf =
     (let i = push_bit 1 (unat index);
          nodes = (if i > length nodes then nodes @ [None, None]
                   else if nodes = [] then [None] else nodes)
      in if i < length nodes then Inr (nodes[i := Some (Leaf leaf)]) else Inl Mls_Panic)"

end
