(* ===== verification/Samples.thy ===== *)
theory Samples
  imports MlsTypesLaws
begin

text \<open>
  Concrete values at which the properties are evaluated: leaves that differ in one byte, an identity
  provider that reads the identity off a basic credential, and a cipher suite provider whose operations
  are transparent (the hash of a string is its first bytes, a key pair is the seed twice, sealing to a key tags the
  plaintext with the key).
\<close>

definition sample_capabilities :: capabilities where
  "sample_capabilities = \<lparr>cap_protocol_versions = [1], cap_cipher_suites = [1], cap_extensions = [],
     cap_proposals = [0xF000], cap_credentials = [1]\<rparr>"

definition sample_leaf :: "u8 \<Rightarrow> leaf_node" where
  "sample_leaf b = \<lparr>ln_public_key = [b], ln_signing_identity = \<lparr>signature_key = [b], si_credential = Cred_Basic [b]\<rparr>,
     ln_capabilities = sample_capabilities, ln_source = Update, ln_extensions = [], ln_signature = [b]\<rparr>"

definition sample_tree :: "u8 \<Rightarrow> u8 \<Rightarrow> node_vec" where
  "sample_tree a b = [Some (Leaf (sample_leaf a)), None, Some (Leaf (sample_leaf b))]"

definition sample_csp :: cipher_suite_provider where
  "sample_csp = \<lparr>
     csp_cipher_suite = 1,
     csp_hash = (\<lambda>d. Inr (take 8 d)),
     csp_mac = (\<lambda>k d. Inr (k @ d)),
     aead_seal = (\<lambda>key pt aad nonce. Inr (key @ nonce @ pt)),
     aead_open = (\<lambda>key ct aad nonce. if take (length (key @ nonce)) ct = key @ nonce
       then Inr (drop (length (key @ nonce)) ct) else Inl ''open''),
     aead_key_size = 1,
     aead_nonce_size = 4,
     kdf_extract = (\<lambda>salt ikm. Inr (salt @ ikm)),
     kdf_expand = (\<lambda>prk info len. Inr (take len (prk @ info @ replicate len 0))),
     kdf_extract_size = 1,
     hpke_seal = (\<lambda>pk info aad pt. Inr \<lparr>kem_output = pk, ciphertext = pt\<rparr>),
     hpke_open = (\<lambda>ct sk pk info aad. if kem_output ct = sk then Inr (ciphertext ct) else Inl ''open''),
     kem_derive = (\<lambda>ikm. Inr (ikm, ikm)),
     kem_public_key_validate = (\<lambda>_. Inr ()),
     csp_sign = (\<lambda>sk d. Inr sk),
     csp_verify = (\<lambda>pk sig d. if sig = pk then Inr () else Inl ''verify''),
     hpke_setup_r = (\<lambda>kem sk pk info. if kem = sk then Inr (\<lambda>ctx len. Inr (take len (kem @ replicate len 0))) else Inl ''setup'')\<rparr>"

fun sample_identity :: "credential \<Rightarrow> any_error + byte list" where
  "sample_identity (Cred_Basic b) = Inr b"
| "sample_identity _ = Inl ''credential''"

definition sample_idp :: identity_provider where
  "sample_idp = \<lparr>
     idp_validate_member = (\<lambda>_ _ _. Inr ()),
     idp_validate_external_sender = (\<lambda>_ _ _. Inr ()),
     idp_identity = (\<lambda>s _. sample_identity (si_credential s)),
     idp_valid_successor = (\<lambda>_ _ _. Inr True),
     idp_supported_types = [1]\<rparr>"

lemma sample_csp_simps:
  "kdf_expand sample_csp prk info len = Inr (take len (prk @ info @ replicate len 0))"
  "kdf_extract_size sample_csp = 1" "aead_nonce_size sample_csp = 4" "aead_key_size sample_csp = 1"
  by (simp_all add: sample_csp_def)

end
