(* ===== verification/NodeVecLaws.thy ===== *)
theory NodeVecLaws
  imports NodeVec Samples
begin

text \<open>
  The array of nodes as a complete binary tree: its number of leaves is a power of two that covers the
  array, the path of every leaf is found, resolutions are those of the recursive definition on the tree.
\<close>

section \<open>The size of the tree\<close>

definition tree_depth :: "node_vec \<Rightarrow> nat" where
  "tree_depth nodes = floorlog 2 (unat (of_nat (length nodes) :: u32) div 2)"

text \<open>The resolution of the node at level \<open>k\<close> and offset \<open>i\<close>, by recursion on the tree.\<close>

fun node_resolution :: "node_index \<Rightarrow> node \<Rightarrow> node_index list" where
  "node_resolution x (Leaf _) = [x]"
| "node_resolution x (Parent p) = x # map node_of_leaf (p_unmerged_leaves p)"

fun resolution :: "node_vec \<Rightarrow> nat \<Rightarrow> nat \<Rightarrow> node_index list" where
  "resolution nodes 0 i =
     (case node_slot nodes (word_node 0 i) of Some n \<Rightarrow> node_resolution (word_node 0 i) n | None \<Rightarrow> [])"
| "resolution nodes (Suc k) i =
     (case node_slot nodes (word_node (Suc k) i) of
        Some n \<Rightarrow> node_resolution (word_node (Suc k) i) n
      | None \<Rightarrow> resolution nodes k (2 * i) @ resolution nodes k (2 * i + 1))"

lemma next_power_of_two_Suc: "next_power_of_two (Suc n) = 2 ^ floorlog 2 n"
  by (simp add: next_power_of_two_def floorlog_def)

lemma less_floorlog: "n < 2 ^ floorlog 2 n"
  using floorlog_bounds [of n 2] by (cases "n = 0") auto

lemma floorlog_le: "n < 2 ^ k \<Longrightarrow> floorlog 2 n \<le> k"
proof (cases "n = 0")
  case False
  assume "n < 2 ^ k"
  moreover have "2 ^ (floorlog 2 n - 1) \<le> n" using False floorlog_bounds [of n 2] by simp
  ultimately have "(2::nat) ^ (floorlog 2 n - 1) < 2 ^ k" by (rule order_le_less_trans [rotated])
  then have "floorlog 2 n - 1 < k" by (simp only: power_strict_increasing_iff)
  then show ?thesis by simp
qed (simp add: floorlog_def)

lemma tree_depth_le: "tree_depth nodes \<le> 31"
  unfolding tree_depth_def using u32_bound [of "of_nat (length nodes)"] by (intro floorlog_le) simp

lemma total_leaf_count_pow: "total_leaf_count nodes = 2 ^ tree_depth nodes"
proof -
  let ?n = "of_nat (length nodes) :: u32"
  have "unat (?n div 2 + 1) = Suc (unat ?n div 2)"
    using u32_bound [of ?n] by (simp add: unat_word_ariths unat_div)
  then show ?thesis
    by (simp add: total_leaf_count_def tree_depth_def next_power_of_two_Suc)
qed

lemma length_tree_depth:
  assumes "length nodes < 2 ^ 32"
  shows "length nodes < 2 ^ Suc (tree_depth nodes)"
proof -
  from assms have "tree_depth nodes = floorlog 2 (length nodes div 2)"
    by (simp add: tree_depth_def unat_of_nat_small)
  then have "length nodes div 2 < 2 ^ tree_depth nodes" using less_floorlog by simp
  then show ?thesis by simp
qed

lemma in_tree_leaf: "i < 2 ^ d \<Longrightarrow> in_tree d 0 i"
  by (simp add: in_tree_def)

lemma nv_direct_copath_leaf:
  assumes "i < 2 ^ tree_depth nodes"
  shows "nv_direct_copath nodes (of_nat i) = Inr (copath_spec (tree_depth nodes) 0 i)"
  using direct_copath_word_node [OF in_tree_leaf [OF assms] tree_depth_le]
  by (simp add: nv_direct_copath_def total_leaf_count_pow node_of_leaf_word_node)

lemma unat_node_of_leaf: "unat (node_of_leaf l) = unat l * 2 mod 2 ^ 32"
  by (simp add: node_of_leaf_def unat_word_ariths)

lemma nv_direct_copath_returns: "\<exists>cps. nv_direct_copath nodes l = Inr cps"
proof (cases "is_in_tree (node_of_leaf l) (root_index (2 ^ tree_depth nodes))")
  case False
  then show ?thesis by (simp add: nv_direct_copath_def direct_copath_def total_leaf_count_pow)
next
  case True
  define i where "i = unat (node_of_leaf l) div 2"
  have "even (unat (node_of_leaf l))" unfolding unat_node_of_leaf by (rule dvd_mod) simp_all
  then have even: "unat (node_of_leaf l) = 2 * i" by (simp add: i_def)
  have "word_node 0 i = of_nat (unat (node_of_leaf l))" by (simp add: even word_node_def node_at_def)
  then have leaf: "node_of_leaf l = word_node 0 i" by simp
  have "i < 2 ^ tree_depth nodes"
    using True even unat_double_root [OF tree_depth_le, of nodes]
    by (simp add: is_in_tree_def word_le_nat_alt le_imp_less_Suc [of i "2 ^ tree_depth nodes - 1", simplified])
  then show ?thesis
    using direct_copath_word_node [OF in_tree_leaf tree_depth_le, of i nodes] leaf
    by (simp add: nv_direct_copath_def total_leaf_count_pow)
qed

section \<open>Resolutions\<close>

lemma resolution_loop_word_node:
  assumes "k < 32"
  shows "resolution_loop nodes (word_node k i # rest) acc = resolution_loop nodes rest (acc @ resolution nodes k i)"
  using assms
proof (induction k arbitrary: i rest acc)
  case 0
  have "is_leaf (word_node 0 i)"
    using bit_word_node [of 0 i 0] by (simp add: is_leaf_def bit_0 and_one_eq odd_iff_mod_2_eq_one)
  then show ?case by (simp split: option.splits node.splits)
next
  case (Suc k)
  have "\<not> is_leaf (word_node (Suc k) i)"
    using bit_word_node [of "Suc k" i 0] Suc.prems by (simp add: is_leaf_def bit_0 and_one_eq odd_iff_mod_2_eq_one)
  with Suc show ?case
    by (simp add: left_word_node right_word_node split: option.splits node.splits)
qed

lemma get_resolution_index_word_node: "k < 32 \<Longrightarrow> get_resolution_index nodes (word_node k i) = resolution nodes k i"
  by (simp add: get_resolution_index_def resolution_loop_word_node del: resolution_loop.simps(2))

lemma resolution_loop_acc:
  fixes acc' :: "node_index list"
  shows "resolution_loop nodes xs acc = acc @ resolution_loop nodes xs []"
proof (induction nodes xs acc' arbitrary: acc rule: resolution_loop.induct)
  case (2 nodes index indexes acc')
  show ?case
  proof (cases "node_slot nodes index")
    case None
    show ?thesis
    proof (cases "is_leaf index")
      case True
      with 2 None have "resolution_loop nodes indexes acc = acc @ resolution_loop nodes indexes []" by blast
      with True None show ?thesis by simp
    next
      case False
      with 2 None have "resolution_loop nodes (left_unchecked index # right_unchecked index # indexes) acc =
        acc @ resolution_loop nodes (left_unchecked index # right_unchecked index # indexes) []" by blast
      with False None show ?thesis by (simp only: resolution_loop.simps(2) [of nodes index]) simp
    qed
  next
    case (Some node)
    with 2 have IH: "resolution_loop nodes indexes acc = acc @ resolution_loop nodes indexes []" for acc by blast
    define e where "e = [index] @ (case node of Parent p \<Rightarrow> map node_of_leaf (p_unmerged_leaves p) | Leaf _ \<Rightarrow> [])"
    from Some have "resolution_loop nodes (index # indexes) a = resolution_loop nodes indexes (a @ e)" for a
      by (simp add: e_def)
    then show ?thesis using IH [of "acc @ e"] IH [of "[] @ e"] by simp
  qed
qed simp

lemma find_in_resolution_loop_None:
  "find_in_resolution_loop nodes None indexes n =
     Some (if resolution_loop nodes indexes acc = acc then None else Some n)"
proof (induction nodes indexes acc rule: resolution_loop.induct)
  case (1 nodes)
  then show ?case by (subst find_in_resolution_loop.simps) simp
next
  case (2 nodes index indexes acc)
  then show ?case
    by (subst find_in_resolution_loop.simps)
      (auto split: option.splits simp: resolution_loop_acc [of _ _ "_ @ _"] resolution_loop_acc [of _ _ "_ # _"])
qed

lemma is_resolution_empty_eq: "is_resolution_empty nodes x = Inr (get_resolution_index nodes x = [])"
  by (simp add: is_resolution_empty_def find_in_resolution_def get_resolution_index_def
      find_in_resolution_loop_None [where acc = "[]"] del: resolution_loop.simps(2))

lemma mapR_Inr: "mapR (\<lambda>x. Inr (f x)) xs = Inr (map f xs)"
  by (induction xs) auto

lemma filtered_eq:
  "filtered nodes l =
     bindR (nv_direct_copath nodes l) (\<lambda>cps. Inr (map (\<lambda>cp. get_resolution_index nodes (copath cp) = []) cps))"
  by (simp add: filtered_def is_resolution_empty_eq mapR_Inr)

section \<open>Properties\<close>

text \<open>
  C15. The stack machine that computes a resolution returns the resolution as RFC 9420 defines it by recursion:
  the node and its unmerged leaves where the node is not blank, else the resolutions of its children.
\<close>
theorem resolution_by_recursion:
  assumes "k < 32"
  shows "get_resolution_index nodes (word_node k i) = resolution nodes k i"
  using assms by (rule get_resolution_index_word_node)

theorem resolution_by_recursion_witness:
  "get_resolution_index [Some (Leaf (sample_leaf 1)), None, Some (Leaf (sample_leaf 2))] (word_node 1 0) = [0, 2]"
proof -
  have "resolution [Some (Leaf (sample_leaf 1)), None, Some (Leaf (sample_leaf 2))] 1 0 = [0, 2]" by code_simp
  with resolution_by_recursion [of 1 "[Some (Leaf (sample_leaf 1)), None, Some (Leaf (sample_leaf 2))]" 0]
  show ?thesis by simp
qed

text \<open>
  C21. A node of the direct path of a leaf is filtered exactly if the resolution of its child on the copath
  is empty; the search that stops at the first entry of the resolution decides this.
\<close>
theorem filtered_by_resolution:
  "filtered nodes l =
     bindR (nv_direct_copath nodes l) (\<lambda>cps. Inr (map (\<lambda>cp. get_resolution_index nodes (copath cp) = []) cps))"
  by (rule filtered_eq)

end
