(* ===== verification/TreeIndex.thy ===== *)
theory TreeIndex
  imports NodeVecLaws "HOL-Library.AList"
begin

text \<open>
  The index of a ratchet tree (\<^verbatim>\<open>mls-rs/src/tree_kem/tree_index.rs\<close>): hash maps from keys and identities to
  leaves and counters of credential and proposal types, by which a new leaf is checked against all the
  others without a scan. A hash map is an association list with distinct keys; no operation depends on
  its order. Beside it, the scan that a build without the feature \<^verbatim>\<open>tree_index\<close> does. The main lemma is
  that both accept the same leaves.
\<close>

record type_counter =
  supported :: u32
  used :: u32

definition default_counter :: type_counter where
  "default_counter = \<lparr>supported = 0, used = 0\<rparr>"

record tree_index =
  credential_signature_key :: "(signature_public_key \<times> leaf_index) list"
  hpke_key :: "(hpke_public_key \<times> leaf_index) list"
  identities :: "(byte list \<times> leaf_index) list"
  credential_type_counters :: "(credential_type \<times> type_counter) list"
  proposal_type_counter :: "(proposal_type \<times> u32) list"

definition tree_index_new :: tree_index where
  "tree_index_new = \<lparr>credential_signature_key = [], hpke_key = [], identities = [],
     credential_type_counters = [], proposal_type_counter = []\<rparr>"

definition is_initialized :: "tree_index \<Rightarrow> bool" where
  "is_initialized ti \<longleftrightarrow> identities ti \<noteq> []"

text \<open>\<open>entry(k).or_default()\<close> followed by an update of the value, and \<open>get_mut(k)\<close> followed by one.\<close>

definition entry_modify :: "'v \<Rightarrow> ('v \<Rightarrow> 'v) \<Rightarrow> 'k \<Rightarrow> ('k \<times> 'v) list \<Rightarrow> ('k \<times> 'v) list" where
  "entry_modify d f k m = AList.update k (f (case map_of m k of Some v \<Rightarrow> v | None \<Rightarrow> d)) m"

definition get_modify :: "('v \<Rightarrow> 'v) \<Rightarrow> 'k \<Rightarrow> ('k \<times> 'v) list \<Rightarrow> ('k \<times> 'v) list" where
  "get_modify f k m = (case map_of m k of Some v \<Rightarrow> AList.update k (f v) m | None \<Rightarrow> m)"

text \<open>\<^verbatim>\<open>Itertools::unique\<close> keeps the first of equal items.\<close>

fun unique :: "'a list \<Rightarrow> 'a list" where
  "unique [] = []"
| "unique (x # xs) = x # filter (\<lambda>y. y \<noteq> x) (unique xs)"

definition index_entry_free :: "'k \<Rightarrow> ('k \<times> leaf_index) list \<Rightarrow> unit res" where
  "index_entry_free k m = (case map_of m k of Some i \<Rightarrow> Inl (DuplicateLeafData i) | None \<Rightarrow> Inr ())"

text \<open>The counters an insertion writes once it has accepted the leaf.\<close>

definition count_leaf :: "leaf_node \<Rightarrow> tree_index \<Rightarrow> tree_index" where
  "count_leaf leaf ti = ti\<lparr>
     credential_type_counters :=
       foldl (\<lambda>m t. entry_modify default_counter (\<lambda>c. c\<lparr>supported := supported c + 1\<rparr>) t m)
         (entry_modify default_counter (\<lambda>c. c\<lparr>used := used c + 1\<rparr>)
           (credential_type_of (si_credential (ln_signing_identity leaf))) (credential_type_counters ti))
         (unique (cap_credentials (ln_capabilities leaf))),
     proposal_type_counter :=
       foldl (\<lambda>m t. entry_modify 0 (\<lambda>c. c + 1) t m) (proposal_type_counter ti)
         (unique (cap_proposals (ln_capabilities leaf)))\<rparr>"

text \<open>
  \<open>TreeIndex::insert\<close>. Reading the counters of the credential type of the new leaf creates an entry for
  it even where the leaf is then refused, so the index is returned beside the result.
\<close>

definition tree_index_insert :: "tree_index \<Rightarrow> leaf_index \<Rightarrow> leaf_node \<Rightarrow> byte list \<Rightarrow> tree_index \<times> unit res" where
  "tree_index_insert ti index leaf identity =
     (let old_leaf_count = length (credential_signature_key ti);
          pub_key = signature_key (ln_signing_identity leaf);
          cred_type = credential_type_of (si_credential (ln_signing_identity leaf))
      in case bindR (index_entry_free pub_key (credential_signature_key ti)) (\<lambda>_.
              bindR (index_entry_free (ln_public_key leaf) (hpke_key ti)) (\<lambda>_.
                     index_entry_free identity (identities ti))) of
           Inl e \<Rightarrow> (ti, Inl e)
         | Inr _ \<Rightarrow>
           if list_ex (\<lambda>(t, c). used c > 0 \<and> t \<notin> set (cap_credentials (ln_capabilities leaf)))
                (credential_type_counters ti)
           then (ti, Inl InUseCredentialTypeUnsupportedByNewLeaf)
           else let counters = entry_modify default_counter id cred_type (credential_type_counters ti);
                    ti = ti\<lparr>credential_type_counters := counters\<rparr>
                in if supported (the (map_of counters cred_type)) \<noteq> of_nat old_leaf_count
                   then (ti, Inl CredentialTypeOfNewLeafIsUnsupported)
                   else ((count_leaf leaf ti)\<lparr>
                           identities := AList.update identity index (identities ti),
                           credential_signature_key := AList.update pub_key index (credential_signature_key ti),
                           hpke_key := AList.update (ln_public_key leaf) index (hpke_key ti)\<rparr>, Inr ()))"

definition index_insert ::
    "tree_index \<Rightarrow> leaf_node \<Rightarrow> leaf_index \<Rightarrow> identity_provider \<Rightarrow> extension_list \<Rightarrow> tree_index \<times> unit res" where
  "index_insert ti new_leaf new_leaf_idx id_provider exts =
     (case identity_of id_provider (ln_signing_identity new_leaf) exts of
        Inl e \<Rightarrow> (ti, Inl e)
      | Inr new_id \<Rightarrow> tree_index_insert ti new_leaf_idx new_leaf new_id)"

definition get_leaf_index_with_identity :: "tree_index \<Rightarrow> byte list \<Rightarrow> leaf_index option" where
  "get_leaf_index_with_identity ti identity = map_of (identities ti) identity"

definition uncount_leaf :: "leaf_node \<Rightarrow> tree_index \<Rightarrow> tree_index" where
  "uncount_leaf leaf ti = ti\<lparr>
     credential_type_counters :=
       foldl (\<lambda>m t. get_modify (\<lambda>c. c\<lparr>supported := supported c - 1\<rparr>) t m)
         (get_modify (\<lambda>c. c\<lparr>used := used c - 1\<rparr>)
           (credential_type_of (si_credential (ln_signing_identity leaf))) (credential_type_counters ti))
         (unique (cap_credentials (ln_capabilities leaf))),
     proposal_type_counter :=
       foldl (\<lambda>m t. get_modify (\<lambda>c. c - 1) t m) (proposal_type_counter ti)
         (unique (cap_proposals (ln_capabilities leaf)))\<rparr>"

definition tree_index_remove :: "tree_index \<Rightarrow> leaf_node \<Rightarrow> byte list \<Rightarrow> tree_index" where
  "tree_index_remove ti leaf identity =
     (let existed = (map_of (identities ti) identity \<noteq> None);
          ti = ti\<lparr>identities := AList.delete identity (identities ti),
                  credential_signature_key :=
                    AList.delete (signature_key (ln_signing_identity leaf)) (credential_signature_key ti),
                  hpke_key := AList.delete (ln_public_key leaf) (hpke_key ti)\<rparr>
      in if \<not> existed then ti else uncount_leaf leaf ti)"

definition count_supporting_proposal :: "tree_index \<Rightarrow> proposal_type \<Rightarrow> u32" where
  "count_supporting_proposal ti t = (case map_of (proposal_type_counter ti) t of Some n \<Rightarrow> n | None \<Rightarrow> 0)"

section \<open>Without the index\<close>

definition check_leaf_pair ::
    "leaf_node \<Rightarrow> byte list \<Rightarrow> leaf_index \<Rightarrow> leaf_node \<Rightarrow> identity_provider \<Rightarrow> extension_list \<Rightarrow> unit res" where
  "check_leaf_pair new_leaf new_id i leaf id_provider exts =
     bindR (guardR (ln_public_key new_leaf \<noteq> ln_public_key leaf) (DuplicateLeafData i)) (\<lambda>_.
     bindR (guardR (signature_key (ln_signing_identity new_leaf) \<noteq> signature_key (ln_signing_identity leaf))
              (DuplicateLeafData i)) (\<lambda>_.
     bindR (identity_of id_provider (ln_signing_identity leaf) exts) (\<lambda>leaf_id.
     bindR (guardR (new_id \<noteq> leaf_id) (DuplicateLeafData i)) (\<lambda>_.
     bindR (guardR (credential_type_of (si_credential (ln_signing_identity leaf))
                      \<in> set (cap_credentials (ln_capabilities new_leaf)))
              InUseCredentialTypeUnsupportedByNewLeaf) (\<lambda>_.
       guardR (credential_type_of (si_credential (ln_signing_identity new_leaf))
                 \<in> set (cap_credentials (ln_capabilities leaf)))
         CredentialTypeOfNewLeafIsUnsupported)))))"

definition index_insert_scan ::
    "node_vec \<Rightarrow> leaf_node \<Rightarrow> leaf_index \<Rightarrow> identity_provider \<Rightarrow> extension_list \<Rightarrow> unit res" where
  "index_insert_scan nodes new_leaf new_leaf_idx id_provider exts =
     bindR (identity_of id_provider (ln_signing_identity new_leaf) exts) (\<lambda>new_id.
       foldR (\<lambda>_ (i, leaf). check_leaf_pair new_leaf new_id i leaf id_provider exts) ()
         (filter (\<lambda>(i, _). i \<noteq> new_leaf_idx) (non_empty_leaves nodes)))"

section \<open>What the index represents\<close>

text \<open>
  An index stands for the leaves of a tree, each with its position and identity: its maps are exactly
  their keys and its counters count them.
\<close>

type_synonym leaf_entry = "leaf_index \<times> leaf_node \<times> byte list"

definition cred_of :: "leaf_node \<Rightarrow> credential_type" where
  "cred_of leaf = credential_type_of (si_credential (ln_signing_identity leaf))"

definition caps_of :: "leaf_node \<Rightarrow> credential_type set" where
  "caps_of leaf = set (cap_credentials (ln_capabilities leaf))"

definition sig_of :: "leaf_node \<Rightarrow> signature_public_key" where
  "sig_of leaf = signature_key (ln_signing_identity leaf)"

definition lookup :: "'v \<Rightarrow> ('k \<times> 'v) list \<Rightarrow> 'k \<Rightarrow> 'v" where
  "lookup d m k = (case map_of m k of Some v \<Rightarrow> v | None \<Rightarrow> d)"

definition count_if :: "(leaf_node \<Rightarrow> bool) \<Rightarrow> leaf_entry list \<Rightarrow> nat" where
  "count_if P es = length (filter (\<lambda>(_, l, _). P l) es)"

definition keys_repr :: "(leaf_entry \<Rightarrow> 'k) \<Rightarrow> ('k \<times> leaf_index) list \<Rightarrow> leaf_entry list \<Rightarrow> bool" where
  "keys_repr key m es \<longleftrightarrow> distinct (map fst m) \<and> distinct (map key es) \<and>
     set m = set (map (\<lambda>e. (key e, fst e)) es)"

definition index_repr :: "tree_index \<Rightarrow> leaf_entry list \<Rightarrow> bool" where
  "index_repr ti es \<longleftrightarrow>
     keys_repr (\<lambda>(_, l, _). sig_of l) (credential_signature_key ti) es \<and>
     keys_repr (\<lambda>(_, l, _). ln_public_key l) (hpke_key ti) es \<and>
     keys_repr (\<lambda>(_, _, i). i) (identities ti) es \<and>
     distinct (map fst (credential_type_counters ti)) \<and>
     (\<forall>t. used (lookup default_counter (credential_type_counters ti) t) = of_nat (count_if (\<lambda>l. cred_of l = t) es)) \<and>
     (\<forall>t. supported (lookup default_counter (credential_type_counters ti) t) = of_nat (count_if (\<lambda>l. t \<in> caps_of l) es)) \<and>
     (\<forall>t. count_supporting_proposal ti t = of_nat (count_if (\<lambda>l. t \<in> set (cap_proposals (ln_capabilities l))) es))"

text \<open>The pairwise condition on two leaves of one tree.\<close>

definition compatible :: "leaf_node \<Rightarrow> byte list \<Rightarrow> leaf_node \<Rightarrow> byte list \<Rightarrow> bool" where
  "compatible new new_id l l_id \<longleftrightarrow>
     ln_public_key new \<noteq> ln_public_key l \<and> sig_of new \<noteq> sig_of l \<and> new_id \<noteq> l_id \<and>
     cred_of l \<in> caps_of new \<and> cred_of new \<in> caps_of l"

subsection \<open>Association lists\<close>

lemma lookup_entry_modify:
  "lookup d (entry_modify d f k m) k' = (if k' = k then f (lookup d m k) else lookup d m k')"
  by (simp add: lookup_def entry_modify_def update_conv')

lemma lookup_entry_modify_id: "lookup d (entry_modify d id k m) = lookup d m"
  by (rule HOL.ext) (simp add: lookup_entry_modify)

lemma distinct_entry_modify: "distinct (map fst m) \<Longrightarrow> distinct (map fst (entry_modify d f k m))"
  by (simp add: entry_modify_def distinct_update)

lemma distinct_get_modify: "distinct (map fst m) \<Longrightarrow> distinct (map fst (get_modify f k m))"
  by (simp add: get_modify_def distinct_update split: option.splits)

lemma lookup_get_modify:
  "lookup d (get_modify f k m) k' = (if k' = k \<and> map_of m k \<noteq> None then f (lookup d m k) else lookup d m k')"
  by (auto simp: lookup_def get_modify_def update_conv' split: option.splits)

lemma lookup_fold_entry_modify:
  "distinct ks \<Longrightarrow> lookup d (foldl (\<lambda>m k. entry_modify d f k m) m ks) k =
     (if k \<in> set ks then f (lookup d m k) else lookup d m k)"
  by (induction ks arbitrary: m) (auto simp: lookup_entry_modify)

lemma lookup_fold_get_modify:
  "distinct ks \<Longrightarrow> (\<And>k. k \<in> set ks \<Longrightarrow> lookup d m k \<noteq> d) \<Longrightarrow>
   lookup d (foldl (\<lambda>m k. get_modify f k m) m ks) k =
     (if k \<in> set ks then f (lookup d m k) else lookup d m k)"
proof (induction ks arbitrary: m)
  case (Cons a ks)
  from Cons.prems(2) [of a] have "map_of m a \<noteq> None" by (auto simp: lookup_def split: option.splits)
  moreover from Cons.prems have "k' \<in> set ks \<Longrightarrow> lookup d (get_modify f a m) k' \<noteq> d" for k'
    by (auto simp: lookup_get_modify)
  ultimately show ?case
    using Cons.IH [of "get_modify f a m"] Cons.prems by (auto simp: lookup_get_modify)
qed simp

lemma distinct_fold_entry_modify:
  "distinct (map fst m) \<Longrightarrow> distinct (map fst (foldl (\<lambda>m k. entry_modify d f k m) m ks))"
  by (induction ks arbitrary: m) (auto simp: distinct_entry_modify)

lemma distinct_fold_get_modify:
  "distinct (map fst m) \<Longrightarrow> distinct (map fst (foldl (\<lambda>m k. get_modify f k m) m ks))"
  by (induction ks arbitrary: m) (auto simp: distinct_get_modify)

lemma set_unique [simp]: "set (unique xs) = set xs"
  by (induction xs) auto

lemma distinct_unique [simp]: "distinct (unique xs)"
  by (induction xs) auto

lemma list_ex_used_iff:
  assumes "distinct (map fst m)"
  shows "list_ex (\<lambda>(t, c). used c > 0 \<and> P t) m \<longleftrightarrow> (\<exists>t. used (lookup default_counter m t) > 0 \<and> P t)"
proof -
  have "(t, c) \<in> set m \<longleftrightarrow> map_of m t = Some c" for t c
    using assms by (metis map_of_SomeD map_of_is_SomeI)
  moreover have "used (lookup default_counter m t) > 0 \<longleftrightarrow> (\<exists>c. map_of m t = Some c \<and> used c > 0)" for t
    by (auto simp: lookup_def default_counter_def split: option.splits)
  ultimately show ?thesis by (auto simp: list_ex_iff)
qed

subsection \<open>Keys\<close>

lemma keys_repr_lookup:
  "keys_repr key m es \<Longrightarrow> map_of m k = None \<longleftrightarrow> (\<forall>e\<in>set es. key e \<noteq> k)"
  by (auto simp: keys_repr_def map_of_eq_None_iff image_image)

lemma keys_repr_length:
  assumes "keys_repr key m es"
  shows "length m = length es"
proof -
  from assms have "length m = card (set (map fst m))" "length es = card (set (map key es))"
    using distinct_card [of "map fst m"] distinct_card [of "map key es"] by (simp_all add: keys_repr_def)
  moreover from assms have "set (map fst m) = set (map key es)" by (force simp: keys_repr_def)
  ultimately show ?thesis by simp
qed

lemma keys_repr_insert:
  assumes "keys_repr key m es" "map_of m (key e) = None"
  shows "keys_repr key (AList.update (key e) (fst e) m) (es @ [e])"
proof -
  from assms(2) have "AList.update (key e) (fst e) m = m @ [(key e, fst e)]"
    by (induction m) auto
  moreover from assms have "key e \<notin> set (map key es)" "key e \<notin> set (map fst m)"
    using keys_repr_lookup [OF assms(1)] by (auto simp: map_of_eq_None_iff)
  ultimately show ?thesis using assms(1) by (auto simp: keys_repr_def)
qed

lemma keys_repr_remove:
  assumes "keys_repr key m es" "e \<in> set es" "distinct es"
  shows "keys_repr key (AList.delete (key e) m) (filter (\<lambda>e'. e' \<noteq> e) es)"
proof -
  have inj: "inj_on key (set es)" using assms(1) by (simp add: keys_repr_def distinct_map)
  have "set (AList.delete (key e) m) = {x \<in> set m. fst x \<noteq> key e}"
    by (auto simp: AList.delete_eq)
  also have "\<dots> = set (map (\<lambda>e. (key e, fst e)) (filter (\<lambda>e'. e' \<noteq> e) es))"
    using assms(1,2) inj by (auto simp: keys_repr_def inj_on_def)
  finally show ?thesis
    using assms(1) by (auto simp: keys_repr_def distinct_delete distinct_map_filter)
qed

subsection \<open>Counters\<close>

lemma count_if_snoc: "count_if P (es @ [(i, l, d)]) = count_if P es + of_bool (P l)"
  by (simp add: count_if_def)

lemma count_if_le: "count_if P es \<le> length es"
  by (simp add: count_if_def)

lemma count_if_pos: "count_if P es > 0 \<longleftrightarrow> (\<exists>(i, l, d)\<in>set es. P l)"
  by (auto simp: count_if_def filter_empty_conv)

lemma count_if_all: "count_if P es = length es \<longleftrightarrow> (\<forall>(i, l, d)\<in>set es. P l)"
proof -
  have "length (filter Q xs) = length xs \<longleftrightarrow> (\<forall>x\<in>set xs. Q x)" for Q and xs :: "leaf_entry list"
    using length_filter_less [of _ xs Q] by (cases "\<forall>x\<in>set xs. Q x") (auto, fastforce)
  then show ?thesis by (auto simp: count_if_def)
qed

lemma count_if_remove:
  assumes "distinct es" "(i, l, d) \<in> set es"
  shows "count_if P es = count_if P (filter (\<lambda>e. e \<noteq> (i, l, d)) es) + of_bool (P l)"
proof -
  have "filter (\<lambda>x. x \<noteq> e \<and> Q x) es = filter Q es" if "e \<notin> set es" for e :: leaf_entry and Q es
    by (rule filter_cong) (use that in auto)
  then show ?thesis using assms unfolding count_if_def by (induction es) auto
qed

lemma of_nat_u32_pos: "n < 2 ^ 32 \<Longrightarrow> (of_nat n :: u32) > 0 \<longleftrightarrow> n > 0"
  using of_nat_u32_inject [of n 0] by (auto simp: word_gt_0)

section \<open>Insertion and removal\<close>

definition inserted :: "tree_index \<Rightarrow> leaf_index \<Rightarrow> leaf_node \<Rightarrow> byte list \<Rightarrow> tree_index" where
  "inserted ti i leaf ident =
     (count_leaf leaf (ti\<lparr>credential_type_counters :=
        entry_modify default_counter id (cred_of leaf) (credential_type_counters ti)\<rparr>))\<lparr>
       identities := AList.update ident i (identities ti),
       credential_signature_key := AList.update (sig_of leaf) i (credential_signature_key ti),
       hpke_key := AList.update (ln_public_key leaf) i (hpke_key ti)\<rparr>"

lemma map_of_entry_modify_id: "map_of (entry_modify d id t m) t = Some (lookup d m t)"
  by (simp add: entry_modify_def update_conv' lookup_def)

lemma tree_index_insert_cases:
  obtains (accepted) "tree_index_insert ti i leaf ident = (inserted ti i leaf ident, Inr ())"
      "map_of (credential_signature_key ti) (sig_of leaf) = None" "map_of (hpke_key ti) (ln_public_key leaf) = None"
      "map_of (identities ti) ident = None"
      "\<not> list_ex (\<lambda>(t, c). used c > 0 \<and> t \<notin> caps_of leaf) (credential_type_counters ti)"
      "supported (lookup default_counter (credential_type_counters ti) (cred_of leaf)) =
         of_nat (length (credential_signature_key ti))"
  | (refused) e ti' where "tree_index_insert ti i leaf ident = (ti', Inl e)"
      "ti' = ti \<or> ti' = ti\<lparr>credential_type_counters :=
         entry_modify default_counter id (cred_of leaf) (credential_type_counters ti)\<rparr>"
      "map_of (credential_signature_key ti) (sig_of leaf) \<noteq> None \<or> map_of (hpke_key ti) (ln_public_key leaf) \<noteq> None \<or>
       map_of (identities ti) ident \<noteq> None \<or>
       list_ex (\<lambda>(t, c). used c > 0 \<and> t \<notin> caps_of leaf) (credential_type_counters ti) \<or>
       supported (lookup default_counter (credential_type_counters ti) (cred_of leaf)) \<noteq>
         of_nat (length (credential_signature_key ti))"
proof (cases "map_of (credential_signature_key ti) (sig_of leaf) = None \<and> map_of (hpke_key ti) (ln_public_key leaf) = None \<and>
    map_of (identities ti) ident = None")
  case False
  let ?check = "bindR (index_entry_free (sig_of leaf) (credential_signature_key ti)) (\<lambda>_.
      bindR (index_entry_free (ln_public_key leaf) (hpke_key ti)) (\<lambda>_. index_entry_free ident (identities ti)))"
  from False have "?check \<noteq> Inr ()" by (auto simp: index_entry_free_def split: option.splits)
  then obtain e where "?check = Inl e" by (cases ?check) auto
  then have "tree_index_insert ti i leaf ident = (ti, Inl e)"
    by (simp add: tree_index_insert_def Let_def sig_of_def)
  with False show ?thesis by (intro refused [of ti]) auto
next
  case True
  then have ins: "tree_index_insert ti i leaf ident =
    (if list_ex (\<lambda>(t, c). used c > 0 \<and> t \<notin> caps_of leaf) (credential_type_counters ti)
     then (ti, Inl InUseCredentialTypeUnsupportedByNewLeaf)
     else if supported (lookup default_counter (credential_type_counters ti) (cred_of leaf)) \<noteq>
         of_nat (length (credential_signature_key ti))
     then (ti\<lparr>credential_type_counters := entry_modify default_counter id (cred_of leaf) (credential_type_counters ti)\<rparr>,
           Inl CredentialTypeOfNewLeafIsUnsupported)
     else (inserted ti i leaf ident, Inr ()))"
    by (simp add: tree_index_insert_def Let_def index_entry_free_def sig_of_def cred_of_def caps_of_def
        inserted_def map_of_entry_modify_id)
  show ?thesis
  proof (cases "list_ex (\<lambda>(t, c). used c > 0 \<and> t \<notin> caps_of leaf) (credential_type_counters ti)")
    case True
    with ins show ?thesis by (intro refused [of ti]) auto
  next
    case in_use: False
    show ?thesis
    proof (cases "supported (lookup default_counter (credential_type_counters ti) (cred_of leaf)) =
         of_nat (length (credential_signature_key ti))")
      case False
      with in_use ins show ?thesis by (intro refused [OF _ disjI2 [OF refl]]) simp_all
    next
      case True
      with in_use ins \<open>_ = None \<and> _\<close> show ?thesis by (intro accepted) simp_all
    qed
  qed
qed

lemma index_repr_in_use:
  assumes repr: "index_repr ti es" and len: "length es < 2 ^ 32"
  shows "list_ex (\<lambda>(t, c). used c > 0 \<and> t \<notin> caps_of leaf) (credential_type_counters ti) \<longleftrightarrow>
      (\<exists>(j, l, d)\<in>set es. cred_of l \<notin> caps_of leaf)"
proof -
  note defs = repr [unfolded index_repr_def]
  have "used (lookup default_counter (credential_type_counters ti) t) > 0 \<longleftrightarrow> (\<exists>(j, l, d)\<in>set es. cred_of l = t)" for t
    using defs of_nat_u32_pos [of "count_if (\<lambda>l. cred_of l = t) es"]
      order_le_less_trans [OF count_if_le [of "\<lambda>l. cred_of l = t" es] len]
    by (simp add: count_if_pos)
  then show ?thesis using defs by (auto simp: list_ex_used_iff)
qed

lemma index_repr_supported:
  assumes repr: "index_repr ti es" and len: "length es < 2 ^ 32"
  shows "supported (lookup default_counter (credential_type_counters ti) t) =
           of_nat (length (credential_signature_key ti)) \<longleftrightarrow> (\<forall>(j, l, d)\<in>set es. t \<in> caps_of l)"
proof -
  note defs = repr [unfolded index_repr_def]
  have "length (credential_signature_key ti) = length es" using defs keys_repr_length by blast
  then show ?thesis
    using defs of_nat_u32_inject [of "count_if (\<lambda>l. t \<in> caps_of l) es" "length es"] len
      order_le_less_trans [OF count_if_le [of "\<lambda>l. t \<in> caps_of l" es] len]
    by (simp add: count_if_all)
qed

lemma index_repr_keys:
  assumes "index_repr ti es"
  shows "map_of (credential_signature_key ti) (sig_of leaf) = None \<longleftrightarrow> (\<forall>(j, l, d)\<in>set es. sig_of l \<noteq> sig_of leaf)"
    and "map_of (hpke_key ti) (ln_public_key leaf) = None \<longleftrightarrow> (\<forall>(j, l, d)\<in>set es. ln_public_key l \<noteq> ln_public_key leaf)"
    and "map_of (identities ti) ident = None \<longleftrightarrow> (\<forall>(j, l, d)\<in>set es. d \<noteq> ident)"
  using assms keys_repr_lookup [of "\<lambda>(_, l, _). sig_of l" "credential_signature_key ti" es "sig_of leaf"]
    keys_repr_lookup [of "\<lambda>(_, l, _). ln_public_key l" "hpke_key ti" es "ln_public_key leaf"]
    keys_repr_lookup [of "\<lambda>(_, _, i). i" "identities ti" es ident]
  by (simp_all add: index_repr_def split_beta)

lemma index_repr_accepts:
  assumes repr: "index_repr ti es" and len: "length es < 2 ^ 32"
  shows "snd (tree_index_insert ti i leaf ident) = Inr () \<longleftrightarrow> (\<forall>(j, l, d)\<in>set es. compatible leaf ident l d)"
proof -
  note facts = index_repr_in_use [OF repr len, of leaf] index_repr_supported [OF repr len, of "cred_of leaf"]
    index_repr_keys(1,2) [OF repr, of leaf] index_repr_keys(3) [OF repr, of ident]
  show ?thesis
  proof (cases rule: tree_index_insert_cases [of ti i leaf ident])
    case accepted
    then show ?thesis unfolding facts by (fastforce simp: compatible_def)
  next
    case (refused e ti')
    from refused(3) refused(1) show ?thesis unfolding facts by (fastforce simp: compatible_def)
  qed
qed

lemma index_repr_touch:
  "index_repr ti es \<Longrightarrow>
   index_repr (ti\<lparr>credential_type_counters := entry_modify default_counter id t (credential_type_counters ti)\<rparr>) es"
  by (simp add: index_repr_def lookup_entry_modify_id distinct_entry_modify count_supporting_proposal_def)

lemma index_repr_refused:
  "index_repr ti es \<Longrightarrow> tree_index_insert ti i leaf ident = (ti', Inl e) \<Longrightarrow> index_repr ti' es"
  by (cases rule: tree_index_insert_cases [of ti i leaf ident]) (auto simp: index_repr_touch)

lemma count_leaf_counters:
  "used (lookup default_counter (credential_type_counters (count_leaf leaf ti)) t) =
     used (lookup default_counter (credential_type_counters ti) t) + of_bool (cred_of leaf = t)"
  "supported (lookup default_counter (credential_type_counters (count_leaf leaf ti)) t) =
     supported (lookup default_counter (credential_type_counters ti) t) + of_bool (t \<in> caps_of leaf)"
  "count_supporting_proposal (count_leaf leaf ti) t =
     count_supporting_proposal ti t + of_bool (t \<in> set (cap_proposals (ln_capabilities leaf)))"
  by (auto simp: count_leaf_def lookup_fold_entry_modify lookup_entry_modify cred_of_def caps_of_def
      count_supporting_proposal_def lookup_fold_entry_modify [of _ 0 "\<lambda>c. c + 1" for c, unfolded lookup_def])

lemma index_repr_inserted:
  assumes repr: "index_repr ti es" and ins: "tree_index_insert ti i leaf ident = (ti', Inr ())"
  shows "index_repr ti' (es @ [(i, leaf, ident)])"
proof (cases rule: tree_index_insert_cases [of ti i leaf ident])
  case accepted
  note defs = index_repr_touch [OF repr, of "cred_of leaf", unfolded index_repr_def]
  from accepted ins have ti': "ti' = inserted ti i leaf ident" by simp
  have "keys_repr (\<lambda>(_, l, _). sig_of l) (credential_signature_key ti') (es @ [(i, leaf, ident)])"
    "keys_repr (\<lambda>(_, l, _). ln_public_key l) (hpke_key ti') (es @ [(i, leaf, ident)])"
    "keys_repr (\<lambda>(_, _, i). i) (identities ti') (es @ [(i, leaf, ident)])"
    using defs accepted(2-4)
      keys_repr_insert [of "\<lambda>(_, l, _). sig_of l" "credential_signature_key ti" es "(i, leaf, ident)"]
      keys_repr_insert [of "\<lambda>(_, l, _). ln_public_key l" "hpke_key ti" es "(i, leaf, ident)"]
      keys_repr_insert [of "\<lambda>(_, _, i). i" "identities ti" es "(i, leaf, ident)"]
    by (simp_all add: ti' inserted_def)
  moreover have "credential_type_counters ti' = credential_type_counters (count_leaf leaf (ti\<lparr>credential_type_counters :=
        entry_modify default_counter id (cred_of leaf) (credential_type_counters ti)\<rparr>))"
    "count_supporting_proposal ti' = count_supporting_proposal (count_leaf leaf (ti\<lparr>credential_type_counters :=
        entry_modify default_counter id (cred_of leaf) (credential_type_counters ti)\<rparr>))"
    by (auto simp: ti' inserted_def count_supporting_proposal_def)
  moreover have "distinct (map fst (credential_type_counters (count_leaf leaf (ti\<lparr>credential_type_counters :=
        entry_modify default_counter id (cred_of leaf) (credential_type_counters ti)\<rparr>))))"
    using defs by (simp add: count_leaf_def distinct_fold_entry_modify distinct_entry_modify)
  ultimately show ?thesis
    using defs unfolding index_repr_def
    by (simp only: count_leaf_counters count_if_snoc) simp
qed (use ins in simp)

lemma index_repr_distinct: "index_repr ti es \<Longrightarrow> distinct es"
  by (auto simp: index_repr_def keys_repr_def distinct_map)

lemma uncount_leaf_counters:
  assumes "\<And>t. t \<in> caps_of leaf \<Longrightarrow> supported (lookup default_counter (credential_type_counters ti) t) \<noteq> 0"
    and "used (lookup default_counter (credential_type_counters ti) (cred_of leaf)) \<noteq> 0"
    and "\<And>t. t \<in> set (cap_proposals (ln_capabilities leaf)) \<Longrightarrow> count_supporting_proposal ti t \<noteq> 0"
  shows "used (lookup default_counter (credential_type_counters (uncount_leaf leaf ti)) t) =
      used (lookup default_counter (credential_type_counters ti) t) - of_bool (cred_of leaf = t)"
    and "supported (lookup default_counter (credential_type_counters (uncount_leaf leaf ti)) t) =
      supported (lookup default_counter (credential_type_counters ti) t) - of_bool (t \<in> caps_of leaf)"
    and "count_supporting_proposal (uncount_leaf leaf ti) t =
      count_supporting_proposal ti t - of_bool (t \<in> set (cap_proposals (ln_capabilities leaf)))"
proof -
  define m where "m = get_modify (\<lambda>c. c\<lparr>used := used c - 1\<rparr>) (cred_of leaf) (credential_type_counters ti)"
  have "map_of (credential_type_counters ti) (cred_of leaf) \<noteq> None"
    using assms(2) by (auto simp: lookup_def default_counter_def split: option.splits)
  then have m: "lookup default_counter m t = (if t = cred_of leaf
      then (lookup default_counter (credential_type_counters ti) t)
        \<lparr>used := used (lookup default_counter (credential_type_counters ti) t) - 1\<rparr>
      else lookup default_counter (credential_type_counters ti) t)" for t
    by (simp add: m_def lookup_get_modify)
  have ne: "lookup default_counter m t \<noteq> default_counter" if "t \<in> set (unique (cap_credentials (ln_capabilities leaf)))" for t
  proof -
    have "supported (lookup default_counter m t) \<noteq> 0" using that assms(1) [of t] by (auto simp: m caps_of_def)
    then show ?thesis by (auto simp: default_counter_def)
  qed
  have l: "lookup default_counter (foldl (\<lambda>m t. get_modify (\<lambda>c. c\<lparr>supported := supported c - 1\<rparr>) t m) m
        (unique (cap_credentials (ln_capabilities leaf)))) t =
      (if t \<in> caps_of leaf then (lookup default_counter m t)\<lparr>supported := supported (lookup default_counter m t) - 1\<rparr>
       else lookup default_counter m t)" for t
    using lookup_fold_get_modify [OF distinct_unique ne] by (simp add: caps_of_def)
  have "credential_type_counters (uncount_leaf leaf ti) =
      foldl (\<lambda>m t. get_modify (\<lambda>c. c\<lparr>supported := supported c - 1\<rparr>) t m) m (unique (cap_credentials (ln_capabilities leaf)))"
    by (simp add: uncount_leaf_def m_def cred_of_def)
  then show "used (lookup default_counter (credential_type_counters (uncount_leaf leaf ti)) t) =
      used (lookup default_counter (credential_type_counters ti) t) - of_bool (cred_of leaf = t)"
    "supported (lookup default_counter (credential_type_counters (uncount_leaf leaf ti)) t) =
      supported (lookup default_counter (credential_type_counters ti) t) - of_bool (t \<in> caps_of leaf)"
    by (auto simp: l m caps_of_def)
  have ne: "lookup 0 (proposal_type_counter ti) t \<noteq> 0" if "t \<in> set (unique (cap_proposals (ln_capabilities leaf)))" for t
    using that assms(3) [of t] by (simp add: count_supporting_proposal_def lookup_def)
  have p: "lookup 0 (foldl (\<lambda>m t. get_modify (\<lambda>c. c - 1) t m) (proposal_type_counter ti)
        (unique (cap_proposals (ln_capabilities leaf)))) t =
      lookup 0 (proposal_type_counter ti) t - of_bool (t \<in> set (cap_proposals (ln_capabilities leaf)))" for t
    using lookup_fold_get_modify [OF distinct_unique ne] by simp
  have "count_supporting_proposal ti t = lookup 0 (proposal_type_counter ti) t" for ti t
    by (simp add: count_supporting_proposal_def lookup_def)
  then show "count_supporting_proposal (uncount_leaf leaf ti) t =
      count_supporting_proposal ti t - of_bool (t \<in> set (cap_proposals (ln_capabilities leaf)))"
    by (simp add: p uncount_leaf_def)
qed

lemma index_repr_removed:
  assumes repr: "index_repr ti es" and len: "length es < 2 ^ 32" and e: "(i, leaf, ident) \<in> set es"
  shows "index_repr (tree_index_remove ti leaf ident) (filter (\<lambda>x. x \<noteq> (i, leaf, ident)) es)"
proof -
  note defs = repr [unfolded index_repr_def]
  note dist = index_repr_distinct [OF repr]
  let ?ti = "ti\<lparr>identities := AList.delete ident (identities ti),
    credential_signature_key := AList.delete (sig_of leaf) (credential_signature_key ti),
    hpke_key := AList.delete (ln_public_key leaf) (hpke_key ti)\<rparr>"
  from e have "map_of (identities ti) ident \<noteq> None"
    using index_repr_keys(3) [OF repr, of ident] by auto
  then have ti': "tree_index_remove ti leaf ident = uncount_leaf leaf ?ti"
    by (simp add: tree_index_remove_def sig_of_def)
  have pos: "of_nat (count_if P es) \<noteq> (0 :: u32)" if "P leaf" for P
  proof -
    from that e have "count_if P es > 0" by (auto simp: count_if_pos)
    with order_le_less_trans [OF count_if_le [of P es] len] show ?thesis
      using of_nat_u32_inject [of "count_if P es" 0] by simp
  qed
  have c: "used (lookup default_counter (credential_type_counters (uncount_leaf leaf ?ti)) t) =
      used (lookup default_counter (credential_type_counters ti) t) - of_bool (cred_of leaf = t)"
    "supported (lookup default_counter (credential_type_counters (uncount_leaf leaf ?ti)) t) =
      supported (lookup default_counter (credential_type_counters ti) t) - of_bool (t \<in> caps_of leaf)"
    "count_supporting_proposal (uncount_leaf leaf ?ti) t =
      count_supporting_proposal ti t - of_bool (t \<in> set (cap_proposals (ln_capabilities leaf)))" for t
    by (subst uncount_leaf_counters; use defs in \<open>simp add: pos count_supporting_proposal_def\<close>)+
  have k: "keys_repr key (AList.delete (key (i, leaf, ident)) m) (filter (\<lambda>x. x \<noteq> (i, leaf, ident)) es)"
    if "keys_repr key m es" for key :: "leaf_entry \<Rightarrow> byte list" and m
    using keys_repr_remove [OF that e dist] .
  have cnt: "(of_nat (count_if P es) :: u32) - of_bool (P leaf) = of_nat (count_if P (filter (\<lambda>x. x \<noteq> (i, leaf, ident)) es))" for P
    using count_if_remove [OF dist e, of P] by simp
  show ?thesis
    unfolding ti' index_repr_def c
    using defs k [of "\<lambda>(_, l, _). sig_of l" "credential_signature_key ti"]
      k [of "\<lambda>(_, l, _). ln_public_key l" "hpke_key ti"] k [of "\<lambda>(_, _, i). i" "identities ti"]
      cnt [of "\<lambda>l. cred_of l = t" for t] cnt [of "\<lambda>l. t \<in> caps_of l" for t]
      cnt [of "\<lambda>l. t \<in> set (cap_proposals (ln_capabilities l))" for t]
    by (simp add: uncount_leaf_def distinct_fold_get_modify distinct_get_modify)
qed

section \<open>The contract of a leaf registry\<close>

text \<open>
  What the tree relies on: a registry represents a list of leaves, accepts a new leaf exactly where it is
  compatible with all of them, and keeps representing them. The consequence for a client: whatever the
  sequence of insertions and removals, the leaves that are in are pairwise compatible.
\<close>

datatype leaf_op = Op_Insert leaf_entry | Op_Remove leaf_entry

fun leaf_ops_run ::
    "('ix \<Rightarrow> leaf_index \<Rightarrow> leaf_node \<Rightarrow> byte list \<Rightarrow> 'ix \<times> unit res) \<Rightarrow> ('ix \<Rightarrow> leaf_node \<Rightarrow> byte list \<Rightarrow> 'ix) \<Rightarrow>
     'ix \<times> leaf_entry list \<Rightarrow> leaf_op list \<Rightarrow> 'ix \<times> leaf_entry list" where
  "leaf_ops_run ins del (ix, es) [] = (ix, es)"
| "leaf_ops_run ins del (ix, es) (Op_Insert (i, l, d) # ops) =
     (case ins ix i l d of
        (ix', Inr _) \<Rightarrow> leaf_ops_run ins del (ix', es @ [(i, l, d)]) ops
      | (ix', Inl _) \<Rightarrow> leaf_ops_run ins del (ix', es) ops)"
| "leaf_ops_run ins del (ix, es) (Op_Remove (i, l, d) # ops) =
     (if (i, l, d) \<in> set es
      then leaf_ops_run ins del (del ix l d, filter (\<lambda>x. x \<noteq> (i, l, d)) es) ops
      else leaf_ops_run ins del (ix, es) ops)"

fun pairwise_compatible :: "leaf_entry list \<Rightarrow> bool" where
  "pairwise_compatible [] = True"
| "pairwise_compatible ((i, l, d) # es) =
     ((\<forall>(_, l', d')\<in>set es. compatible l d l' d') \<and> pairwise_compatible es)"

lemma compatible_sym: "compatible l d l' d' \<longleftrightarrow> compatible l' d' l d"
  by (auto simp: compatible_def)

lemma pairwise_snoc:
  "pairwise_compatible (es @ [(i, l, d)]) \<longleftrightarrow>
     pairwise_compatible es \<and> (\<forall>(_, l', d')\<in>set es. compatible l d l' d')"
  by (induction es) (auto simp: compatible_sym)

lemma pairwise_filter: "pairwise_compatible es \<Longrightarrow> pairwise_compatible (filter P es)"
  by (induction es) auto

locale leaf_registry =
  fixes repr :: "'ix \<Rightarrow> leaf_entry list \<Rightarrow> bool"
    and ins :: "'ix \<Rightarrow> leaf_index \<Rightarrow> leaf_node \<Rightarrow> byte list \<Rightarrow> 'ix \<times> unit res"
    and del :: "'ix \<Rightarrow> leaf_node \<Rightarrow> byte list \<Rightarrow> 'ix"
  assumes ins_accepts: "repr ix es \<Longrightarrow> length es < 2 ^ 32 \<Longrightarrow>
      snd (ins ix i l d) = Inr () \<longleftrightarrow> (\<forall>(_, l', d')\<in>set es. compatible l d l' d')"
    and ins_repr: "repr ix es \<Longrightarrow> ins ix i l d = (ix', Inr ()) \<Longrightarrow> repr ix' (es @ [(i, l, d)])"
    and ins_refused: "repr ix es \<Longrightarrow> ins ix i l d = (ix', Inl e) \<Longrightarrow> repr ix' es"
    and del_repr: "repr ix es \<Longrightarrow> length es < 2 ^ 32 \<Longrightarrow> (i, l, d) \<in> set es \<Longrightarrow>
      repr (del ix l d) (filter (\<lambda>x. x \<noteq> (i, l, d)) es)"
begin

lemma ops_invariant:
  "repr ix es \<Longrightarrow> pairwise_compatible es \<Longrightarrow> length es + length ops < 2 ^ 32 \<Longrightarrow>
   leaf_ops_run ins del (ix, es) ops = (ix', es') \<Longrightarrow> repr ix' es' \<and> pairwise_compatible es'"
proof (induction ops arbitrary: ix es)
  case (Cons op ops)
  from Cons.prems have len: "length es < 2 ^ 32" by simp
  show ?case
  proof (cases op)
    case (Op_Insert e)
    obtain i l d where e: "e = (i, l, d)" by (cases e)
    obtain ix'' r where ins: "ins ix i l d = (ix'', r)" by (cases "ins ix i l d")
    show ?thesis
    proof (cases r)
      case (Inl err)
      with ins have "repr ix'' es" using ins_refused [OF Cons.prems(1)] by simp
      then show ?thesis
        using Cons.IH [of ix'' es] Cons.prems(2-) Op_Insert e ins Inl by simp
    next
      case (Inr u)
      with ins have "pairwise_compatible (es @ [(i, l, d)])"
        using ins_accepts [OF Cons.prems(1) len, of i l d] Cons.prems(2) by (simp add: pairwise_snoc)
      moreover from ins Inr have "repr ix'' (es @ [(i, l, d)])" using ins_repr [OF Cons.prems(1)] by simp
      ultimately show ?thesis
        using Cons.IH [of ix'' "es @ [(i, l, d)]"] Cons.prems(3-) Op_Insert e ins Inr by simp
    qed
  next
    case (Op_Remove e)
    obtain i l d where e: "e = (i, l, d)" by (cases e)
    have "length (filter (\<lambda>x. x \<noteq> (i, l, d)) es) + length ops < 2 ^ 32"
      by (rule order_le_less_trans [OF add_right_mono [OF length_filter_le]]) (use Cons.prems(3) in simp)
    then show ?thesis
      using Cons.IH [of "del ix l d" "filter (\<lambda>x. x \<noteq> (i, l, d)) es"] Cons.IH [of ix es] Cons.prems Op_Remove e
        del_repr [OF Cons.prems(1) len, of i l d] pairwise_filter [OF Cons.prems(2)]
      by (cases "(i, l, d) \<in> set es") simp_all
  qed
qed simp

end

interpretation registry: leaf_registry index_repr tree_index_insert tree_index_remove
  by unfold_locales
    (rule index_repr_accepts index_repr_inserted index_repr_refused index_repr_removed; assumption)+

lemma index_repr_new: "index_repr tree_index_new []"
  by (simp add: index_repr_def tree_index_new_def keys_repr_def lookup_def default_counter_def count_if_def
      count_supporting_proposal_def)

section \<open>Both builds accept the same leaves\<close>

lemma foldR_unit_iff: "foldR (\<lambda>_. f) () xs = Inr () \<longleftrightarrow> (\<forall>x\<in>set xs. f x = Inr ())"
  by (induction xs) auto

lemma check_leaf_pair_iff:
  "check_leaf_pair new new_id i l idp exts = Inr () \<longleftrightarrow>
     (\<exists>d. identity_of idp (ln_signing_identity l) exts = Inr d \<and> compatible new new_id l d)"
  by (auto simp: check_leaf_pair_def guardR_eq compatible_def sig_of_def cred_of_def caps_of_def)

lemma index_insert_scan_equiv:
  assumes "index_repr ti es" "length es < 2 ^ 32"
    and "set (map (\<lambda>(i, l, _). (i, l)) es) = set (filter (\<lambda>(i, _). i \<noteq> idx) (non_empty_leaves nodes))"
    and "\<forall>(i, l, d)\<in>set es. identity_of idp (ln_signing_identity l) exts = Inr d"
  shows "snd (index_insert ti new idx idp exts) = Inr () \<longleftrightarrow> index_insert_scan nodes new idx idp exts = Inr ()"
proof (cases "identity_of idp (ln_signing_identity new) exts")
  case (Inl e)
  then show ?thesis by (simp add: index_insert_def index_insert_scan_def)
next
  case (Inr new_id)
  have "index_insert_scan nodes new idx idp exts = Inr () \<longleftrightarrow>
      (\<forall>(i, l)\<in>set (map (\<lambda>(i, l, _). (i, l)) es). check_leaf_pair new new_id i l idp exts = Inr ())"
    unfolding assms(3) by (simp add: index_insert_scan_def Inr foldR_unit_iff split_beta)
  also have "\<dots> \<longleftrightarrow> (\<forall>(i, l, d)\<in>set es. compatible new new_id l d)"
    using assms(4) by (fastforce simp: check_leaf_pair_iff)
  finally show ?thesis
    using index_repr_accepts [OF assms(1,2)] by (simp add: index_insert_def Inr)
qed

section \<open>Properties\<close>


definition sample_ops :: "leaf_op list" where
  "sample_ops = [Op_Insert (0, sample_leaf 1, [1]), Op_Insert (1, sample_leaf 1, [2]), Op_Insert (1, sample_leaf 2, [2]),
     Op_Remove (0, sample_leaf 1, [1]), Op_Insert (0, sample_leaf 3, [3])]"


text \<open>
  C10. A build with the tree index accepts a new leaf exactly if a build without it does: the checks against
  hash maps and counters are equivalent to the scan of all the other leaves of the tree.
\<close>
theorem index_agrees_with_scan:
  assumes "index_repr ti es" "length es < 2 ^ 32"
    and "set (map (\<lambda>(i, l, _). (i, l)) es) = set (filter (\<lambda>(i, _). i \<noteq> idx) (non_empty_leaves nodes))"
    and "\<forall>(i, l, d)\<in>set es. identity_of idp (ln_signing_identity l) exts = Inr d"
  shows "snd (index_insert ti new idx idp exts) = Inr () \<longleftrightarrow> index_insert_scan nodes new idx idp exts = Inr ()"
  using assms by (rule index_insert_scan_equiv)

lemma sample_index_repr:
  "index_repr (fst (tree_index_insert tree_index_new 0 (sample_leaf 1) [1])) [(0, sample_leaf 1, [1])]"
proof -
  have "snd (tree_index_insert tree_index_new 0 (sample_leaf 1) [1]) = Inr ()" by code_simp
  then show ?thesis
    using index_repr_inserted [OF index_repr_new, of 0 "sample_leaf 1" "[1]"] by (simp add: prod_eq_iff)
qed

theorem index_agrees_with_scan_witness:
  "index_insert_scan [Some (Leaf (sample_leaf 1)), None, None] (sample_leaf 2) 1 sample_idp [] = Inr ()"
proof -
  let ?ti = "fst (tree_index_insert tree_index_new 0 (sample_leaf 1) [1])"
  have 1: "set (map (\<lambda>(i, l, _). (i, l)) [(0, sample_leaf 1, [1::u8])]) =
      set (filter (\<lambda>(i, _). i \<noteq> 1) (non_empty_leaves [Some (Leaf (sample_leaf 1)), None, None]))" by code_simp
  have 2: "\<forall>(i, l, d)\<in>set [(0::leaf_index, sample_leaf 1, [1])]. identity_of sample_idp (ln_signing_identity l) [] = Inr d"
    by code_simp
  have 3: "snd (index_insert ?ti (sample_leaf 2) 1 sample_idp []) = Inr ()" by code_simp
  show ?thesis using index_agrees_with_scan [OF sample_index_repr _ 1 2, of "sample_leaf 2"] 3 by simp
qed

end
