(* ===== verification/TreeHash.thy ===== *)
theory TreeHash
  imports TreeIndex
begin

text \<open>
  The public state of a ratchet tree and its tree hashes (\<^verbatim>\<open>mls-rs/src/tree_kem/tree_hash.rs\<close>). The hash of
  every node is cached; after an edit only the paths of the edited leaves are hashed again, level by
  level through a queue. The lemmas show that this keeps the cache equal to the hashes computed by
  recursion on the tree.
\<close>

section \<open>State and hash inputs\<close>

record tree_kem_public =
  tk_index :: tree_index
  tk_nodes :: node_vec
  tk_hashes :: "byte list list"

definition tree_kem_new :: tree_kem_public where
  "tree_kem_new = \<lparr>tk_index = tree_index_new, tk_nodes = [], tk_hashes = []\<rparr>"

datatype tree_hash_input =
    TH_Leaf leaf_index "leaf_node option"
  | TH_Parent "parent option" "byte list" "byte list"

definition tree_hash_input_codec :: "tree_hash_input codec" where
  "tree_hash_input_codec = enum_codec TYPE(u8)
     [variant_of 1 (\<lambda>t. case t of TH_Leaf i l \<Rightarrow> Some (i, l) | _ \<Rightarrow> None) (\<lambda>(i, l). TH_Leaf i l)
        (pair_codec leaf_index_codec (option_codec leaf_node_codec)),
      variant_of 2 (\<lambda>t. case t of TH_Parent p l r \<Rightarrow> Some (p, l, r) | _ \<Rightarrow> None) (\<lambda>(p, l, r). TH_Parent p l r)
        (pair_codec (option_codec parent_codec) (pair_codec byte_vec_codec byte_vec_codec))]"

definition hash_for_leaf :: "leaf_index \<Rightarrow> leaf_node option \<Rightarrow> cipher_suite_provider \<Rightarrow> byte list res" where
  "hash_for_leaf leaf_index leaf_node csp =
     bindR (codecR (c_enc tree_hash_input_codec (TH_Leaf leaf_index leaf_node))) (\<lambda>input. crypto (csp_hash csp input))"

definition hash_for_parent ::
    "parent option \<Rightarrow> cipher_suite_provider \<Rightarrow> leaf_index list \<Rightarrow> byte list \<Rightarrow> byte list \<Rightarrow> byte list res" where
  "hash_for_parent parent_node csp filtered_leaves left_hash right_hash =
     (let parent_node = map_option (\<lambda>p. p\<lparr>p_unmerged_leaves := filter (\<lambda>l. l \<notin> set filtered_leaves) (p_unmerged_leaves p)\<rparr>)
            parent_node
      in bindR (codecR (c_enc tree_hash_input_codec (TH_Parent parent_node left_hash right_hash)))
           (\<lambda>input. crypto (csp_hash csp input)))"

section \<open>Hashing\<close>

definition resize :: "nat \<Rightarrow> 'a \<Rightarrow> 'a list \<Rightarrow> 'a list" where
  "resize n x xs = take n xs @ replicate (n - length xs) x"

definition index_or_panic :: "'a list \<Rightarrow> nat \<Rightarrow> 'a res" where
  "index_or_panic xs i = ok_or (get_at xs i) Mls_Panic"

definition update_or_panic :: "'a list \<Rightarrow> nat \<Rightarrow> 'a \<Rightarrow> 'a list res" where
  "update_or_panic xs i x = (if i < length xs then Inr (xs[i := x]) else Inl Mls_Panic)"

text \<open>One round of the loop over the leaves: the hash of the leaf, and its parent put on the queue.\<close>

definition hash_leaf_step ::
    "node_vec \<Rightarrow> leaf_index list \<Rightarrow> u32 \<Rightarrow> cipher_suite_provider \<Rightarrow>
     byte list list \<times> node_index list \<Rightarrow> leaf_index \<Rightarrow> (byte list list \<times> node_index list) res" where
  "hash_leaf_step nodes filtered_leaves num_leaves csp = (\<lambda>(hashes, queue) l.
     bindR (hash_for_leaf l (if l \<notin> set filtered_leaves then okR (borrow_as_leaf nodes l) else None) csp) (\<lambda>h.
     bindR (update_or_panic hashes (2 * unat l) h) (\<lambda>hashes.
       Inr (hashes, case parent_sibling_of (2 * l) num_leaves of Some ps \<Rightarrow> queue @ [parent_sibling.parent ps] | None \<Rightarrow> queue))))"

definition hash_parent_step ::
    "node_vec \<Rightarrow> leaf_index list \<Rightarrow> cipher_suite_provider \<Rightarrow> byte list list \<Rightarrow> node_index \<Rightarrow> byte list list res" where
  "hash_parent_step nodes filtered_leaves csp hashes n =
     bindR (index_or_panic hashes (unat (left_unchecked n))) (\<lambda>lh.
     bindR (index_or_panic hashes (unat (right_unchecked n))) (\<lambda>rh.
     bindR (hash_for_parent (okR (borrow_as_parent nodes n)) csp filtered_leaves lh rh) (\<lambda>h.
       update_or_panic hashes (unat n) h)))"

partial_function (option) hash_queue ::
    "node_vec \<Rightarrow> leaf_index list \<Rightarrow> u32 \<Rightarrow> cipher_suite_provider \<Rightarrow> byte list list \<Rightarrow> node_index list \<Rightarrow>
     byte list list res option" where
  [code]: "hash_queue nodes filtered_leaves num_leaves csp hashes queue =
     (case queue of
        [] \<Rightarrow> Some (Inr hashes)
      | n # queue \<Rightarrow>
          (case hash_parent_step nodes filtered_leaves csp hashes n of
             Inl e \<Rightarrow> Some (Inl e)
           | Inr hashes \<Rightarrow> hash_queue nodes filtered_leaves num_leaves csp hashes
               (case parent_sibling_of n num_leaves of
                  Some ps \<Rightarrow> queue @ [parent_sibling.parent ps] | None \<Rightarrow> queue)))"

definition divergesR :: "'a res option \<Rightarrow> 'a res" where
  "divergesR m = (case m of Some r \<Rightarrow> r | None \<Rightarrow> Inl Mls_Diverges)"

definition tree_hash ::
    "byte list list \<Rightarrow> node_vec \<Rightarrow> leaf_index list option \<Rightarrow> leaf_index list \<Rightarrow> u32 \<Rightarrow> cipher_suite_provider \<Rightarrow>
     byte list list res" where
  "tree_hash hashes nodes leaves_to_update filtered_leaves num_leaves csp =
     (let leaves = (case leaves_to_update of Some ls \<Rightarrow> ls | None \<Rightarrow> map of_nat [0..<unat num_leaves]);
          hashes = resize (unat num_leaves * 2 - 1) [] hashes
      in bindR (foldR (hash_leaf_step nodes filtered_leaves num_leaves csp) (hashes, [])
                 (filter (\<lambda>l. l < num_leaves) leaves)) (\<lambda>(hashes, queue).
         divergesR (hash_queue nodes filtered_leaves num_leaves csp hashes queue)))"

definition initialize_hashes :: "tree_kem_public \<Rightarrow> cipher_suite_provider \<Rightarrow> tree_kem_public res" where
  "initialize_hashes tree csp =
     (if tk_hashes tree = []
      then bindR (tree_hash (tk_hashes tree) (tk_nodes tree) None [] (total_leaf_count (tk_nodes tree)) csp)
             (\<lambda>hs. Inr (tree\<lparr>tk_hashes := hs\<rparr>))
      else Inr tree)"

definition tk_tree_hash :: "tree_kem_public \<Rightarrow> cipher_suite_provider \<Rightarrow> (tree_kem_public \<times> byte list) res" where
  "tk_tree_hash tree csp =
     bindR (initialize_hashes tree csp) (\<lambda>tree.
     bindR (index_or_panic (tk_hashes tree) (unat (root_index (total_leaf_count (tk_nodes tree))))) (\<lambda>h.
       Inr (tree, h)))"

text \<open>The leaves the cache has no hash for, from the right end of the tree.\<close>

definition missing_leaves :: "byte list list \<Rightarrow> u32 \<Rightarrow> leaf_index list" where
  "missing_leaves hashes num_leaves =
     takeWhile (\<lambda>l. get_at hashes (2 * unat l) = None) (rev (map of_nat [0..<unat num_leaves]))"

definition update_hashes :: "tree_kem_public \<Rightarrow> leaf_index list \<Rightarrow> cipher_suite_provider \<Rightarrow> tree_kem_public res" where
  "update_hashes tree updated_leaves csp =
     (let num_leaves = total_leaf_count (tk_nodes tree)
      in bindR (tree_hash (tk_hashes tree) (tk_nodes tree)
                 (Some (updated_leaves @ missing_leaves (tk_hashes tree) num_leaves)) [] num_leaves csp)
           (\<lambda>hs. Inr (tree\<lparr>tk_hashes := hs\<rparr>)))"

section \<open>Original hashes\<close>

definition unmerged_in_subtree :: "node_vec \<Rightarrow> node_index \<Rightarrow> node_index \<Rightarrow> leaf_index list res" where
  "unmerged_in_subtree nodes node_unmerged subtree_root =
     bindR (borrow_as_parent nodes node_unmerged) (\<lambda>p.
       let st = subtree subtree_root
       in Inr (takeWhile (\<lambda>l. l < st_right st) (dropWhile (\<lambda>l. l < st_left st) (p_unmerged_leaves p))))"

definition different_unmerged :: "node_vec \<Rightarrow> node_index \<Rightarrow> node_index \<Rightarrow> bool res" where
  "different_unmerged nodes ancestor descendant =
     bindR (is_blank nodes ancestor) (\<lambda>b. if b then Inr False else
     bindR (is_blank nodes descendant) (\<lambda>b. if b then Inr False else
     bindR (unmerged_in_subtree nodes ancestor descendant) (\<lambda>u.
     bindR (borrow_as_parent nodes descendant) (\<lambda>p. Inr (u \<noteq> p_unmerged_leaves p)))))"

definition last_or_panic :: "'a list \<Rightarrow> 'a res" where
  "last_or_panic xs = (if xs = [] then Inl Mls_Panic else Inr (last xs))"

fun original_sets ::
    "node_vec \<Rightarrow> u32 \<Rightarrow> cipher_suite_provider \<Rightarrow> nat list \<Rightarrow>
     node_index list list \<times> byte list list list \<Rightarrow> (node_index list list \<times> byte list list list) res" where
  "original_sets nodes num_leaves csp [] st = Inr st"
| "original_sets nodes num_leaves csp (n # ns) (filtered_sets, tree_hashes) =
     (case parent_sibling_of (of_nat n) num_leaves of
        None \<Rightarrow> Inr (filtered_sets, tree_hashes)
      | Some ps \<Rightarrow>
          let p = parent_sibling.parent ps in
          bindR (index_or_panic filtered_sets (unat p)) (\<lambda>p_set.
          bindR (update_or_panic filtered_sets n p_set) (\<lambda>filtered_sets.
          bindR (last_or_panic p_set) (\<lambda>a.
          bindR (different_unmerged nodes a p) (\<lambda>d.
            if d then
              bindR (index_or_panic tree_hashes (unat p)) (\<lambda>hs.
              bindR (borrow_as_parent nodes p) (\<lambda>pn.
              bindR (tree_hash hs nodes (Some (into_iter (subtree (of_nat n)))) (p_unmerged_leaves pn) num_leaves csp)
                (\<lambda>hs. original_sets nodes num_leaves csp ns
                        (filtered_sets[n := p_set @ [p]], tree_hashes[unat p := hs]))))
            else original_sets nodes num_leaves csp ns (filtered_sets, tree_hashes))))))"

definition root_original_hashes :: "node_vec \<Rightarrow> u32 \<Rightarrow> cipher_suite_provider \<Rightarrow> byte list list option res" where
  "root_original_hashes nodes num_leaves csp =
     (let root = root_index num_leaves in
      bindR (is_blank nodes root) (\<lambda>b.
        if \<not> b \<and> \<not> nv_is_leaf root then
          bindR (borrow_as_parent nodes root) (\<lambda>p.
            if p_unmerged_leaves p \<noteq> []
            then bindR (tree_hash [] nodes None (p_unmerged_leaves p) num_leaves csp) (\<lambda>hs. Inr (Some hs))
            else Inr None)
        else Inr None))"

definition compute_original_hashes :: "tree_kem_public \<Rightarrow> cipher_suite_provider \<Rightarrow> byte list list res" where
  "compute_original_hashes tree csp =
     (let nodes = tk_nodes tree;
          num_leaves = total_leaf_count nodes;
          root = root_index num_leaves;
          size = unat num_leaves * 2 - 1
      in bindR (update_or_panic (replicate size []) (unat root) [root]) (\<lambda>filtered_sets.
         bindR (ok_or (bfs_top_down (unat num_leaves)) Mls_Diverges) (\<lambda>order.
         bindR (original_sets nodes num_leaves csp (drop 1 order) (filtered_sets, replicate size []))
           (\<lambda>(filtered_sets, tree_hashes).
         bindR (root_original_hashes nodes num_leaves csp) (\<lambda>root_original.
           mapR (\<lambda>i.
             bindR (index_or_panic filtered_sets i) (\<lambda>s.
             bindR (last_or_panic s) (\<lambda>a.
             bindR (is_blank nodes a) (\<lambda>b.
               if b \<or> a = root then
                 (case root_original of
                    Some hs \<Rightarrow> index_or_panic hs i
                  | None \<Rightarrow> index_or_panic (tk_hashes tree) i)
               else bindR (index_or_panic tree_hashes (unat a)) (\<lambda>hs. index_or_panic hs i)))))
             [0..<size])))))"

end
