(* ===== verification/TreeHashLaws.thy ===== *)
theory TreeHashLaws
  imports TreeHash
begin

text \<open>
  The tree hash by recursion on the tree, and that the cache of hashes is equal to it after the incremental
  computation: every node above an edited leaf is hashed again, in an order in which its children are
  already up to date.
\<close>

section \<open>The hash of a node\<close>

fun node_hash :: "node_vec \<Rightarrow> leaf_index list \<Rightarrow> cipher_suite_provider \<Rightarrow> nat \<Rightarrow> nat \<Rightarrow> byte list res" where
  "node_hash nodes filtered_leaves csp 0 i =
     hash_for_leaf (of_nat i)
       (if of_nat i \<notin> set filtered_leaves then okR (borrow_as_leaf nodes (of_nat i)) else None) csp"
| "node_hash nodes filtered_leaves csp (Suc k) i =
     bindR (node_hash nodes filtered_leaves csp k (2 * i)) (\<lambda>lh.
     bindR (node_hash nodes filtered_leaves csp k (2 * i + 1)) (\<lambda>rh.
       hash_for_parent (okR (borrow_as_parent nodes (word_node (Suc k) i))) csp filtered_leaves lh rh))"

text \<open>Every node of the tree of depth \<open>d\<close> has a hash: no encoding and no call of the hash function fails.\<close>

definition hashes_are ::
    "node_vec \<Rightarrow> leaf_index list \<Rightarrow> cipher_suite_provider \<Rightarrow> nat \<Rightarrow> (nat \<Rightarrow> nat \<Rightarrow> byte list) \<Rightarrow> bool" where
  "hashes_are nodes filtered_leaves csp d h \<longleftrightarrow>
     (\<forall>k i. in_tree d k i \<longrightarrow> node_hash nodes filtered_leaves csp k i = Inr (h k i))"

definition cached :: "nat \<Rightarrow> (nat \<Rightarrow> nat \<Rightarrow> byte list) \<Rightarrow> (nat \<Rightarrow> nat \<Rightarrow> bool) \<Rightarrow> byte list list \<Rightarrow> bool" where
  "cached d h P hs \<longleftrightarrow> length hs = 2 * 2 ^ d - 1 \<and>
     (\<forall>k i. in_tree d k i \<longrightarrow> P k i \<longrightarrow> hs ! node_at k i = h k i)"

text \<open>A node above one of the leaves \<open>ns\<close>.\<close>

definition over_leaf :: "nat list \<Rightarrow> nat \<Rightarrow> nat \<Rightarrow> bool" where
  "over_leaf ns k i \<longleftrightarrow> i \<in> (\<lambda>n. n div 2 ^ k) ` set ns"

definition set_level :: "nat \<Rightarrow> (nat \<Rightarrow> nat \<Rightarrow> byte list) \<Rightarrow> byte list list \<Rightarrow> nat list \<Rightarrow> byte list list" where
  "set_level k h hs is = foldl (\<lambda>hs i. hs[node_at k i := h k i]) hs is"

section \<open>Lemmas\<close>

lemma in_tree_less: "in_tree d k i \<Longrightarrow> node_at k i < 2 * 2 ^ d - 1"
  using in_tree_bound [of d k i] one_le_power [of "2::nat" k] unfolding power_Suc by linarith

lemma length_set_level [simp]: "length (set_level k h hs is) = length hs"
  unfolding set_level_def by (induction "is" arbitrary: hs) auto

lemma nth_set_level:
  "\<forall>i\<in>set is. node_at k i < length hs \<Longrightarrow>
   set_level k h hs is ! node_at j n = (if j = k \<and> n \<in> set is then h k n else hs ! node_at j n)"
  unfolding set_level_def
  by (induction "is" arbitrary: hs) (auto simp: nth_list_update node_at_inject)

lemma set_level_Cons: "set_level k h hs (i # is) = set_level k h (hs[node_at k i := h k i]) is"
  by (simp add: set_level_def)

lemma get_at_nth: "i < length xs \<Longrightarrow> get_at xs i = Some (xs ! i)"
  by (simp add: get_at_def)

lemma hash_parent_step_ok:
  assumes "hashes_are nodes fl csp d h" "in_tree d (Suc k) i" "d \<le> 31" "length hs = 2 * 2 ^ d - 1"
    and "hs ! node_at k (2 * i) = h k (2 * i)" "hs ! node_at k (2 * i + 1) = h k (2 * i + 1)"
  shows "hash_parent_step nodes fl csp hs (word_node (Suc k) i) = Inr (hs[node_at (Suc k) i := h (Suc k) i])"
proof -
  have k: "Suc k < 32" using assms(2,3) by (simp add: in_tree_def)
  have c: "in_tree d k (2 * i)" "in_tree d k (2 * i + 1)" using in_tree_children [OF assms(2)] by auto
  have "hash_for_parent (okR (borrow_as_parent nodes (word_node (Suc k) i))) csp fl (h k (2 * i)) (h k (2 * i + 1)) =
      Inr (h (Suc k) i)"
  proof -
    have "node_hash nodes fl csp (Suc k) i = Inr (h (Suc k) i)" "node_hash nodes fl csp k (2 * i) = Inr (h k (2 * i))"
      "node_hash nodes fl csp k (2 * i + 1) = Inr (h k (2 * i + 1))"
      using assms(1,2) c unfolding hashes_are_def by blast+
    then show ?thesis by simp
  qed
  then show ?thesis
    using assms(4-) in_tree_less [OF assms(2)] in_tree_less [OF c(1)] in_tree_less [OF c(2)]
      in_tree_word(2) [OF assms(2,3)] in_tree_word(2) [OF c(1) assms(3)] in_tree_word(2) [OF c(2) assms(3)]
    by (simp add: hash_parent_step_def left_word_node [OF k] right_word_node [OF k] index_or_panic_def get_at_nth
        update_or_panic_def)
qed

lemma parent_sibling_in_tree:
  assumes "in_tree d k i" "d \<le> 31"
  shows "parent_sibling_of (word_node k i) (2 ^ d) =
    (if k < d then Some \<lparr>parent = word_node (Suc k) (i div 2), sibling = word_node k (sibling_at i)\<rparr> else None)"
proof (cases "k < d")
  case True
  then have p: "in_tree d (Suc k) (i div 2)" using in_tree_parent assms(1) by blast
  with True assms show ?thesis
    using in_tree_word(1) [OF assms] in_tree_word(1) [OF p assms(2)] is_root_iff [OF assms]
    by (simp add: parent_sibling_word_node)
next
  case False
  with assms show ?thesis
    using is_root_iff [OF assms] by (auto simp: in_tree_def parent_sibling_of_def)
qed

lemma hash_queue_level:
  assumes "hashes_are nodes fl csp d h" "d \<le> 31"
  shows "\<lbrakk>\<forall>i\<in>set is. in_tree d (Suc k) i; length hs = 2 * 2 ^ d - 1;
     \<forall>i. in_tree d k i \<longrightarrow> hs ! node_at k i = h k i\<rbrakk> \<Longrightarrow>
   hash_queue nodes fl (2 ^ d) csp hs (map (word_node (Suc k)) is @ rest) =
   hash_queue nodes fl (2 ^ d) csp (set_level (Suc k) h hs is)
     (rest @ (if Suc k < d then map (\<lambda>i. word_node (Suc (Suc k)) (i div 2)) is else []))"
proof (induction "is" arbitrary: hs rest)
  case Nil
  then show ?case by (simp add: set_level_def)
next
  case (Cons i "is")
  then have i: "in_tree d (Suc k) i" by simp
  have step: "hash_parent_step nodes fl csp hs (word_node (Suc k) i) = Inr (hs[node_at (Suc k) i := h (Suc k) i])"
    using Cons.prems in_tree_children [OF i] by (intro hash_parent_step_ok [OF assms(1) i assms(2)]) auto
  have "\<forall>j. in_tree d k j \<longrightarrow> hs[node_at (Suc k) i := h (Suc k) i] ! node_at k j = h k j"
    using Cons.prems(3) by (auto simp: nth_list_update node_at_inject)
  note IH = Cons.IH [OF _ _ this]
  show ?case
    using Cons.prems IH [of "rest @ (if Suc k < d then [word_node (Suc (Suc k)) (i div 2)] else [])"]
    by (cases "Suc k < d"; subst hash_queue.simps)
      (simp_all add: step parent_sibling_in_tree [OF i assms(2)] set_level_Cons)
qed

text \<open>
  What holds once the levels up to \<open>k\<close> are done: those levels are up to date, and above them every node
  that is not above an edited leaf.
\<close>

lemma cached_level:
  assumes c: "cached d h (\<lambda>j i. j \<le> k \<or> \<not> over_leaf ns j i) hs" and "Suc k \<le> d" "\<forall>n\<in>set ns. n < 2 ^ d"
  shows "cached d h (\<lambda>j i. j \<le> Suc k \<or> \<not> over_leaf ns j i) (set_level (Suc k) h hs (map (\<lambda>n. n div 2 ^ Suc k) ns))"
    and "\<forall>i\<in>set (map (\<lambda>n. n div 2 ^ Suc k) ns). in_tree d (Suc k) i"
proof -
  have "n div 2 ^ Suc k < 2 ^ (d - Suc k)" if "n < 2 ^ d" for n :: nat
    using that assms(2) by (intro less_mult_imp_div_less) (simp flip: power_add power_Suc)
  with assms(2,3) show t: "\<forall>i\<in>set (map (\<lambda>n. n div 2 ^ Suc k) ns). in_tree d (Suc k) i"
    by (auto simp: in_tree_def)
  with c have "\<forall>i\<in>set (map (\<lambda>n. n div 2 ^ Suc k) ns). node_at (Suc k) i < length hs"
    using in_tree_less by (auto simp: cached_def)
  then have nth: "set_level (Suc k) h hs (map (\<lambda>n. n div 2 ^ Suc k) ns) ! node_at j i =
      (if j = Suc k \<and> over_leaf ns (Suc k) i then h (Suc k) i else hs ! node_at j i)" for j i
    by (subst nth_set_level) (auto simp: over_leaf_def)
  show "cached d h (\<lambda>j i. j \<le> Suc k \<or> \<not> over_leaf ns j i) (set_level (Suc k) h hs (map (\<lambda>n. n div 2 ^ Suc k) ns))"
    using c by (auto simp: cached_def nth le_Suc_eq simp del: power_Suc)
qed

lemma hash_queue_levels:
  assumes h: "hashes_are nodes fl csp d h" and d: "d \<le> 31" and ns: "\<forall>n\<in>set ns. n < 2 ^ d"
  shows "k \<le> d \<Longrightarrow> cached d h (\<lambda>j i. j \<le> k \<or> \<not> over_leaf ns j i) hs \<Longrightarrow>
    \<exists>hs'. hash_queue nodes fl (2 ^ d) csp hs
        (if k < d then map (\<lambda>n. word_node (Suc k) (n div 2 ^ Suc k)) ns else []) = Some (Inr hs') \<and>
      cached d h (\<lambda>_ _. True) hs'"
proof (induction "d - k" arbitrary: k hs)
  case 0
  then have "cached d h (\<lambda>_ _. True) hs" by (auto simp: cached_def in_tree_def)
  with 0 show ?case by (subst hash_queue.simps) simp
next
  case (Suc n)
  then have k: "Suc k \<le> d" by simp
  let ?is = "map (\<lambda>n. n div 2 ^ Suc k) ns"
  note c = cached_level [OF Suc.prems(2) k ns]
  have "\<forall>i. in_tree d k i \<longrightarrow> hs ! node_at k i = h k i" "length hs = 2 * 2 ^ d - 1"
    using Suc.prems(2) by (auto simp: cached_def)
  from hash_queue_level [OF h d c(2) this(2,1), of "[]"]
  have "hash_queue nodes fl (2 ^ d) csp hs (map (\<lambda>n. word_node (Suc k) (n div 2 ^ Suc k)) ns) =
      hash_queue nodes fl (2 ^ d) csp (set_level (Suc k) h hs ?is)
        (if Suc k < d then map (\<lambda>n. word_node (Suc (Suc k)) (n div 2 ^ Suc (Suc k))) ns else [])"
    by (simp add: comp_def mult.commute flip: div_mult2_eq)
  with Suc(1) [OF _ k c(1)] Suc(2) k show ?case by simp
qed

lemma unat_pow2: "d \<le> 31 \<Longrightarrow> unat (2 ^ d :: u32) = 2 ^ d"
proof -
  assume "d \<le> 31"
  then have "(2::nat) ^ d < 2 ^ 32" by (intro power_strict_increasing) auto
  then show ?thesis using unat_of_nat_small [of "2 ^ d", where 'a = 32] by simp
qed

lemma hash_leaves:
  assumes h: "hashes_are nodes fl csp d h" and d: "d \<le> 31"
  shows "\<forall>n\<in>set ns. n < 2 ^ d \<Longrightarrow> length hs = 2 * 2 ^ d - 1 \<Longrightarrow>
    foldR (hash_leaf_step nodes fl (2 ^ d) csp) (hs, q) (map of_nat ns) =
      Inr (set_level 0 h hs ns, q @ (if 0 < d then map (\<lambda>n. word_node 1 (n div 2)) ns else []))"
proof (induction ns arbitrary: hs q)
  case Nil
  then show ?case by (simp add: set_level_def)
next
  case (Cons n ns)
  then have n: "in_tree d 0 n" and b: "n < 2 ^ 32"
    using power_strict_increasing [of d 32 "2::nat"] d by (auto simp: in_tree_leaf)
  from h n have "hash_for_leaf (of_nat n) (if of_nat n \<notin> set fl then okR (borrow_as_leaf nodes (of_nat n)) else None) csp =
      Inr (h 0 n)"
    unfolding hashes_are_def by fastforce
  moreover have "2 * of_nat n = word_node 0 n" using node_of_leaf_word_node [of n] by (simp add: node_of_leaf_def mult.commute)
  moreover have "unat (of_nat n :: u32) = n" using b by (simp add: unat_of_nat_small)
  moreover have "2 * n = node_at 0 n" by (simp add: node_at_def)
  ultimately have "hash_leaf_step nodes fl (2 ^ d) csp (hs, q) (of_nat n) =
      Inr (hs[node_at 0 n := h 0 n], q @ (if 0 < d then [word_node 1 (n div 2)] else []))"
    using Cons.prems(2) in_tree_less [OF n]
    by (simp add: hash_leaf_step_def update_or_panic_def parent_sibling_in_tree [OF n d])
  with Cons show ?case by (cases "0 < d") (simp_all add: set_level_Cons)
qed

lemma length_resize [simp]: "length (resize n x xs) = n"
  by (simp add: resize_def)

lemma tree_hash_correct:
  assumes h: "hashes_are nodes fl csp d h" and d: "d \<le> 31"
    and ns: "filter (\<lambda>l. l < 2 ^ d) (case ls of Some ls \<Rightarrow> ls | None \<Rightarrow> map of_nat [0..<2 ^ d]) = map of_nat ns"
      "\<forall>n\<in>set ns. n < 2 ^ d"
    and old: "\<forall>k i. in_tree d k i \<longrightarrow> \<not> over_leaf ns k i \<longrightarrow> resize (2 * 2 ^ d - 1) [] hs ! node_at k i = h k i"
  shows "\<exists>hs'. tree_hash hs nodes ls fl (2 ^ d) csp = Inr hs' \<and> cached d h (\<lambda>_ _. True) hs'"
proof -
  let ?hs = "resize (2 * 2 ^ d - 1) [] hs"
  have "\<forall>i\<in>set ns. node_at 0 i < length ?hs"
    using ns(2) in_tree_less [OF in_tree_leaf] by auto
  then have "cached d h (\<lambda>j i. j \<le> 0 \<or> \<not> over_leaf ns j i) (set_level 0 h ?hs ns)"
    using old by (auto simp: cached_def nth_set_level over_leaf_def)
  from hash_queue_levels [OF h d ns(2) _ this]
  obtain hs' q where q: "q = (if 0 < d then map (\<lambda>n. word_node 1 (n div 2)) ns else [])"
    "hash_queue nodes fl (2 ^ d) csp (set_level 0 h ?hs ns) q = Some (Inr hs')" "cached d h (\<lambda>_ _. True) hs'"
    by (cases "0 < d") auto
  have "foldR (hash_leaf_step nodes fl (2 ^ d) csp) (?hs, []) (map of_nat ns) = Inr (set_level 0 h ?hs ns, q)"
    using hash_leaves [OF h d ns(2), of ?hs "[]"] q(1) by simp
  with q(2) have "tree_hash hs nodes ls fl (2 ^ d) csp = Inr hs'"
    unfolding tree_hash_def Let_def unat_pow2 [OF d] ns(1) by (simp add: divergesR_def mult.commute)
  with q(3) show ?thesis by blast
qed

lemma tree_hash_all:
  assumes "hashes_are nodes fl csp d h" "d \<le> 31"
  shows "\<exists>hs'. tree_hash hs nodes None fl (2 ^ d) csp = Inr hs' \<and> cached d h (\<lambda>_ _. True) hs'"
proof (rule tree_hash_correct [OF assms, where ns = "[0..<2 ^ d]"])
  have "(of_nat n :: u32) < 2 ^ d" if "n < 2 ^ d" for n
  proof -
    have "n < 2 ^ 32" using that power_strict_increasing [of d 32 "2::nat"] assms(2) by simp
    with that show ?thesis by (simp add: word_less_nat_alt unat_of_nat_small unat_pow2 [OF assms(2)])
  qed
  then show "filter (\<lambda>l. l < 2 ^ d) (case None of Some ls \<Rightarrow> ls | None \<Rightarrow> map of_nat [0..<2 ^ d]) =
      (map of_nat [0..<2 ^ d] :: u32 list)"
    by (simp add: filter_id_conv)
  have "over_leaf [0..<2 ^ d] k i" if "in_tree d k i" for k i
  proof -
    from that have "i * 2 ^ k < 2 ^ (d - k) * 2 ^ k" "k \<le> d" by (simp_all add: in_tree_def)
    then have "i * 2 ^ k < 2 ^ d" by (simp flip: power_add)
    moreover have "i = i * 2 ^ k div 2 ^ k" by simp
    ultimately show ?thesis unfolding over_leaf_def by (intro image_eqI) auto
  qed
  then show "\<forall>k i. in_tree d k i \<longrightarrow> \<not> over_leaf [0..<2 ^ d] k i \<longrightarrow> resize (2 * 2 ^ d - 1) [] hs ! node_at k i = h k i"
    by blast
qed simp

section \<open>Edits\<close>

lemma okR_borrow_as_leaf:
  "okR (borrow_as_leaf nodes l) = (case node_slot nodes (node_of_leaf l) of Some (Leaf n) \<Rightarrow> Some n | _ \<Rightarrow> None)"
  "okR (borrow_as_parent nodes x) = (case node_slot nodes x of Some (Parent p) \<Rightarrow> Some p | _ \<Rightarrow> None)"
proof -
  have "n \<le> next_power_of_two n" for n
    using less_floorlog [of "n - 1"] by (cases n) (auto simp: next_power_of_two_def)
  then have "\<not> unat x < length nodes" if "next_power_of_two (length nodes) \<le> unat x" for x :: u32
    using that by (meson leD le_trans)
  then show "okR (borrow_as_leaf nodes l) = (case node_slot nodes (node_of_leaf l) of Some (Leaf n) \<Rightarrow> Some n | _ \<Rightarrow> None)"
    "okR (borrow_as_parent nodes x) = (case node_slot nodes x of Some (Parent p) \<Rightarrow> Some p | _ \<Rightarrow> None)"
    by (auto simp: borrow_as_leaf_def borrow_as_parent_def borrow_node_def validate_index_def node_slot_def get_at_def
        as_leaf_def as_parent_def split: option.splits node.splits)
qed

lemma node_hash_cong:
  "(\<And>j m. j \<le> k \<Longrightarrow> m div 2 ^ (k - j) = i \<Longrightarrow> node_slot nodes (word_node j m) = node_slot nodes' (word_node j m)) \<Longrightarrow>
   node_hash nodes fl csp k i = node_hash nodes' fl csp k i"
proof (induction k arbitrary: i)
  case 0
  from 0 [of 0 i] show ?case by (simp add: okR_borrow_as_leaf node_of_leaf_word_node)
next
  case (Suc k)
  have "m div 2 ^ (Suc k - j) = m div 2 ^ (k - j) div 2" if "j \<le> k" for j m :: nat
    using that by (simp add: Suc_diff_le power_Suc2 div_mult2_eq del: power_Suc)
  then have "node_hash nodes fl csp k (2 * i) = node_hash nodes' fl csp k (2 * i)"
    "node_hash nodes fl csp k (2 * i + 1) = node_hash nodes' fl csp k (2 * i + 1)"
    by (auto intro!: Suc.IH Suc.prems simp del: One_nat_def)
  moreover have "node_slot nodes (word_node (Suc k) i) = node_slot nodes' (word_node (Suc k) i)"
    using Suc.prems [of "Suc k" i] by simp
  ultimately show ?case by (simp add: okR_borrow_as_leaf)
qed

lemma in_tree_iff: "in_tree d k i \<longleftrightarrow> Suc i * 2 ^ k \<le> 2 ^ d"
proof
  assume "in_tree d k i"
  then have "Suc i * 2 ^ k \<le> 2 ^ (d - k) * 2 ^ k" "k \<le> d" by (auto simp: in_tree_def simp del: mult_Suc)
  then show "Suc i * 2 ^ k \<le> 2 ^ d" by (simp flip: power_add)
next
  assume *: "Suc i * 2 ^ k \<le> 2 ^ d"
  then have "(2::nat) ^ k \<le> 2 ^ d" by (metis le_add1 le_trans mult_Suc)
  then have k: "k \<le> d" by simp
  then have "(2::nat) ^ d = 2 ^ (d - k) * 2 ^ k" by (simp flip: power_add)
  with * k show "in_tree d k i" by (simp add: in_tree_def less_eq_Suc_le del: mult_Suc)
qed

lemma div_pow2_iff: "n div 2 ^ k = i \<longleftrightarrow> i * 2 ^ k \<le> n \<and> n < Suc i * 2 ^ (k :: nat)"
proof -
  have "(0::nat) < 2 ^ k" by simp
  then show ?thesis
    by (metis div_nat_eqI dividend_less_div_times less_eq_div_iff_mult_less_eq mult.commute mult_Suc order_refl)
qed

lemma missing_leaves_set:
  assumes "length hs = 2 * 2 ^ d0 - 1" "d \<le> 31" "2 ^ d0 \<le> n" "n < 2 ^ d"
  shows "of_nat n \<in> set (missing_leaves hs (2 ^ d))"
proof -
  have lt: "m < 2 ^ 32" if "m < 2 ^ d" for m :: nat
    using that power_strict_increasing [of d 32 "2::nat"] assms(2) by simp
  have "(2::nat) ^ d0 + (2 ^ d - 2 ^ d0) = 2 ^ d" using assms(3,4) by linarith
  then have "[0..<2 ^ d] = [0..<2 ^ d0] @ [2 ^ d0..<2 ^ d]"
    using upt_add_eq_append [of 0 "2 ^ d0" "2 ^ d - 2 ^ d0"] by simp
  then have "rev (map of_nat [0..<2 ^ d]) = rev (map of_nat [2 ^ d0..<2 ^ d]) @ (rev (map of_nat [0..<2 ^ d0]) :: u32 list)"
    by simp
  then have "missing_leaves hs (2 ^ d) = rev (map of_nat [2 ^ d0..<2 ^ d]) @
      takeWhile (\<lambda>l. get_at hs (2 * unat l) = None) (rev (map of_nat [0..<2 ^ d0]))"
    unfolding missing_leaves_def unat_pow2 [OF assms(2)]
    by (simp only:) (rule takeWhile_append2, use lt assms(1) in \<open>auto simp: unat_of_nat_small get_at_def\<close>)
  with assms(3,4) show ?thesis by simp
qed

lemma node_hash_unedited:
  assumes "in_tree d k i" "\<not> over_leaf ns k i"
    and same: "\<And>j m. in_tree d j m \<Longrightarrow> \<not> over_leaf ns j m \<Longrightarrow>
      node_slot old (word_node j m) = node_slot nodes (word_node j m)"
  shows "node_hash old fl csp k i = node_hash nodes fl csp k i"
proof (rule node_hash_cong, rule same)
  fix j m assume jm: "j \<le> k" "m div 2 ^ (k - j) = i"
  then have "Suc m * 2 ^ j \<le> (Suc i * 2 ^ (k - j)) * 2 ^ j"
    using div_pow2_iff [of m "k - j" i] by (intro mult_right_mono) auto
  also have "\<dots> = Suc i * 2 ^ k" using jm(1) by (simp add: mult.assoc del: mult_Suc flip: power_add)
  finally show "in_tree d j m" using assms(1) unfolding in_tree_iff by simp
  have "n div 2 ^ k = n div 2 ^ j div 2 ^ (k - j)" for n :: nat
    using jm(1) by (simp flip: div_mult2_eq power_add)
  with assms(2) jm(2) show "\<not> over_leaf ns j m" by (auto simp: over_leaf_def)
qed

lemma update_hashes_correct:
  assumes cache: "cached d0 h0 (\<lambda>_ _. True) (tk_hashes tree)" and old: "hashes_are old [] csp d0 h0"
    and new: "hashes_are (tk_nodes tree) [] csp (tree_depth (tk_nodes tree)) h"
    and same: "\<And>j m. in_tree (tree_depth (tk_nodes tree)) j m \<Longrightarrow> \<not> over_leaf (map unat ls) j m \<Longrightarrow>
      node_slot old (word_node j m) = node_slot (tk_nodes tree) (word_node j m)"
  shows "\<exists>tree'. update_hashes tree ls csp = Inr tree' \<and> tk_nodes tree' = tk_nodes tree \<and>
    tk_index tree' = tk_index tree \<and> cached (tree_depth (tk_nodes tree)) h (\<lambda>_ _. True) (tk_hashes tree')"
proof -
  define d where "d = tree_depth (tk_nodes tree)"
  define missing where "missing = missing_leaves (tk_hashes tree) (2 ^ d)"
  define ns where "ns = map unat (filter (\<lambda>l. l < 2 ^ d) (ls @ missing))"
  have d: "d \<le> 31" by (simp add: d_def tree_depth_le)
  have ns: "\<forall>n\<in>set ns. n < 2 ^ d" by (auto simp: ns_def word_less_nat_alt unat_pow2 [OF d])
  have fresh: "resize (2 * 2 ^ d - 1) [] (tk_hashes tree) ! node_at k i = h k i"
    if t: "in_tree d k i" and o: "\<not> over_leaf ns k i" for k i
  proof -
    let ?m = "Suc i * 2 ^ k - 1"
    have m: "?m div 2 ^ k = i" "?m < 2 ^ d"
      using t zero_less_power [of "2::nat" k] unfolding div_pow2_iff in_tree_iff mult_Suc by linarith+
    then have "?m < 2 ^ 32" using power_strict_increasing [of d 32 "2::nat"] d by simp
    then have u: "unat (of_nat ?m :: u32) = ?m" by (simp add: unat_of_nat_small)
    have "\<not> 2 ^ d0 \<le> ?m"
    proof
      assume "2 ^ d0 \<le> ?m"
      with cache m(2) d have "of_nat ?m \<in> set missing"
        unfolding missing_def by (intro missing_leaves_set) (auto simp: cached_def)
      then have "?m \<in> set ns" unfolding ns_def
        using m(2) u by (auto simp: word_less_nat_alt unat_pow2 [OF d] intro!: image_eqI [of _ _ "of_nat ?m"])
      with o m(1) show False unfolding over_leaf_def by (metis image_eqI)
    qed
    then have t0: "in_tree d0 k i" unfolding in_tree_iff by linarith
    have "\<not> over_leaf (map unat ls) k i"
    proof
      assume "over_leaf (map unat ls) k i"
      then obtain l where l: "l \<in> set ls" "unat l div 2 ^ k = i" by (auto simp: over_leaf_def)
      then have "unat l < 2 ^ d" using t unfolding div_pow2_iff in_tree_iff by linarith
      with l have "unat l \<in> set ns" by (auto simp: ns_def word_less_nat_alt unat_pow2 [OF d])
      with o l(2) show False by (auto simp: over_leaf_def)
    qed
    then have "node_hash old [] csp k i = node_hash (tk_nodes tree) [] csp k i"
      using node_hash_unedited [OF t] same unfolding d_def by blast
    with old new t t0 have "h0 k i = h k i" unfolding hashes_are_def d_def by (metis sum.inject(2))
    with cache t0 in_tree_less [OF t0] in_tree_less [OF t] show ?thesis
      by (auto simp: cached_def resize_def nth_append)
  qed
  have "filter (\<lambda>l. l < 2 ^ d) (ls @ missing) = map of_nat ns" by (simp add: ns_def comp_def)
  then obtain hs' where "tree_hash (tk_hashes tree) (tk_nodes tree) (Some (ls @ missing)) [] (2 ^ d) csp = Inr hs'"
    "cached d h (\<lambda>_ _. True) hs'"
    using tree_hash_correct [OF new [folded d_def] d _ ns, where ls = "Some (ls @ missing)" and hs = "tk_hashes tree"] fresh
    by auto
  then show ?thesis
    by (simp add: update_hashes_def Let_def total_leaf_count_pow d_def missing_def)
qed

section \<open>Properties\<close>

text \<open>
  C16. The work queue over the nodes of a tree terminates and leaves in the hash array, at every node of the
  tree, the hash that RFC 9420 defines by recursion over the tree, with the given leaves filtered out.
\<close>
theorem tree_hash_is_recursive:
  assumes "hashes_are nodes filtered_leaves csp d h" "d \<le> 31"
  shows "\<exists>hs'. tree_hash hs nodes None filtered_leaves (2 ^ d) csp = Inr hs' \<and> cached d h (\<lambda>_ _. True) hs'"
  using assms by (rule tree_hash_all)

definition sample_hash :: "node_vec \<Rightarrow> nat \<Rightarrow> nat \<Rightarrow> byte list" where
  "sample_hash nodes k i = (case node_hash nodes [] sample_csp k i of Inr h \<Rightarrow> h | Inl _ \<Rightarrow> [])"

lemma in_tree_1: "in_tree 1 k i \<longleftrightarrow> k = 0 \<and> i = 0 \<or> k = 0 \<and> i = 1 \<or> k = 1 \<and> i = 0"
  by (cases k) (auto simp: in_tree_def)

lemma sample_hashes_are:
  assumes "\<not> isl (node_hash nodes [] sample_csp 0 0)" "\<not> isl (node_hash nodes [] sample_csp 0 1)"
    "\<not> isl (node_hash nodes [] sample_csp 1 0)"
  shows "hashes_are nodes [] sample_csp 1 (sample_hash nodes)"
  using assms unfolding hashes_are_def in_tree_1 by (auto simp: sample_hash_def split: sum.splits)

theorem tree_hash_is_recursive_witness:
  "\<exists>hs'. tree_hash [] (sample_tree 1 2) None [] (2 ^ 1) sample_csp = Inr hs' \<and>
     cached 1 (sample_hash (sample_tree 1 2)) (\<lambda>_ _. True) hs'"
  by (rule tree_hash_is_recursive [OF sample_hashes_are]) (code_simp+)

text \<open>
  C8. The incremental update of the cached tree hashes equals a recomputation: where the cache holds the hashes
  of an old tree, of any size, that differs from the new one only on the paths of the updated leaves, the
  update succeeds, changes nothing else of the tree, and leaves the hash of every node of the new tree.
\<close>
theorem update_hashes_equal_recomputation:
  assumes "cached d0 h0 (\<lambda>_ _. True) (tk_hashes tree)" "hashes_are old [] csp d0 h0"
    and "hashes_are (tk_nodes tree) [] csp (tree_depth (tk_nodes tree)) h"
    and "\<And>j m. in_tree (tree_depth (tk_nodes tree)) j m \<Longrightarrow> \<not> over_leaf (map unat ls) j m \<Longrightarrow>
      node_slot old (word_node j m) = node_slot (tk_nodes tree) (word_node j m)"
  shows "\<exists>tree'. update_hashes tree ls csp = Inr tree' \<and> tk_nodes tree' = tk_nodes tree \<and>
    tk_index tree' = tk_index tree \<and> cached (tree_depth (tk_nodes tree)) h (\<lambda>_ _. True) (tk_hashes tree')"
  using assms by (rule update_hashes_correct)

theorem update_hashes_equal_recomputation_witness:
  "\<exists>hs tree'. tree_hash [] (sample_tree 1 2) None [] (2 ^ 1) sample_csp = Inr hs \<and>
     update_hashes \<lparr>tk_index = tree_index_new, tk_nodes = sample_tree 1 3, tk_hashes = hs\<rparr> [1] sample_csp = Inr tree' \<and>
     cached 1 (sample_hash (sample_tree 1 3)) (\<lambda>_ _. True) (tk_hashes tree')"
proof -
  let ?old = "sample_tree 1 2" and ?new = "sample_tree 1 3"
  have old: "hashes_are ?old [] sample_csp 1 (sample_hash ?old)" by (rule sample_hashes_are) (code_simp+)
  have new: "hashes_are ?new [] sample_csp 1 (sample_hash ?new)" by (rule sample_hashes_are) (code_simp+)
  obtain hs where hs: "tree_hash [] ?old None [] (2 ^ 1) sample_csp = Inr hs" "cached 1 (sample_hash ?old) (\<lambda>_ _. True) hs"
    using tree_hash_all [OF old] by auto
  let ?t = "\<lparr>tk_index = tree_index_new, tk_nodes = ?new, tk_hashes = hs\<rparr>"
  have d: "tree_depth ?new = 1" by code_simp
  have same: "node_slot ?old (word_node 0 0) = node_slot ?new (word_node 0 0)" by code_simp
  have off: "node_slot ?old (word_node j m) = node_slot (tk_nodes ?t) (word_node j m)"
    if "in_tree (tree_depth (tk_nodes ?t)) j m" "\<not> over_leaf (map unat [1::u32]) j m" for j m
    using that same in_tree_1 [of j m] by (auto simp: d over_leaf_def)
  have "\<exists>tree'. update_hashes ?t [1] sample_csp = Inr tree' \<and> tk_nodes tree' = tk_nodes ?t \<and>
      tk_index tree' = tk_index ?t \<and> cached (tree_depth (tk_nodes ?t)) (sample_hash ?new) (\<lambda>_ _. True) (tk_hashes tree')"
    by (rule update_hashes_equal_recomputation [OF _ old _ off]) (use hs new d in simp_all)
  with hs d show ?thesis by auto
qed

end
