(* ===== verification/SecretTree.thy ===== *)
theory SecretTree
  imports TreeMath MlsTypesLaws Samples "HOL-Library.AList"
begin

text \<open>
  The secret tree of an epoch (\<^verbatim>\<open>mls-rs/src/group/secret_tree.rs\<close>): from one encryption secret it derives, leaf
  by leaf and on demand, a handshake and an application ratchet of message keys. A hash map is an
  association list with distinct keys. An operation on \<^verbatim>\<open>&mut self\<close> returns the new state beside its result,
  because the code may fail after it has changed the state.
\<close>

lemma unat_plus_1: "x < y \<Longrightarrow> unat (x + 1) = unat x + 1" for x y :: "'a::len word"
proof -
  assume "x < y"
  then have "unat x + 1 < 2 ^ LENGTH('a)"
    using unsigned_less [of y, where ?'a = nat] unfolding word_less_nat_alt by linarith
  then have "unat (of_nat (unat x + 1) :: 'a word) = unat x + 1" by (rule unat_of_nat_small)
  then show ?thesis by (simp add: add.commute)
qed

lemma less_plus_1: "unat x < unat y \<Longrightarrow> unat x < unat (x + 1)" for x y :: "'a::len word"
  using unat_plus_1 [of x y] by (simp add: word_less_nat_alt)

section \<open>Labelled key derivation\<close>

definition label_new :: "u16 \<Rightarrow> byte list \<Rightarrow> byte list \<Rightarrow> u16 \<times> byte list \<times> byte list" where
  "label_new length_field label context = (length_field, bytes_of ''MLS 1.0 '' @ label, context)"

definition label_codec :: "(u16 \<times> byte list \<times> byte list) codec" where
  "label_codec = pair_codec u16_codec (pair_codec byte_vec_codec byte_vec_codec)"

definition kdf_expand_with_label ::
    "cipher_suite_provider \<Rightarrow> byte list \<Rightarrow> byte list \<Rightarrow> byte list \<Rightarrow> nat option \<Rightarrow> byte list res" where
  "kdf_expand_with_label csp secret label context len =
     (let len = (case len of Some n \<Rightarrow> n | None \<Rightarrow> kdf_extract_size csp)
      in bindR (codecR (c_enc label_codec (label_new (of_nat len) label context))) (\<lambda>info.
           crypto (kdf_expand csp secret info len)))"

definition kdf_derive_secret :: "cipher_suite_provider \<Rightarrow> byte list \<Rightarrow> byte list \<Rightarrow> byte list res" where
  "kdf_derive_secret csp secret label = kdf_expand_with_label csp secret label [] None"

section \<open>Ratchets\<close>

definition MAX_RATCHET_BACK_HISTORY :: u32 where
  "MAX_RATCHET_BACK_HISTORY = 1024"

datatype key_type = Handshake | Application

record message_key_data =
  mk_nonce :: "byte list"
  mk_key :: "byte list"
  mk_generation :: u32

record secret_key_ratchet =
  skr_secret :: "byte list"
  skr_generation :: u32
  skr_history :: "(u32 \<times> message_key_data) list"

text \<open>
  Where an error of the library is boxed as one of the provider (\<^verbatim>\<open>into_any_error\<close>), the box is opaque.
\<close>

definition boxedR :: "'a res \<Rightarrow> 'a res" where
  "boxedR = map_errR (\<lambda>_. CryptoProviderError ''MlsError'')"

definition key_type_label :: "key_type \<Rightarrow> byte list" where
  "key_type_label t = (case t of Handshake \<Rightarrow> bytes_of ''handshake'' | Application \<Rightarrow> bytes_of ''application'')"

definition skr_new :: "cipher_suite_provider \<Rightarrow> byte list \<Rightarrow> key_type \<Rightarrow> secret_key_ratchet res" where
  "skr_new csp secret t =
     bindR (boxedR (kdf_expand_with_label csp secret (key_type_label t) [] None)) (\<lambda>s.
       Inr \<lparr>skr_secret = s, skr_generation = 0, skr_history = []\<rparr>)"

definition skr_derive_secret ::
    "cipher_suite_provider \<Rightarrow> secret_key_ratchet \<Rightarrow> byte list \<Rightarrow> nat \<Rightarrow> byte list res" where
  "skr_derive_secret csp r label len =
     boxedR (kdf_expand_with_label csp (skr_secret r) label (to_be_bytes (skr_generation r)) (Some len))"

definition skr_next_message_key ::
    "cipher_suite_provider \<Rightarrow> secret_key_ratchet \<Rightarrow> secret_key_ratchet \<times> message_key_data res" where
  "skr_next_message_key csp r =
     (case bindR (skr_derive_secret csp r (bytes_of ''nonce'') (aead_nonce_size csp)) (\<lambda>nonce.
           bindR (skr_derive_secret csp r (bytes_of ''key'') (aead_key_size csp)) (\<lambda>key.
           bindR (skr_derive_secret csp r (bytes_of ''secret'') (kdf_extract_size csp)) (\<lambda>secret.
             Inr (\<lparr>mk_nonce = nonce, mk_key = key, mk_generation = skr_generation r\<rparr>, secret)))) of
        Inl e \<Rightarrow> (r, Inl e)
      | Inr (k, secret) \<Rightarrow> (r\<lparr>skr_secret := secret, skr_generation := skr_generation r + 1\<rparr>, Inr k))"

lemma skr_next_generation:
  "skr_next_message_key csp r = (r', Inr k) \<Longrightarrow> skr_generation r' = skr_generation r + 1"
  by (auto simp: skr_next_message_key_def split: sum.splits prod.splits)

text \<open>The loop that stores the keys of the generations before the requested one.\<close>

function skr_catch_up ::
    "cipher_suite_provider \<Rightarrow> u32 \<Rightarrow> secret_key_ratchet \<Rightarrow> secret_key_ratchet \<times> unit res" where
  "skr_catch_up csp generation r =
     (if skr_generation r < generation then
        (case skr_next_message_key csp r of
           (r', Inl e) \<Rightarrow> (r', Inl e)
         | (r', Inr k) \<Rightarrow> skr_catch_up csp generation (r'\<lparr>skr_history := AList.update (mk_generation k) k (skr_history r')\<rparr>))
      else (r, Inr ()))"
  by pat_completeness auto
termination
  by (relation "measure (\<lambda>(csp, generation, r). unat generation - unat (skr_generation r))")
    (auto simp: word_less_nat_alt dest!: skr_next_generation [OF sym] intro!: diff_less_mono2 less_plus_1)

declare skr_catch_up.simps [simp del]

definition skr_get_message_key ::
    "cipher_suite_provider \<Rightarrow> secret_key_ratchet \<Rightarrow> u32 \<Rightarrow> secret_key_ratchet \<times> message_key_data res" where
  "skr_get_message_key csp r generation =
     (if generation < skr_generation r then
        (case map_of (skr_history r) generation of
           Some k \<Rightarrow> (r\<lparr>skr_history := AList.delete generation (skr_history r)\<rparr>, Inr k)
         | None \<Rightarrow> (r, Inl (KeyMissing generation)))
      else if generation > skr_generation r + MAX_RATCHET_BACK_HISTORY
      then (r, Inl (InvalidFutureGeneration generation))
      else case skr_catch_up csp generation r of
             (r', Inl e) \<Rightarrow> (r', Inl e)
           | (r', Inr _) \<Rightarrow> skr_next_message_key csp r')"

record secret_ratchets =
  sr_application :: secret_key_ratchet
  sr_handshake :: secret_key_ratchet

fun ratchet_of :: "key_type \<Rightarrow> secret_ratchets \<Rightarrow> secret_key_ratchet" where
  "ratchet_of Handshake rs = sr_handshake rs"
| "ratchet_of Application rs = sr_application rs"

fun set_ratchet :: "key_type \<Rightarrow> secret_key_ratchet \<Rightarrow> secret_ratchets \<Rightarrow> secret_ratchets" where
  "set_ratchet Handshake r rs = rs\<lparr>sr_handshake := r\<rparr>"
| "set_ratchet Application r rs = rs\<lparr>sr_application := r\<rparr>"

definition sr_message_key_generation ::
    "cipher_suite_provider \<Rightarrow> secret_ratchets \<Rightarrow> u32 \<Rightarrow> key_type \<Rightarrow> secret_ratchets \<times> message_key_data res" where
  "sr_message_key_generation csp rs generation t =
     (let (r, k) = skr_get_message_key csp (ratchet_of t rs) generation in (set_ratchet t r rs, k))"

definition sr_next_message_key ::
    "cipher_suite_provider \<Rightarrow> secret_ratchets \<Rightarrow> key_type \<Rightarrow> secret_ratchets \<times> message_key_data res" where
  "sr_next_message_key csp rs t =
     (let (r, k) = skr_next_message_key csp (ratchet_of t rs) in (set_ratchet t r rs, k))"

section \<open>The tree of secrets\<close>

datatype secret_tree_node = ST_Secret "byte list" | ST_Ratchet secret_ratchets

fun into_secret :: "secret_tree_node \<Rightarrow> byte list option" where
  "into_secret (ST_Secret s) = Some s"
| "into_secret (ST_Ratchet _) = None"

type_synonym tree_secrets_vec = "(node_index \<times> secret_tree_node) list"

definition set_node :: "tree_secrets_vec \<Rightarrow> node_index \<Rightarrow> secret_tree_node \<Rightarrow> tree_secrets_vec" where
  "set_node m i v = AList.update i v m"

definition take_node :: "tree_secrets_vec \<Rightarrow> node_index \<Rightarrow> tree_secrets_vec \<times> secret_tree_node option" where
  "take_node m i = (AList.delete i m, map_of m i)"

record secret_tree =
  known_secrets :: tree_secrets_vec
  st_leaf_count :: u32

definition secret_tree_empty :: secret_tree where
  "secret_tree_empty = \<lparr>known_secrets = [], st_leaf_count = 0\<rparr>"

definition secret_tree_new :: "u32 \<Rightarrow> byte list \<Rightarrow> secret_tree" where
  "secret_tree_new leaf_count encryption_secret =
     \<lparr>known_secrets = set_node [] (root_index leaf_count) (ST_Secret encryption_secret), st_leaf_count = leaf_count\<rparr>"

definition consume_node :: "cipher_suite_provider \<Rightarrow> tree_secrets_vec \<Rightarrow> node_index \<Rightarrow> tree_secrets_vec \<times> unit res" where
  "consume_node csp m index =
     (let (m, node) = take_node m index
      in case node of
           Some (ST_Secret secret) \<Rightarrow>
             (case bindR (ok_or (left_index index) LeafNodeNoChildren) (\<lambda>left_index.
                   bindR (ok_or (right_index index) LeafNodeNoChildren) (\<lambda>right_index.
                   bindR (kdf_expand_with_label csp secret (bytes_of ''tree'') (bytes_of ''left'') None) (\<lambda>left_secret.
                   bindR (kdf_expand_with_label csp secret (bytes_of ''tree'') (bytes_of ''right'') None) (\<lambda>right_secret.
                     Inr (set_node (set_node m left_index (ST_Secret left_secret)) right_index (ST_Secret right_secret)))))) of
                Inl e \<Rightarrow> (m, Inl e)
              | Inr m' \<Rightarrow> (m', Inr ()))
         | _ \<Rightarrow> (m, Inr ()))"

fun consume_nodes ::
    "cipher_suite_provider \<Rightarrow> tree_secrets_vec \<Rightarrow> node_index list \<Rightarrow> tree_secrets_vec \<times> unit res" where
  "consume_nodes csp m [] = (m, Inr ())"
| "consume_nodes csp m (i # is) =
     (case consume_node csp m i of
        (m', Inl e) \<Rightarrow> (m', Inl e)
      | (m', Inr _) \<Rightarrow> consume_nodes csp m' is)"

definition find_leaf_node_secret ::
    "cipher_suite_provider \<Rightarrow> secret_tree \<Rightarrow> node_index \<Rightarrow> tree_secrets_vec \<times> secret_tree_node res" where
  "find_leaf_node_secret csp st node_index =
     (case take_node (known_secrets st) node_index of
        (m, Some node) \<Rightarrow> (m, Inr node)
      | (m, None) \<Rightarrow>
          (case direct_copath node_index (st_leaf_count st) of
             None \<Rightarrow> (m, Inl Mls_Diverges)
           | Some cps \<Rightarrow>
               (case consume_nodes csp m (rev (map path cps)) of
                  (m, Inl e) \<Rightarrow> (m, Inl e)
                | (m, Inr _) \<Rightarrow>
                    (let (m, node) = take_node m node_index in (m, ok_or node InvalidLeafConsumption)))))"

definition take_leaf_ratchet ::
    "cipher_suite_provider \<Rightarrow> secret_tree \<Rightarrow> node_index \<Rightarrow> secret_tree \<times> secret_ratchets res" where
  "take_leaf_ratchet csp st leaf_index =
     (let (m, node) = find_leaf_node_secret csp st leaf_index
      in (st\<lparr>known_secrets := m\<rparr>,
          bindR node (\<lambda>node. case node of
              ST_Ratchet rs \<Rightarrow> Inr rs
            | ST_Secret secret \<Rightarrow>
                bindR (skr_new csp secret Application) (\<lambda>app.
                bindR (skr_new csp secret Handshake) (\<lambda>hs.
                  Inr \<lparr>sr_application = app, sr_handshake = hs\<rparr>)))))"

text \<open>
  \<^verbatim>\<open>next_message_key\<close> returns an error of the ratchet before it puts the ratchet back;
  \<^verbatim>\<open>message_key_generation\<close> puts it back in either case.
\<close>

definition st_next_message_key ::
    "cipher_suite_provider \<Rightarrow> secret_tree \<Rightarrow> node_index \<Rightarrow> key_type \<Rightarrow> secret_tree \<times> message_key_data res" where
  "st_next_message_key csp st leaf_index t =
     (case take_leaf_ratchet csp st leaf_index of
        (st, Inl e) \<Rightarrow> (st, Inl e)
      | (st, Inr rs) \<Rightarrow>
          (case sr_next_message_key csp rs t of
             (rs, Inl e) \<Rightarrow> (st, Inl e)
           | (rs, Inr k) \<Rightarrow> (st\<lparr>known_secrets := set_node (known_secrets st) leaf_index (ST_Ratchet rs)\<rparr>, Inr k)))"

definition st_message_key_generation ::
    "cipher_suite_provider \<Rightarrow> secret_tree \<Rightarrow> node_index \<Rightarrow> key_type \<Rightarrow> u32 \<Rightarrow> secret_tree \<times> message_key_data res" where
  "st_message_key_generation csp st leaf_index t generation =
     (case take_leaf_ratchet csp st leaf_index of
        (st, Inl e) \<Rightarrow> (st, Inl e)
      | (st, Inr rs) \<Rightarrow>
          (let (rs, k) = sr_message_key_generation csp rs generation t
           in (st\<lparr>known_secrets := set_node (known_secrets st) leaf_index (ST_Ratchet rs)\<rparr>, k)))"

end
