(* ===== verification/Simulation.thy ===== *)
theory Simulation
  imports Prelude
begin

text \<open>
  Forward simulation between two deterministic step functions, by which the components that keep state are shown
  to refine an abstract specification. The relation is indexed by a number that a step raises by at most
  \<open>cost\<close>, so that a counter of fixed width bounds the length of the runs the refinement covers.
\<close>

fun runs :: "('op \<Rightarrow> 's \<Rightarrow> 's \<times> 'r) \<Rightarrow> 'op list \<Rightarrow> 's \<Rightarrow> 's \<times> 'r list" where
  "runs step [] s = (s, [])"
| "runs step (op # ops) s = (let (s, r) = step op s; (s, rs) = runs step ops s in (s, r # rs))"

locale simulation =
  fixes cstep :: "'op \<Rightarrow> 'c \<Rightarrow> 'c \<times> 'r"
    and astep :: "'op \<Rightarrow> 'a \<Rightarrow> 'a \<times> 'b"
    and repr :: "nat \<Rightarrow> 'a \<Rightarrow> 'c \<Rightarrow> bool"
    and out :: "'b \<Rightarrow> 'r"
    and valid :: "'op \<Rightarrow> bool"
    and cost :: nat
    and bound :: nat
  assumes sim: "repr n a c \<Longrightarrow> n + cost < bound \<Longrightarrow> valid op \<Longrightarrow> cstep op c = (c', r) \<Longrightarrow> astep op a = (a', b) \<Longrightarrow>
    repr (n + cost) a' c' \<and> r = out b"
begin

lemma runs_sim:
  "repr n a c \<Longrightarrow> n + cost * length ops < bound \<Longrightarrow> list_all valid ops \<Longrightarrow>
   runs cstep ops c = (c', rs) \<Longrightarrow> runs astep ops a = (a', bs) \<Longrightarrow>
   repr (n + cost * length ops) a' c' \<and> rs = map out bs"
proof (induction ops arbitrary: n a c rs bs)
  case (Cons op ops)
  obtain c1 r a1 b where s: "cstep op c = (c1, r)" "astep op a = (a1, b)" by fastforce
  obtain rs' bs' where t: "runs cstep ops c1 = (c', rs')" "runs astep ops a1 = (a', bs')" "rs = r # rs'" "bs = b # bs'"
    using Cons.prems(4,5) s by (auto split: prod.splits)
  have "repr (n + cost) a1 c1" "r = out b"
    using sim [OF Cons.prems(1) _ _ s] Cons.prems(2,3) by auto
  with Cons.IH [OF this(1) _ _ t(1,2)] Cons.prems(2,3) t show ?case by (simp add: algebra_simps)
qed simp

end

end
