(* ===== verification/SecretTreeLaws.thy ===== *)
theory SecretTreeLaws
  imports SecretTree Simulation
begin

text \<open>
  What the secret tree promises. The keys of a leaf and a key type are one sequence, determined by the
  encryption secret alone; a ratchet hands out each of them at most once, in any order within the window the
  code allows. The specification of a ratchet is a \<open>key_window\<close>: the next generation and the generations handed
  out. Ratchets refine windows, and a secret tree refines a family of windows, one for each leaf and key type.
\<close>

section \<open>Windows\<close>

record key_window =
  kw_next :: nat
  kw_used :: "nat list"

definition fresh_window :: key_window where
  "fresh_window = \<lparr>kw_next = 0, kw_used = []\<rparr>"

datatype ratchet_op = Op_Next | Op_Get u32

fun window_step :: "ratchet_op \<Rightarrow> key_window \<Rightarrow> key_window \<times> nat res" where
  "window_step Op_Next w = (\<lparr>kw_next = kw_next w + 1, kw_used = kw_next w # kw_used w\<rparr>, Inr (kw_next w))"
| "window_step (Op_Get g) w =
     (if unat g < kw_next w
      then if unat g \<in> set (kw_used w) then (w, Inl (KeyMissing g))
           else (w\<lparr>kw_used := unat g # kw_used w\<rparr>, Inr (unat g))
      else if kw_next w + 1024 < unat g then (w, Inl (InvalidFutureGeneration g))
      else (\<lparr>kw_next = unat g + 1, kw_used = unat g # kw_used w\<rparr>, Inr (unat g)))"

fun ratchet_step ::
    "cipher_suite_provider \<Rightarrow> ratchet_op \<Rightarrow> secret_key_ratchet \<Rightarrow> secret_key_ratchet \<times> message_key_data res" where
  "ratchet_step csp Op_Next r = skr_next_message_key csp r"
| "ratchet_step csp (Op_Get g) r = skr_get_message_key csp r g"

text \<open>The sequence of the secrets of a ratchet and the sequence of its keys.\<close>

definition ratchet_kdf :: "cipher_suite_provider \<Rightarrow> byte list \<Rightarrow> string \<Rightarrow> nat \<Rightarrow> nat \<Rightarrow> byte list res" where
  "ratchet_kdf csp secret label n len =
     boxedR (kdf_expand_with_label csp secret (bytes_of label) (to_be_bytes (of_nat n :: u32)) (Some len))"

fun chain_secret :: "cipher_suite_provider \<Rightarrow> byte list \<Rightarrow> nat \<Rightarrow> byte list res" where
  "chain_secret csp s 0 = Inr s"
| "chain_secret csp s (Suc n) =
     bindR (chain_secret csp s n) (\<lambda>c. ratchet_kdf csp c ''secret'' n (kdf_extract_size csp))"

definition chain_key :: "cipher_suite_provider \<Rightarrow> byte list \<Rightarrow> nat \<Rightarrow> message_key_data res" where
  "chain_key csp s n =
     bindR (chain_secret csp s n) (\<lambda>c.
     bindR (ratchet_kdf csp c ''nonce'' n (aead_nonce_size csp)) (\<lambda>nonce.
     bindR (ratchet_kdf csp c ''key'' n (aead_key_size csp)) (\<lambda>key.
       Inr \<lparr>mk_nonce = nonce, mk_key = key, mk_generation = of_nat n\<rparr>)))"

text \<open>
  The key derivation function expands every secret of its own output size to the sizes the library asks for.
\<close>

definition kdf_sizes :: "cipher_suite_provider \<Rightarrow> nat set" where
  "kdf_sizes csp = {kdf_extract_size csp, aead_nonce_size csp, aead_key_size csp}"

definition kdf_total :: "cipher_suite_provider \<Rightarrow> bool" where
  "kdf_total csp \<longleftrightarrow> (\<forall>prk info len. length prk = kdf_extract_size csp \<longrightarrow> len \<in> kdf_sizes csp \<longrightarrow>
     (\<exists>out. kdf_expand csp prk info len = Inr out \<and> length out = len))"

definition ratchet_repr :: "cipher_suite_provider \<Rightarrow> byte list \<Rightarrow> key_window \<Rightarrow> secret_key_ratchet \<Rightarrow> bool" where
  "ratchet_repr csp s w r \<longleftrightarrow>
     kw_next w < 2 ^ 32 \<and> set (kw_used w) \<subseteq> {..<kw_next w} \<and> distinct (kw_used w) \<and>
     skr_generation r = of_nat (kw_next w) \<and> chain_secret csp s (kw_next w) = Inr (skr_secret r) \<and>
     (\<forall>g. map_of (skr_history r) g =
        (if unat g < kw_next w \<and> unat g \<notin> set (kw_used w) then okR (chain_key csp s (unat g)) else None))"

section \<open>Key derivation\<close>

lemma byte_vec_encode_small: "length bs < 2 ^ 30 \<Longrightarrow> \<exists>out. byte_vec_encode bs = Inr out"
  using varint_encode_total [of "of_nat (length bs)"]
  by (auto simp: byte_vec_encode_def varint_try_from_usize_eq varint_codec_def le_VARINT_MAX unat_of_nat_small)

lemma label_encodes:
  assumes "length label < 1024" "length context < 1024"
  shows "\<exists>info. c_enc label_codec (label_new w label context) = Inr info"
proof -
  have "length (bytes_of ''MLS 1.0 '' @ label) < 2 ^ 30" using assms(1) by (simp add: bytes_of_def)
  moreover have "length context < 2 ^ 30" using assms(2) by simp
  ultimately obtain a b where "byte_vec_encode (bytes_of ''MLS 1.0 '' @ label) = Inr a" "byte_vec_encode context = Inr b"
    using byte_vec_encode_small by blast
  then show ?thesis by (simp add: label_codec_def label_new_def pair_codec_def byte_vec_codec_def stdint_codec_def)
qed

lemma kdf_expand_with_label_total:
  assumes "kdf_total csp" "length secret = kdf_extract_size csp" "length label < 1024" "length context < 1024"
    and "(case len of Some n \<Rightarrow> n | None \<Rightarrow> kdf_extract_size csp) \<in> kdf_sizes csp"
  shows "\<exists>out. kdf_expand_with_label csp secret label context len = Inr out \<and>
    length out = (case len of Some n \<Rightarrow> n | None \<Rightarrow> kdf_extract_size csp)"
proof -
  define n where "n = (case len of Some n \<Rightarrow> n | None \<Rightarrow> kdf_extract_size csp)"
  obtain info where "c_enc label_codec (label_new (of_nat n) label context) = Inr info"
    using label_encodes assms(3,4) by blast
  moreover obtain out where "kdf_expand csp secret info n = Inr out" "length out = n"
    using assms(1,2,5) unfolding kdf_total_def n_def by blast
  ultimately show ?thesis by (simp add: kdf_expand_with_label_def n_def Let_def)
qed

lemma ratchet_kdf_total:
  assumes "kdf_total csp" "length c = kdf_extract_size csp" "length label < 1024" "len \<in> kdf_sizes csp"
  shows "\<exists>out. ratchet_kdf csp c label n len = Inr out \<and> length out = len"
  using kdf_expand_with_label_total [OF assms(1,2), of "bytes_of label" "to_be_bytes (of_nat n :: u32)" "Some len"] assms(3,4)
  by (auto simp: ratchet_kdf_def boxedR_def bytes_of_def to_be_bytes_def)

lemma chain_secret_total:
  assumes "kdf_total csp" "length s = kdf_extract_size csp"
  shows "\<exists>c. chain_secret csp s n = Inr c \<and> length c = kdf_extract_size csp"
proof (induction n)
  case (Suc n)
  then obtain c where "chain_secret csp s n = Inr c" "length c = kdf_extract_size csp" by blast
  then show ?case using ratchet_kdf_total [OF assms(1), of c "''secret''" "kdf_extract_size csp" n] by (simp add: kdf_sizes_def)
qed (use assms in simp)

lemma chain_key_total:
  assumes "kdf_total csp" "length s = kdf_extract_size csp"
  shows "\<exists>k. chain_key csp s n = Inr k \<and> mk_generation k = of_nat n"
proof -
  obtain c where c: "chain_secret csp s n = Inr c" "length c = kdf_extract_size csp" using chain_secret_total [OF assms] by blast
  show ?thesis
    using c ratchet_kdf_total [OF assms(1) c(2), of "''nonce''" "aead_nonce_size csp" n]
      ratchet_kdf_total [OF assms(1) c(2), of "''key''" "aead_key_size csp" n]
    by (auto simp: kdf_sizes_def chain_key_def)
qed

lemma skr_next_refines:
  assumes wf: "kdf_total csp" "length s = kdf_extract_size csp"
    and c: "chain_secret csp s n = Inr (skr_secret r)" and g: "skr_generation r = of_nat n"
  shows "\<exists>k c'. chain_key csp s n = Inr k \<and> chain_secret csp s (Suc n) = Inr c' \<and> mk_generation k = of_nat n \<and>
    skr_next_message_key csp r = (r\<lparr>skr_secret := c', skr_generation := of_nat (Suc n)\<rparr>, Inr k)"
proof -
  have len: "length (skr_secret r) = kdf_extract_size csp" using chain_secret_total [OF wf, of n] c by simp
  obtain nonce key c' where k: "ratchet_kdf csp (skr_secret r) ''nonce'' n (aead_nonce_size csp) = Inr nonce"
    "ratchet_kdf csp (skr_secret r) ''key'' n (aead_key_size csp) = Inr key"
    "ratchet_kdf csp (skr_secret r) ''secret'' n (kdf_extract_size csp) = Inr c'"
    using ratchet_kdf_total [OF wf(1) len, of "''nonce''" "aead_nonce_size csp" n]
      ratchet_kdf_total [OF wf(1) len, of "''key''" "aead_key_size csp" n]
      ratchet_kdf_total [OF wf(1) len, of "''secret''" "kdf_extract_size csp" n] by (auto simp: kdf_sizes_def)
  then show ?thesis
    using c g by (auto simp: skr_next_message_key_def skr_derive_secret_def chain_key_def add.commute
      simp flip: ratchet_kdf_def)
qed

section \<open>Ratchets refine windows\<close>

lemma ratchet_repr_store:
  assumes wf: "kdf_total csp" "length s = kdf_extract_size csp"
    and repr: "ratchet_repr csp s w r" and n: "Suc (kw_next w) < 2 ^ 32"
  shows "\<exists>r' k. skr_next_message_key csp r = (r', Inr k) \<and>
    ratchet_repr csp s (w\<lparr>kw_next := Suc (kw_next w)\<rparr>)
      (r'\<lparr>skr_history := AList.update (mk_generation k) k (skr_history r')\<rparr>)"
proof -
  let ?n = "kw_next w"
  from repr have *: "chain_secret csp s ?n = Inr (skr_secret r)" "skr_generation r = of_nat ?n"
    by (auto simp: ratchet_repr_def)
  obtain k c' where k: "chain_key csp s ?n = Inr k" "chain_secret csp s (Suc ?n) = Inr c'" "mk_generation k = of_nat ?n"
    "skr_next_message_key csp r = (r\<lparr>skr_secret := c', skr_generation := of_nat (Suc ?n)\<rparr>, Inr k)"
    using skr_next_refines [OF wf *] by blast
  have used: "?n \<notin> set (kw_used w)" using repr by (auto simp: ratchet_repr_def)
  have "map_of (AList.update (of_nat ?n) k (skr_history r)) g =
      (if unat g < Suc ?n \<and> unat g \<notin> set (kw_used w) then okR (chain_key csp s (unat g)) else None)" for g
  proof (cases "unat g = ?n")
    case True
    then have "g = of_nat ?n" by (simp flip: True)
    with True used k(1) show ?thesis by (simp add: update_conv')
  next
    case False
    then have "g \<noteq> of_nat ?n" using n by (auto simp: unat_of_nat_small)
    with False show ?thesis using repr by (auto simp: ratchet_repr_def update_conv' less_Suc_eq)
  qed
  with repr k n show ?thesis by (auto simp: ratchet_repr_def)
qed

lemma skr_catch_up_refines:
  assumes wf: "kdf_total csp" "length s = kdf_extract_size csp"
  shows "ratchet_repr csp s w r \<Longrightarrow> kw_next w \<le> unat g \<Longrightarrow>
    \<exists>r'. skr_catch_up csp g r = (r', Inr ()) \<and> ratchet_repr csp s (w\<lparr>kw_next := unat g\<rparr>) r'"
proof (induction "unat g - kw_next w" arbitrary: w r)
  case 0
  then have "kw_next w = unat g" by simp
  moreover from this 0(2) have "skr_generation r = g" by (simp add: ratchet_repr_def)
  ultimately show ?case using 0(2) by (subst skr_catch_up.simps) (auto simp: ratchet_repr_def)
next
  case (Suc m)
  then have less: "kw_next w < unat g" by simp
  then have n: "Suc (kw_next w) < 2 ^ 32" using u32_bound [of g] by simp
  obtain r' k where k: "skr_next_message_key csp r = (r', Inr k)"
    "ratchet_repr csp s (w\<lparr>kw_next := Suc (kw_next w)\<rparr>) (r'\<lparr>skr_history := AList.update (mk_generation k) k (skr_history r')\<rparr>)"
    using ratchet_repr_store [OF wf Suc.prems(1) n] by blast
  have "skr_generation r < g"
    using Suc.prems(1) less n by (simp add: ratchet_repr_def word_less_nat_alt unat_of_nat_small)
  then have "skr_catch_up csp g r = skr_catch_up csp g (r'\<lparr>skr_history := AList.update (mk_generation k) k (skr_history r')\<rparr>)"
    using k(1) by (subst skr_catch_up.simps) simp
  moreover have "m = unat g - kw_next (w\<lparr>kw_next := Suc (kw_next w)\<rparr>)" using Suc(2) by simp
  ultimately show ?case using Suc.hyps(1) [OF _ k(2)] less by simp
qed

lemma ratchet_repr_next:
  assumes wf: "kdf_total csp" "length s = kdf_extract_size csp"
    and repr: "ratchet_repr csp s w r" and n: "Suc (kw_next w) < 2 ^ 32"
  shows "\<exists>r' k. skr_next_message_key csp r = (r', Inr k) \<and> chain_key csp s (kw_next w) = Inr k \<and>
    ratchet_repr csp s \<lparr>kw_next = Suc (kw_next w), kw_used = kw_next w # kw_used w\<rparr> r'"
proof -
  let ?n = "kw_next w"
  from repr have *: "chain_secret csp s ?n = Inr (skr_secret r)" "skr_generation r = of_nat ?n"
    by (auto simp: ratchet_repr_def)
  obtain k c' where k: "chain_key csp s ?n = Inr k" "chain_secret csp s (Suc ?n) = Inr c'" "mk_generation k = of_nat ?n"
    "skr_next_message_key csp r = (r\<lparr>skr_secret := c', skr_generation := of_nat (Suc ?n)\<rparr>, Inr k)"
    using skr_next_refines [OF wf *] by blast
  have "?n \<notin> set (kw_used w)" using repr by (auto simp: ratchet_repr_def)
  then show ?thesis using repr k n by (auto simp: ratchet_repr_def less_Suc_eq)
qed

theorem ratchet_step_refines:
  assumes wf: "kdf_total csp" "length s = kdf_extract_size csp"
    and repr: "ratchet_repr csp s w r" and room: "kw_next w + 1025 < 2 ^ 32"
    and step: "ratchet_step csp op r = (r', k)" "window_step op w = (w', a)"
  shows "ratchet_repr csp s w' r' \<and> k = bindR a (chain_key csp s)"
proof (cases op)
  case Op_Next
  then show ?thesis using ratchet_repr_next [OF wf repr] room step by auto
next
  case (Op_Get g)
  have gen: "unat (skr_generation r) = kw_next w" using repr by (simp add: ratchet_repr_def unat_of_nat_small)
  have max: "unat (skr_generation r + MAX_RATCHET_BACK_HISTORY) = kw_next w + 1024"
    using room gen by (simp add: MAX_RATCHET_BACK_HISTORY_def unat_word_ariths)
  consider (past) "unat g < kw_next w" | (future) "kw_next w + 1024 < unat g"
    | (now) "kw_next w \<le> unat g" "unat g \<le> kw_next w + 1024" by linarith
  then show ?thesis
  proof cases
    case past
    then have "g < skr_generation r" using gen by (simp add: word_less_nat_alt)
    moreover have "map_of (skr_history r) g = (if unat g \<in> set (kw_used w) then None else okR (chain_key csp s (unat g)))"
      using repr past by (simp add: ratchet_repr_def)
    moreover obtain k' where k': "chain_key csp s (unat g) = Inr k'" using chain_key_total [OF wf] by blast
    moreover have "map_of (AList.delete g (skr_history r)) g' =
        (if unat g' < kw_next w \<and> unat g' \<noteq> unat g \<and> unat g' \<notin> set (kw_used w) then okR (chain_key csp s (unat g')) else None)" for g'
      using repr by (cases "g' = g") (auto simp: ratchet_repr_def delete_conv' dest: unsigned_word_eqI)
    ultimately show ?thesis
      using step repr past Op_Get by (auto simp: skr_get_message_key_def ratchet_repr_def split: if_splits)
  next
    case future
    then have "\<not> g < skr_generation r" "skr_generation r + MAX_RATCHET_BACK_HISTORY < g"
      using gen max by (simp_all add: word_less_nat_alt)
    then show ?thesis using step repr future Op_Get by (auto simp: skr_get_message_key_def)
  next
    case now
    then have "\<not> g < skr_generation r" "\<not> skr_generation r + MAX_RATCHET_BACK_HISTORY < g"
      using gen max by (simp_all add: word_less_nat_alt)
    moreover obtain r1 where r1: "skr_catch_up csp g r = (r1, Inr ())" "ratchet_repr csp s (w\<lparr>kw_next := unat g\<rparr>) r1"
      using skr_catch_up_refines [OF wf repr now(1)] by blast
    ultimately show ?thesis
      using ratchet_repr_next [OF wf r1(2)] now room step Op_Get by (auto simp: skr_get_message_key_def)
  qed
qed

section \<open>Secret trees refine families of windows\<close>

fun node_secret :: "cipher_suite_provider \<Rightarrow> byte list \<Rightarrow> nat \<Rightarrow> nat \<Rightarrow> byte list res" where
  "node_secret csp enc 0 i = Inr enc"
| "node_secret csp enc (Suc n) i =
     bindR (node_secret csp enc n (i div 2)) (\<lambda>s.
       kdf_expand_with_label csp s (bytes_of ''tree'') (bytes_of (if even i then ''left'' else ''right'')) None)"

definition leaf_secret :: "cipher_suite_provider \<Rightarrow> byte list \<Rightarrow> nat \<Rightarrow> nat \<Rightarrow> key_type \<Rightarrow> byte list res" where
  "leaf_secret csp enc d l t =
     bindR (node_secret csp enc d l) (\<lambda>s. boxedR (kdf_expand_with_label csp s (key_type_label t) [] None))"

definition leaf_key :: "cipher_suite_provider \<Rightarrow> byte list \<Rightarrow> nat \<Rightarrow> nat \<Rightarrow> key_type \<Rightarrow> nat \<Rightarrow> message_key_data res" where
  "leaf_key csp enc d l t g = bindR (leaf_secret csp enc d l t) (\<lambda>s. chain_key csp s g)"

definition ratchets_repr ::
    "cipher_suite_provider \<Rightarrow> byte list \<Rightarrow> nat \<Rightarrow> nat \<Rightarrow> (key_type \<Rightarrow> key_window) \<Rightarrow> secret_ratchets \<Rightarrow> bool" where
  "ratchets_repr csp enc d l W rs \<longleftrightarrow>
     (\<forall>t. \<exists>s. leaf_secret csp enc d l t = Inr s \<and> ratchet_repr csp s (W t) (ratchet_of t rs))"

text \<open>
  Every leaf is below, or is, exactly one node whose secret is known; an inner node holds its secret of the tree and
  no leaf below it has been used, a leaf may hold its ratchets.
\<close>

definition node_repr ::
    "cipher_suite_provider \<Rightarrow> byte list \<Rightarrow> nat \<Rightarrow> (nat \<Rightarrow> key_type \<Rightarrow> key_window) \<Rightarrow> nat \<Rightarrow> nat \<Rightarrow> secret_tree_node \<Rightarrow> bool" where
  "node_repr csp enc d W k i node =
     (case node of
        ST_Secret s \<Rightarrow> node_secret csp enc (d - k) i = Inr s \<and> (\<forall>l. l div 2 ^ k = i \<longrightarrow> (\<forall>t. W l t = fresh_window))
      | ST_Ratchet rs \<Rightarrow> k = 0 \<and> ratchets_repr csp enc d i (W i) rs)"

definition covers :: "(node_index \<rightharpoonup> secret_tree_node) \<Rightarrow> nat \<Rightarrow> nat \<Rightarrow> nat \<Rightarrow> bool" where
  "covers M d l k \<longleftrightarrow> k \<le> d \<and> M (word_node k (l div 2 ^ k)) \<noteq> None"

definition secrets_repr ::
    "cipher_suite_provider \<Rightarrow> byte list \<Rightarrow> nat \<Rightarrow> (nat \<Rightarrow> key_type \<Rightarrow> key_window) \<Rightarrow> (node_index \<rightharpoonup> secret_tree_node) \<Rightarrow> bool" where
  "secrets_repr csp enc d W M \<longleftrightarrow>
     (\<forall>k i node. in_tree d k i \<longrightarrow> M (word_node k i) = Some node \<longrightarrow> node_repr csp enc d W k i node) \<and>
     (\<forall>l<2 ^ d. \<exists>!k. covers M d l k)"

lemma node_secret_total:
  assumes "kdf_total csp" "length enc = kdf_extract_size csp"
  shows "\<exists>s. node_secret csp enc n i = Inr s \<and> length s = kdf_extract_size csp"
proof (induction n arbitrary: i)
  case (Suc n)
  obtain s where "node_secret csp enc n (i div 2) = Inr s" "length s = kdf_extract_size csp" using Suc by blast
  then show ?case
    using kdf_expand_with_label_total [OF assms(1), of s "bytes_of ''tree''" "bytes_of (if even i then ''left'' else ''right'')" None]
    by (auto simp: kdf_sizes_def bytes_of_def)
qed (use assms in simp)

lemma leaf_secret_total:
  assumes "kdf_total csp" "length enc = kdf_extract_size csp"
  shows "\<exists>s. leaf_secret csp enc d l t = Inr s \<and> length s = kdf_extract_size csp"
proof -
  obtain s where s: "node_secret csp enc d l = Inr s" "length s = kdf_extract_size csp"
    using node_secret_total [OF assms] by blast
  then show ?thesis
    using kdf_expand_with_label_total [OF assms(1), of s "key_type_label t" "[]" None]
    by (auto simp: kdf_sizes_def leaf_secret_def boxedR_def key_type_label_def bytes_of_def split: key_type.splits)
qed

lemma div_pow_Suc: "l div 2 ^ Suc k = l div 2 ^ k div 2" for l :: nat
  by (simp add: div_mult2_eq power_Suc2 del: power_Suc)

lemma in_tree_leaf_path: "l < 2 ^ d \<Longrightarrow> k \<le> d \<Longrightarrow> in_tree d k (l div 2 ^ k)"
  by (simp add: in_tree_def less_mult_imp_div_less flip: power_add)

lemma not_is_leaf_word_node: "k < 31 \<Longrightarrow> \<not> is_leaf (word_node (Suc k) i)"
  using bit_word_node [of "Suc k" i 0] by (simp add: is_leaf_def and_one_eq bit_0 flip: even_iff_mod_2_eq_zero)

lemma consume_node_children:
  assumes wf: "kdf_total csp" "length enc = kdf_extract_size csp"
    and d: "d \<le> 31" and t: "in_tree d (Suc k) q" and m: "map_of m (word_node (Suc k) q) = Some (ST_Secret s)"
    and s: "node_secret csp enc (d - Suc k) q = Inr s"
  shows "\<exists>m' sl sr. consume_node csp m (word_node (Suc k) q) = (m', Inr ()) \<and>
    node_secret csp enc (d - k) (2 * q) = Inr sl \<and> node_secret csp enc (d - k) (2 * q + 1) = Inr sr \<and>
    map_of m' = (map_of m)(word_node (Suc k) q := None, word_node k (2 * q) \<mapsto> ST_Secret sl,
      word_node k (2 * q + 1) \<mapsto> ST_Secret sr)"
proof -
  have dk: "d - k = Suc (d - Suc k)" using t by (simp add: in_tree_def Suc_diff_Suc)
  obtain sl sr where *: "kdf_expand_with_label csp s (bytes_of ''tree'') (bytes_of ''left'') None = Inr sl"
    "kdf_expand_with_label csp s (bytes_of ''tree'') (bytes_of ''right'') None = Inr sr"
    using node_secret_total [OF wf, of "d - k" "2 * q"] node_secret_total [OF wf, of "d - k" "2 * q + 1"] s
    unfolding dk by auto
  moreover have "left_index (word_node (Suc k) q) = Some (word_node k (2 * q))"
    "right_index (word_node (Suc k) q) = Some (word_node k (2 * q + 1))"
    using left_word_node [of k q] right_word_node [of k q] t d not_is_leaf_word_node [of k q]
    by (simp_all add: left_index_def right_index_def in_tree_def)
  ultimately show ?thesis
    using m s unfolding dk by (simp add: consume_node_def take_node_def set_node_def update_conv' delete_conv')
qed

lemma half_cases: "l div 2 ^ Suc k = q \<longleftrightarrow> l div 2 ^ k = 2 * q \<or> l div 2 ^ k = 2 * q + 1" for l :: nat
  unfolding div_pow_Suc by (auto simp: mult.commute)

lemma secrets_repr_split:
  assumes repr: "secrets_repr csp enc d W M" and d: "d \<le> 31" and t: "in_tree d (Suc k) q"
    and M: "M (word_node (Suc k) q) = Some (ST_Secret s)"
    and children: "node_secret csp enc (d - k) (2 * q) = Inr sl" "node_secret csp enc (d - k) (2 * q + 1) = Inr sr"
  shows "secrets_repr csp enc d W (M(word_node (Suc k) q := None, word_node k (2 * q) \<mapsto> ST_Secret sl,
    word_node k (2 * q + 1) \<mapsto> ST_Secret sr))" (is "secrets_repr csp enc d W ?M")
proof -
  have tc: "in_tree d k (2 * q)" "in_tree d k (2 * q + 1)"
    using in_tree_children [OF t] by auto
  have look: "?M (word_node k' i') = (if k' = k \<and> i' = 2 * q + 1 then Some (ST_Secret sr)
      else if k' = k \<and> i' = 2 * q then Some (ST_Secret sl)
      else if k' = Suc k \<and> i' = q then None else M (word_node k' i'))" if "in_tree d k' i'" for k' i'
    using that tc t by (auto simp: word_node_inject [OF _ _ d])
  have fresh: "W l t' = fresh_window" if "l div 2 ^ Suc k = q" for l t'
    using repr t M that unfolding secrets_repr_def node_repr_def by fastforce
  have "node_repr csp enc d W k' i' node" if "in_tree d k' i'" "?M (word_node k' i') = Some node" for k' i' node
    using that repr children fresh unfolding look [OF that(1)] half_cases
    by (auto simp: secrets_repr_def node_repr_def split: if_splits)
  moreover have "\<exists>!k'. covers ?M d l k'" if l: "l < 2 ^ d" for l
  proof -
    have cov: "covers ?M d l k' \<longleftrightarrow> k' \<le> d \<and> (k' = k \<and> l div 2 ^ Suc k = q \<or>
        \<not> (k' = Suc k \<and> l div 2 ^ Suc k = q) \<and> covers M d l k')" for k'
    proof (cases "k' \<le> d")
      case True
      note look' = look [OF in_tree_leaf_path [OF l True]]
      consider "k' = k" | "k' = Suc k" | "k' \<noteq> k" "k' \<noteq> Suc k" by blast
      then show ?thesis
        by cases (use True half_cases [of l k q] look' in \<open>auto simp: covers_def simp del: power_Suc\<close>)
    qed (simp add: covers_def)
    obtain k0 where k0: "covers M d l k0" "\<And>k'. covers M d l k' \<Longrightarrow> k' = k0"
      using repr l unfolding secrets_repr_def by blast
    show ?thesis
    proof (cases "l div 2 ^ Suc k = q")
      case True
      then have "k0 = Suc k"
        using k0(2) [of "Suc k"] M t by (auto simp: covers_def in_tree_def)
      show ?thesis
      proof (rule ex1I [of _ k])
        show "covers ?M d l k" unfolding cov using True t by (simp add: in_tree_def del: power_Suc)
        fix k' assume "covers ?M d l k'"
        then have "k' = k \<or> k' \<noteq> Suc k \<and> covers M d l k'" unfolding cov using True by blast
        then show "k' = k" using k0(2) [of k'] \<open>k0 = Suc k\<close> by blast
      qed
    next
      case False
      then have "covers ?M d l k' \<longleftrightarrow> covers M d l k'" for k' unfolding cov by (auto simp: covers_def)
      then show ?thesis using repr l by (simp add: secrets_repr_def)
    qed
  qed
  ultimately show ?thesis unfolding secrets_repr_def by blast
qed

lemma consume_node_absent:
  "map_of m x = None \<Longrightarrow> \<exists>m'. consume_node csp m x = (m', Inr ()) \<and> map_of m' = map_of m"
  by (auto simp: consume_node_def take_node_def delete_conv')

lemma consume_path:
  assumes wf: "kdf_total csp" "length enc = kdf_extract_size csp" and d: "d \<le> 31" and l: "l < 2 ^ d"
  shows "n \<le> d \<Longrightarrow> secrets_repr csp enc d W (map_of m) \<Longrightarrow> covers (map_of m) d l k \<Longrightarrow> k \<le> n \<Longrightarrow>
    \<exists>m'. consume_nodes csp m (map (\<lambda>j. word_node (Suc j) (l div 2 ^ Suc j)) (rev [0..<n])) = (m', Inr ()) \<and>
      secrets_repr csp enc d W (map_of m') \<and> covers (map_of m') d l 0"
proof (induction n arbitrary: m k)
  case 0
  then show ?case by simp
next
  case (Suc n)
  let ?q = "l div 2 ^ Suc n"
  have t: "in_tree d (Suc n) ?q" using in_tree_leaf_path [OF l Suc.prems(1)] .
  have uniq: "k' = k" if "covers (map_of m) d l k'" for k'
    using Suc.prems(2,3) that l unfolding secrets_repr_def by blast
  obtain m' k' where m': "consume_node csp m (word_node (Suc n) ?q) = (m', Inr ())"
    "secrets_repr csp enc d W (map_of m')" "covers (map_of m') d l k'" "k' \<le> n"
  proof (cases "k = Suc n")
    case True
    then obtain node where node: "map_of m (word_node (Suc n) ?q) = Some node"
      using Suc.prems(3) by (auto simp: covers_def simp del: power_Suc)
    then have "node_repr csp enc d W (Suc n) ?q node" using Suc.prems(2) t by (auto simp: secrets_repr_def simp del: power_Suc)
    then obtain s where s: "node = ST_Secret s" "node_secret csp enc (d - Suc n) ?q = Inr s"
      by (auto simp: node_repr_def split: secret_tree_node.splits simp del: power_Suc)
    obtain m' sl sr where *: "consume_node csp m (word_node (Suc n) ?q) = (m', Inr ())"
      "node_secret csp enc (d - n) (2 * ?q) = Inr sl" "node_secret csp enc (d - n) (2 * ?q + 1) = Inr sr"
      "map_of m' = (map_of m)(word_node (Suc n) ?q := None, word_node n (2 * ?q) \<mapsto> ST_Secret sl,
        word_node n (2 * ?q + 1) \<mapsto> ST_Secret sr)"
      using consume_node_children [OF wf d t _ s(2), of m] node s(1) by blast
    have "secrets_repr csp enc d W (map_of m')"
      unfolding *(4) using node s(1) by (intro secrets_repr_split [OF Suc.prems(2) d t _ *(2,3)]) simp
    moreover have "covers (map_of m') d l n"
      using half_cases [of l n ?q] Suc.prems(1) unfolding covers_def *(4) by auto
    ultimately show ?thesis using that *(1) by blast
  next
    case False
    then have "map_of m (word_node (Suc n) ?q) = None"
      using uniq [of "Suc n"] Suc.prems(1) unfolding covers_def by blast
    from consume_node_absent [OF this] obtain m' where
      "consume_node csp m (word_node (Suc n) ?q) = (m', Inr ())" "map_of m' = map_of m" by blast
    then show ?thesis using that [of m' k] Suc.prems False by simp
  qed
  from Suc.IH [OF _ m'(2-4)] Suc.prems(1) m'(1) show ?case by (simp del: power_Suc)
qed

lemma find_leaf_node_secret_repr:
  assumes wf: "kdf_total csp" "length enc = kdf_extract_size csp" and d: "d \<le> 31" and l: "l < 2 ^ d"
    and repr: "secrets_repr csp enc d W (map_of (known_secrets st))" and n: "st_leaf_count st = 2 ^ d"
  shows "\<exists>m' M node. find_leaf_node_secret csp st (word_node 0 l) = (m', Inr node) \<and> M (word_node 0 l) = Some node \<and>
    map_of m' = M(word_node 0 l := None) \<and> secrets_repr csp enc d W M"
proof (cases "map_of (known_secrets st) (word_node 0 l)")
  case (Some node)
  then show ?thesis using repr by (auto simp: find_leaf_node_secret_def take_node_def delete_conv')
next
  case None
  let ?m = "AList.delete (word_node 0 l) (known_secrets st)"
  have m: "map_of ?m = map_of (known_secrets st)" using None by (auto simp: delete_conv')
  have cps: "direct_copath (word_node 0 l) (2 ^ d) = Some (copath_spec d 0 l)"
    using direct_copath_word_node [OF _ d] l by (simp add: in_tree_def)
  have path: "rev (map path (copath_spec d 0 l)) = map (\<lambda>j. word_node (Suc j) (l div 2 ^ Suc j)) (rev [0..<d])"
    by (simp add: copath_spec_def rev_map comp_def del: power_Suc)
  obtain k where "covers (map_of ?m) d l k" using repr l unfolding m secrets_repr_def by blast
  then obtain m' where m': "consume_nodes csp ?m (rev (map path (copath_spec d 0 l))) = (m', Inr ())"
    "secrets_repr csp enc d W (map_of m')" "covers (map_of m') d l 0"
    using consume_path [OF wf d l order_refl, of W ?m k] repr unfolding m path by (auto simp: covers_def)
  then obtain node where "map_of m' (word_node 0 l) = Some node" by (auto simp: covers_def)
  then show ?thesis
    using None n cps m' by (auto simp: find_leaf_node_secret_def take_node_def delete_conv')
qed

lemma skr_new_repr:
  "boxedR (kdf_expand_with_label csp s (key_type_label t) [] None) = Inr s' \<Longrightarrow>
   \<exists>r. skr_new csp s t = Inr r \<and> ratchet_repr csp s' fresh_window r"
  by (auto simp: skr_new_def ratchet_repr_def fresh_window_def)

lemma take_leaf_ratchet_repr:
  assumes wf: "kdf_total csp" "length enc = kdf_extract_size csp" and d: "d \<le> 31" and l: "l < 2 ^ d"
    and repr: "secrets_repr csp enc d W (map_of (known_secrets st))" and n: "st_leaf_count st = 2 ^ d"
  shows "\<exists>st' M node rs. take_leaf_ratchet csp st (word_node 0 l) = (st', Inr rs) \<and> ratchets_repr csp enc d l (W l) rs \<and>
    st_leaf_count st' = 2 ^ d \<and> M (word_node 0 l) = Some node \<and>
    map_of (known_secrets st') = M(word_node 0 l := None) \<and> secrets_repr csp enc d W M"
proof -
  obtain m' M node where m': "find_leaf_node_secret csp st (word_node 0 l) = (m', Inr node)" "M (word_node 0 l) = Some node"
    "map_of m' = M(word_node 0 l := None)" "secrets_repr csp enc d W M"
    using find_leaf_node_secret_repr [OF assms] by blast
  have t: "in_tree d 0 l" using l by (simp add: in_tree_def)
  have node: "node_repr csp enc d W 0 l node" using m'(2,4) t by (auto simp: secrets_repr_def)
  show ?thesis
  proof (cases node)
    case (ST_Ratchet rs)
    then show ?thesis using m' node n by (auto simp: take_leaf_ratchet_def node_repr_def)
  next
    case (ST_Secret s)
    then have s: "node_secret csp enc d l = Inr s" "\<And>t. W l t = fresh_window" using node by (auto simp: node_repr_def)
    have sec: "leaf_secret csp enc d l t = boxedR (kdf_expand_with_label csp s (key_type_label t) [] None)" for t
      using s(1) by (simp add: leaf_secret_def)
    obtain sa sh where sa: "leaf_secret csp enc d l Application = Inr sa" and sh: "leaf_secret csp enc d l Handshake = Inr sh"
      using leaf_secret_total [OF wf] by blast
    obtain ra where ra: "skr_new csp s Application = Inr ra" "ratchet_repr csp sa fresh_window ra"
      using skr_new_repr sa [unfolded sec] by blast
    obtain rh where rh: "skr_new csp s Handshake = Inr rh" "ratchet_repr csp sh fresh_window rh"
      using skr_new_repr sh [unfolded sec] by blast
    have "\<exists>s. leaf_secret csp enc d l t = Inr s \<and> ratchet_repr csp s (W l t) (ratchet_of t \<lparr>sr_application = ra, sr_handshake = rh\<rparr>)" for t
      using sa sh ra(2) rh(2) s(2) by (cases t) auto
    then have "ratchets_repr csp enc d l (W l) \<lparr>sr_application = ra, sr_handshake = rh\<rparr>" by (simp add: ratchets_repr_def)
    then show ?thesis using m' ST_Secret n ra(1) rh(1) by (auto simp: take_leaf_ratchet_def)
  qed
qed

lemma secrets_repr_put_back:
  assumes repr: "secrets_repr csp enc d W M" and M: "M (word_node 0 l) = Some node" and l: "l < 2 ^ d" and d: "d \<le> 31"
    and rs: "ratchets_repr csp enc d l V rs"
  shows "secrets_repr csp enc d (W(l := V)) (M(word_node 0 l \<mapsto> ST_Ratchet rs))"
proof -
  let ?M = "M(word_node 0 l \<mapsto> ST_Ratchet rs)"
  have t: "in_tree d 0 l" using l by (simp add: in_tree_def)
  have cov: "covers ?M d l' k \<longleftrightarrow> covers M d l' k" for l' k using M by (auto simp: covers_def)
  have only: "k = 0" if "covers M d l k" for k
  proof -
    have "covers M d l 0" using M by (simp add: covers_def)
    then show ?thesis using repr l that unfolding secrets_repr_def by blast
  qed
  have "node_repr csp enc d (W(l := V)) k i node'" if ti: "in_tree d k i" and n: "?M (word_node k i) = Some node'" for k i node'
  proof (cases "k = 0 \<and> i = l")
    case True
    then show ?thesis using n rs by (auto simp: node_repr_def)
  next
    case False
    then have n': "M (word_node k i) = Some node'" using n word_node_inject [OF ti t d] by auto
    then have "node_repr csp enc d W k i node'" using repr ti by (auto simp: secrets_repr_def)
    moreover have "l div 2 ^ k \<noteq> i"
    proof
      assume "l div 2 ^ k = i"
      with n' ti have "covers M d l k" by (auto simp: covers_def in_tree_def)
      with only [of k] False \<open>l div 2 ^ k = i\<close> show False by simp
    qed
    ultimately show ?thesis by (auto simp: node_repr_def split: secret_tree_node.splits)
  qed
  then show ?thesis using repr unfolding secrets_repr_def cov by blast
qed

section \<open>Runs\<close>

type_synonym tree_op = "nat \<times> key_type \<times> ratchet_op"

fun secret_tree_step ::
    "cipher_suite_provider \<Rightarrow> tree_op \<Rightarrow> secret_tree \<Rightarrow> secret_tree \<times> message_key_data res" where
  "secret_tree_step csp (l, t, Op_Next) st = st_next_message_key csp st (node_of_leaf (of_nat l)) t"
| "secret_tree_step csp (l, t, Op_Get g) st = st_message_key_generation csp st (node_of_leaf (of_nat l)) t g"

fun windows_step ::
    "tree_op \<Rightarrow> (nat \<Rightarrow> key_type \<Rightarrow> key_window) \<Rightarrow> (nat \<Rightarrow> key_type \<Rightarrow> key_window) \<times> (nat \<times> key_type \<times> nat res)" where
  "windows_step (l, t, op) W = (let (w, a) = window_step op (W l t) in (W(l := (W l)(t := w)), (l, t, a)))"

definition ratchet_sim :: "cipher_suite_provider \<Rightarrow> byte list \<Rightarrow> nat \<Rightarrow> key_window \<Rightarrow> secret_key_ratchet \<Rightarrow> bool" where
  "ratchet_sim csp s n w r \<longleftrightarrow> kdf_total csp \<and> length s = kdf_extract_size csp \<and> ratchet_repr csp s w r \<and> kw_next w \<le> n"

definition tree_sim ::
    "cipher_suite_provider \<Rightarrow> byte list \<Rightarrow> nat \<Rightarrow> nat \<Rightarrow> (nat \<Rightarrow> key_type \<Rightarrow> key_window) \<Rightarrow> secret_tree \<Rightarrow> bool" where
  "tree_sim csp enc d n W st \<longleftrightarrow> kdf_total csp \<and> length enc = kdf_extract_size csp \<and> d \<le> 31 \<and> st_leaf_count st = 2 ^ d \<and>
     secrets_repr csp enc d W (map_of (known_secrets st)) \<and> (\<forall>l t. kw_next (W l t) \<le> n)"

lemma window_step_cost: "window_step op w = (w', a) \<Longrightarrow> kw_next w' \<le> kw_next w + 1025"
  by (cases op) (auto split: if_splits)

interpretation ratchet: simulation "ratchet_step csp" window_step "ratchet_sim csp s" "\<lambda>a. bindR a (chain_key csp s)"
  "\<lambda>_. True" 1025 "2 ^ 32" for csp s
proof
  fix n a c op c' r a' b
  assume "ratchet_sim csp s n a c" "n + 1025 < 2 ^ 32"
    and step: "ratchet_step csp op c = (c', r)" "window_step op a = (a', b)"
  then show "ratchet_sim csp s (n + 1025) a' c' \<and> r = bindR b (chain_key csp s)"
    using ratchet_step_refines [OF _ _ _ _ step, of s] window_step_cost [OF step(2)] by (auto simp: ratchet_sim_def)
qed

lemma ratchets_step:
  assumes wf: "kdf_total csp" "length enc = kdf_extract_size csp"
    and repr: "ratchets_repr csp enc d l V rs" and room: "kw_next (V t) + 1025 < 2 ^ 32"
    and step: "ratchet_step csp op (ratchet_of t rs) = (r', k)" "window_step op (V t) = (w', a)"
  shows "ratchets_repr csp enc d l (V(t := w')) (set_ratchet t r' rs) \<and> k = bindR a (leaf_key csp enc d l t)"
proof -
  obtain s where s: "leaf_secret csp enc d l t = Inr s" "ratchet_repr csp s (V t) (ratchet_of t rs)"
    using repr unfolding ratchets_repr_def by blast
  then have "length s = kdf_extract_size csp" using leaf_secret_total [OF wf, of d l t] by auto
  from ratchet_step_refines [OF wf(1) this s(2) room step]
  have "ratchet_repr csp s w' r'" "k = bindR a (chain_key csp s)" by auto
  moreover have "ratchet_of t' (set_ratchet t r' rs) = (if t' = t then r' else ratchet_of t' rs)" for t'
    by (cases t; cases t') auto
  moreover have "leaf_key csp enc d l t = chain_key csp s" using s(1) by (auto simp: leaf_key_def)
  ultimately show ?thesis using repr s(1) by (auto simp: ratchets_repr_def)
qed

lemma next_message_key_total:
  assumes "kdf_total csp" "length s = kdf_extract_size csp" "ratchet_repr csp s w r"
  shows "\<exists>r' k. skr_next_message_key csp r = (r', Inr k)"
  using skr_next_refines [OF assms(1,2), of "kw_next w" r] assms(3) by (auto simp: ratchet_repr_def)

lemma secret_tree_step_eq:
  assumes take: "take_leaf_ratchet csp st (node_of_leaf (of_nat l)) = (st1, Inr rs)"
    and r: "ratchet_step csp op (ratchet_of t rs) = (r', k)" and k: "op = Op_Next \<Longrightarrow> \<exists>x. k = Inr x"
  shows "secret_tree_step csp (l, t, op) st =
    (st1\<lparr>known_secrets := set_node (known_secrets st1) (node_of_leaf (of_nat l)) (ST_Ratchet (set_ratchet t r' rs))\<rparr>, k)"
  using assms
  by (cases op) (auto simp: st_next_message_key_def st_message_key_generation_def sr_next_message_key_def
      sr_message_key_generation_def)

lemma secret_tree_step_sim:
  assumes sim: "tree_sim csp enc d n W st" and n: "n + 1025 < 2 ^ 32" and l: "l < 2 ^ d"
    and step: "secret_tree_step csp (l, t, op) st = (st', k)" "windows_step (l, t, op) W = (W', b)"
  shows "tree_sim csp enc d (n + 1025) W' st' \<and> k = (case b of (l, t, a) \<Rightarrow> bindR a (leaf_key csp enc d l t))"
proof -
  from sim have wf: "kdf_total csp" "length enc = kdf_extract_size csp" and d: "d \<le> 31"
    and repr: "secrets_repr csp enc d W (map_of (known_secrets st))" and lc: "st_leaf_count st = 2 ^ d"
    and le: "\<And>l t. kw_next (W l t) \<le> n" by (auto simp: tree_sim_def)
  have node: "node_of_leaf (of_nat l) = word_node 0 l"
    by (simp add: node_of_leaf_word_node)
  obtain st1 M nd rs where take: "take_leaf_ratchet csp st (word_node 0 l) = (st1, Inr rs)"
    and rs: "ratchets_repr csp enc d l (W l) rs" and st1: "st_leaf_count st1 = 2 ^ d" "M (word_node 0 l) = Some nd"
      "map_of (known_secrets st1) = M(word_node 0 l := None)" and M: "secrets_repr csp enc d W M"
    using take_leaf_ratchet_repr [OF wf d l repr lc] by blast
  obtain r' k' where r: "ratchet_step csp op (ratchet_of t rs) = (r', k')" by fastforce
  obtain w' a where w: "window_step op (W l t) = (w', a)" by fastforce
  have room: "kw_next (W l t) + 1025 < 2 ^ 32" using le [of l t] n by linarith
  have rr: "ratchets_repr csp enc d l ((W l)(t := w')) (set_ratchet t r' rs)" "k' = bindR a (leaf_key csp enc d l t)"
    using ratchets_step [OF wf rs room r w] by auto
  have "\<exists>x. k' = Inr x" if "op = Op_Next"
  proof -
    obtain s where s: "leaf_secret csp enc d l t = Inr s" "ratchet_repr csp s (W l t) (ratchet_of t rs)"
      using rs unfolding ratchets_repr_def by blast
    then have "length s = kdf_extract_size csp" using leaf_secret_total [OF wf, of d l t] by auto
    from next_message_key_total [OF wf(1) this s(2)] r that show ?thesis by auto
  qed
  from secret_tree_step_eq [OF take [folded node] r this] step(1)
  have st': "st' = st1\<lparr>known_secrets := set_node (known_secrets st1) (word_node 0 l) (ST_Ratchet (set_ratchet t r' rs))\<rparr>"
    "k = k'" unfolding node by auto
  have "map_of (known_secrets st') = M(word_node 0 l \<mapsto> ST_Ratchet (set_ratchet t r' rs))"
    using st1(3) by (simp add: st'(1) set_node_def update_conv')
  moreover have "W' = W(l := (W l)(t := w'))" "b = (l, t, a)" using step(2) w by auto
  moreover have "kw_next w' \<le> n + 1025" using window_step_cost [OF w] le [of l t] by linarith
  ultimately show ?thesis
    using wf d st1(1) st' rr(2) secrets_repr_put_back [OF M st1(2) l d rr(1)] le
    by (auto simp: tree_sim_def le_SucI trans_le_add1)
qed

interpretation tree: simulation "secret_tree_step csp" windows_step "tree_sim csp enc d"
  "\<lambda>(l, t, a). bindR a (leaf_key csp enc d l t)" "\<lambda>(l, t, op). l < 2 ^ d" 1025 "2 ^ 32" for csp enc d
proof
  fix n W st op st' k W' b
  assume *: "tree_sim csp enc d n W st" "n + 1025 < 2 ^ 32" "case op of (l, t, op) \<Rightarrow> l < 2 ^ d"
    "secret_tree_step csp op st = (st', k)" "windows_step op W = (W', b)"
  obtain l t op' where op: "op = (l, t, op')" by (cases op)
  show "tree_sim csp enc d (n + 1025) W' st' \<and> k = (case b of (l, t, a) \<Rightarrow> bindR a (leaf_key csp enc d l t))"
    using secret_tree_step_sim [OF *(1,2) _ *(4,5) [unfolded op]] *(3) unfolding op by simp
qed

lemma tree_sim_new:
  assumes "kdf_total csp" "length enc = kdf_extract_size csp" "d \<le> 31"
  shows "tree_sim csp enc d 0 (\<lambda>_ _. fresh_window) (secret_tree_new (2 ^ d) enc)"
proof -
  have root: "root_index (2 ^ d) = word_node d 0" using root_index_word_node assms(3) by simp
  have look: "map_of (known_secrets (secret_tree_new (2 ^ d) enc)) (word_node k i) = (if k = d \<and> i = 0 then Some (ST_Secret enc) else None)"
    if "in_tree d k i" for k i
    using that word_node_inject [OF that in_tree_root assms(3)] by (simp add: secret_tree_new_def set_node_def root)
  have "covers (map_of (known_secrets (secret_tree_new (2 ^ d) enc))) d l k \<longleftrightarrow> k = d" if "l < 2 ^ d" for l k
    using that look [OF in_tree_leaf_path [OF that, of k]] by (cases "k \<le> d") (auto simp: covers_def)
  then show ?thesis
    using assms look by (auto simp: tree_sim_def secrets_repr_def node_repr_def secret_tree_new_def fresh_window_def split: if_splits)
qed

text \<open>What a family of windows hands out: no key twice.\<close>

definition handed_out :: "(nat \<times> key_type \<times> nat res) list \<Rightarrow> (nat \<times> key_type \<times> nat) list" where
  "handed_out = List.map_filter (\<lambda>(l, t, a). case a of Inr g \<Rightarrow> Some (l, t, g) | Inl _ \<Rightarrow> None)"

lemma window_step_used:
  assumes "window_step op w = (w', a)" "set (kw_used w) \<subseteq> {..<kw_next w}"
  shows "set (kw_used w') \<subseteq> {..<kw_next w'} \<and>
    (case a of Inr g \<Rightarrow> g \<notin> set (kw_used w) \<and> set (kw_used w') = insert g (set (kw_used w)) | Inl _ \<Rightarrow> w' = w)"
  using assms by (cases op) (fastforce split: if_splits)+

lemma windows_handed_out:
  "\<lbrakk>\<And>l t. set (kw_used (W l t)) \<subseteq> {..<kw_next (W l t)}; runs windows_step ops W = (W', bs)\<rbrakk> \<Longrightarrow>
   distinct (handed_out bs) \<and> (\<forall>(l, t, g)\<in>set (handed_out bs). g \<notin> set (kw_used (W l t)))"
proof (induction ops arbitrary: W bs)
  case (Cons op ops)
  obtain l t op' where op: "op = (l, t, op')" by (cases op)
  obtain w a where w: "window_step op' (W l t) = (w, a)" by fastforce
  let ?W = "W(l := (W l)(t := w))"
  obtain bs' where bs': "runs windows_step ops ?W = (W', bs')" "bs = (l, t, a) # bs'"
    using Cons.prems(2) by (auto simp: op w split: prod.splits)
  note used = window_step_used [OF w Cons.prems(1)]
  have inv: "set (kw_used (?W l t)) \<subseteq> {..<kw_next (?W l t)}" for l t
    using used Cons.prems(1) [of l t] by auto
  note IH = Cons.IH [OF inv bs'(1)]
  show ?case
  proof (cases a)
    case (Inl e)
    then have "?W = W" using used by auto
    then show ?thesis using IH bs'(2) Inl by (simp add: handed_out_def map_filter_simps)
  next
    case (Inr g)
    have "handed_out bs = (l, t, g) # handed_out bs'" using bs'(2) Inr by (simp add: handed_out_def map_filter_simps)
    moreover have "g \<notin> set (kw_used (W l t))" "set (kw_used (?W l t)) = insert g (set (kw_used (W l t)))"
      using used Inr by auto
    ultimately show ?thesis using IH by (fastforce split: if_splits)
  qed
qed (simp add: handed_out_def)

section \<open>Properties\<close>

text \<open>
  C2. Whatever requests for message keys a secret tree of \<open>2 ^ d\<close> leaves receives, in whatever order over its leaves
  and key types, it answers like a family of windows: the key of generation \<open>g\<close> of a leaf is the one the encryption
  secret determines, independent of the order of the requests; no key is handed out twice; a request is refused only
  if its key was handed out already or lies more than 1024 generations ahead.
\<close>
theorem secret_tree_refines_windows:
  assumes "kdf_total csp" "length enc = kdf_extract_size csp" "d \<le> 31"
    and "list_all (\<lambda>(l, t, op). l < 2 ^ d) ops" "1025 * length ops < 2 ^ 32"
    and "runs (secret_tree_step csp) ops (secret_tree_new (2 ^ d) enc) = (st, keys)"
    and "runs windows_step ops (\<lambda>_ _. fresh_window) = (W, answers)"
  shows "keys = map (\<lambda>(l, t, a). bindR a (leaf_key csp enc d l t)) answers \<and> distinct (handed_out answers)"
  using tree.runs_sim [OF tree_sim_new [OF assms(1-3)] _ _ assms(6,7)] assms(4,5)
    windows_handed_out [OF _ assms(7)] by (simp add: fresh_window_def)

definition sample_requests :: "tree_op list" where
  "sample_requests = [(0, Application, Op_Next), (1, Handshake, Op_Get 2), (1, Handshake, Op_Get 0),
     (1, Handshake, Op_Get 0), (0, Application, Op_Next), (1, Handshake, Op_Get 2000)]"

lemma sample_kdf_total: "kdf_total sample_csp"
  unfolding kdf_total_def sample_csp_simps by (auto simp: min_def)

lemma sample_requests_ok:
  "length [7 :: u8] = kdf_extract_size sample_csp" "1 \<le> (31 :: nat)"
  "list_all (\<lambda>(l, t, op). l < 2 ^ 1) sample_requests" "1025 * length sample_requests < 2 ^ 32"
  by (simp_all add: sample_csp_simps sample_requests_def)

theorem secret_tree_refines_windows_witness:
  "snd (runs (secret_tree_step sample_csp) sample_requests (secret_tree_new (2 ^ 1) [7])) =
     [leaf_key sample_csp [7] 1 0 Application 0, leaf_key sample_csp [7] 1 1 Handshake 2,
      leaf_key sample_csp [7] 1 1 Handshake 0, Inl (KeyMissing 0), leaf_key sample_csp [7] 1 0 Application 1,
      Inl (InvalidFutureGeneration 2000)]"
proof -
  obtain st keys where r: "runs (secret_tree_step sample_csp) sample_requests (secret_tree_new (2 ^ 1) [7]) = (st, keys)"
    by fastforce
  obtain W answers where w: "runs windows_step sample_requests (\<lambda>_ _. fresh_window) = (W, answers)" by fastforce
  have "answers = snd (runs windows_step sample_requests (\<lambda>_ _. fresh_window))" using w by simp
  also have "\<dots> = [(0, Application, Inr 0), (1, Handshake, Inr 2), (1, Handshake, Inr 0),
      (1, Handshake, Inl (KeyMissing 0)), (0, Application, Inr 1), (1, Handshake, Inl (InvalidFutureGeneration 2000))]"
    by (simp add: sample_requests_def fresh_window_def)
  finally show ?thesis
    using secret_tree_refines_windows [OF sample_kdf_total sample_requests_ok r w] r by simp
qed



text \<open>
  C31. At the end of the range of generations the window closes: the sum of the generation and the size of the window
  wraps around, and a ratchet within 1024 generations of the end refuses every generation it has not passed.
\<close>
theorem ratchet_window_overflow:
  assumes "2 ^ 32 - 1024 \<le> unat (skr_generation r)" "skr_generation r \<le> g"
  shows "skr_get_message_key csp r g = (r, Inl (InvalidFutureGeneration g))"
proof -
  have "unat (skr_generation r + MAX_RATCHET_BACK_HISTORY) = unat (skr_generation r) + 1024 - 2 ^ 32"
    using assms(1) u32_bound [of "skr_generation r"] by (simp add: MAX_RATCHET_BACK_HISTORY_def unat_word_ariths mod_if)
  then have "skr_generation r + MAX_RATCHET_BACK_HISTORY < g"
    using assms u32_bound [of "skr_generation r"] by (simp add: word_less_nat_alt word_le_nat_alt)
  then show ?thesis using assms(2) by (simp add: skr_get_message_key_def not_less)
qed

theorem ratchet_window_overflow_witness:
  "let r = \<lparr>skr_secret = [7], skr_generation = 0xFFFFFC00, skr_history = []\<rparr>
   in skr_get_message_key sample_csp r 0xFFFFFC00 = (r, Inl (InvalidFutureGeneration 0xFFFFFC00))"
  using ratchet_window_overflow [of "\<lparr>skr_secret = [7], skr_generation = 0xFFFFFC00, skr_history = []\<rparr>" "0xFFFFFC00" sample_csp]
  by simp

end
