(* ===== verification/Proposals.thy ===== *)
theory Proposals
  imports MlsTypesLaws
begin

text \<open>
  Key packages, pre-shared key identifiers and proposals with their wire format
  (\<^verbatim>\<open>mls-rs/src/key_package/mod.rs\<close>, \<^verbatim>\<open>psk.rs\<close>, \<^verbatim>\<open>group/proposal.rs\<close>), and the bundle in which the proposals of
  a commit are grouped by type (\<^verbatim>\<open>group/proposal_filter/bundle.rs\<close>).
\<close>

section \<open>Key packages and references\<close>

record key_package =
  kp_version :: protocol_version
  kp_cipher_suite :: cipher_suite
  kp_hpke_init_key :: hpke_public_key
  kp_leaf_node :: leaf_node
  kp_extensions :: extension_list
  kp_signature :: "byte list"

definition key_package_codec :: "key_package codec" where
  "key_package_codec =
     struct_codec
       (\<lambda>k. (kp_version k, kp_cipher_suite k, kp_hpke_init_key k, kp_leaf_node k, kp_extensions k, kp_signature k))
       (\<lambda>(v, s, i, l, e, g). \<lparr>kp_version = v, kp_cipher_suite = s, kp_hpke_init_key = i, kp_leaf_node = l,
          kp_extensions = e, kp_signature = g\<rparr>)
       (pair_codec u16_codec (pair_codec u16_codec (pair_codec byte_vec_codec (pair_codec leaf_node_codec
         (pair_codec extension_list_codec byte_vec_codec)))))"

definition hash_reference_compute :: "byte list \<Rightarrow> byte list \<Rightarrow> cipher_suite_provider \<Rightarrow> byte list res" where
  "hash_reference_compute value label csp =
     bindR (codecR (c_enc (pair_codec byte_vec_codec byte_vec_codec) (label, value))) (\<lambda>input.
       crypto (csp_hash csp input))"

definition key_package_to_reference :: "key_package \<Rightarrow> cipher_suite_provider \<Rightarrow> byte list res" where
  "key_package_to_reference kp csp =
     (if csp_cipher_suite csp \<noteq> kp_cipher_suite kp then Inl CipherSuiteMismatch
      else bindR (codecR (c_enc key_package_codec kp)) (\<lambda>bytes.
        hash_reference_compute bytes (bytes_of ''MLS 1.0 KeyPackage Reference'') csp))"

definition key_package_expiration :: "key_package \<Rightarrow> mls_time res" where
  "key_package_expiration kp =
     (case ln_source (kp_leaf_node kp) of KeyPackage l \<Rightarrow> Inr (not_after l) | _ \<Rightarrow> Inl InvalidLeafNodeSource)"

definition key_package_signed_bytes :: "key_package \<Rightarrow> byte list res" where
  "key_package_signed_bytes kp =
     bindR (codecR (c_enc (pair_codec u16_codec (pair_codec u16_codec (pair_codec byte_vec_codec
              (pair_codec leaf_node_codec extension_list_codec))))
              (kp_version kp, kp_cipher_suite kp, kp_hpke_init_key kp, kp_leaf_node kp, kp_extensions kp))) (\<lambda>content.
       codecR (c_enc sign_content_codec (sign_content_new ''KeyPackageTBS'' content)))"

definition key_package_verify :: "cipher_suite_provider \<Rightarrow> key_package \<Rightarrow> signature_public_key \<Rightarrow> unit res" where
  "key_package_verify csp kp public_key =
     bindR (key_package_signed_bytes kp) (\<lambda>bytes.
       map_errR (\<lambda>_. InvalidSignature) (csp_verify csp public_key (kp_signature kp) bytes))"

section \<open>Pre-shared key identifiers\<close>

datatype resumption_psk_usage = Psk_Application | Psk_Reinit | Psk_Branch

record resumption_psk =
  rp_usage :: resumption_psk_usage
  rp_group_id :: "byte list"
  rp_epoch :: u64

datatype just_psk_id = Psk_External "byte list" | Psk_Resumption resumption_psk

record psk_id =
  psk_key_id :: just_psk_id
  psk_nonce :: "byte list"

definition resumption_psk_usage_codec :: "resumption_psk_usage codec" where
  "resumption_psk_usage_codec = enum_codec TYPE(u8)
     [variant_of 1 (\<lambda>u. case u of Psk_Application \<Rightarrow> Some () | _ \<Rightarrow> None) (\<lambda>_. Psk_Application) unit_codec,
      variant_of 2 (\<lambda>u. case u of Psk_Reinit \<Rightarrow> Some () | _ \<Rightarrow> None) (\<lambda>_. Psk_Reinit) unit_codec,
      variant_of 3 (\<lambda>u. case u of Psk_Branch \<Rightarrow> Some () | _ \<Rightarrow> None) (\<lambda>_. Psk_Branch) unit_codec]"

definition resumption_psk_codec :: "resumption_psk codec" where
  "resumption_psk_codec =
     struct_codec (\<lambda>r. (rp_usage r, rp_group_id r, rp_epoch r))
       (\<lambda>(u, g, e). \<lparr>rp_usage = u, rp_group_id = g, rp_epoch = e\<rparr>)
       (pair_codec resumption_psk_usage_codec (pair_codec byte_vec_codec u64_codec))"

definition just_psk_id_codec :: "just_psk_id codec" where
  "just_psk_id_codec = enum_codec TYPE(u8)
     [variant_of 1 (\<lambda>k. case k of Psk_External e \<Rightarrow> Some e | _ \<Rightarrow> None) Psk_External byte_vec_codec,
      variant_of 2 (\<lambda>k. case k of Psk_Resumption r \<Rightarrow> Some r | _ \<Rightarrow> None) Psk_Resumption resumption_psk_codec]"

definition psk_id_codec :: "psk_id codec" where
  "psk_id_codec =
     struct_codec (\<lambda>p. (psk_key_id p, psk_nonce p)) (\<lambda>(k, n). \<lparr>psk_key_id = k, psk_nonce = n\<rparr>)
       (pair_codec just_psk_id_codec byte_vec_codec)"

section \<open>Proposals\<close>

record re_init_proposal =
  ri_group_id :: "byte list"
  ri_version :: protocol_version
  ri_cipher_suite :: cipher_suite
  ri_extensions :: extension_list

definition re_init_codec :: "re_init_proposal codec" where
  "re_init_codec =
     struct_codec (\<lambda>r. (ri_group_id r, ri_version r, ri_cipher_suite r, ri_extensions r))
       (\<lambda>(g, v, s, e). \<lparr>ri_group_id = g, ri_version = v, ri_cipher_suite = s, ri_extensions = e\<rparr>)
       (pair_codec byte_vec_codec (pair_codec u16_codec (pair_codec u16_codec extension_list_codec)))"

text \<open>
  A proposal whose only field is a value is that value: \<^verbatim>\<open>AddProposal\<close> is its key package, \<^verbatim>\<open>UpdateProposal\<close>
  its leaf node, \<^verbatim>\<open>RemoveProposal\<close> its leaf index, \<^verbatim>\<open>PreSharedKeyProposal\<close> its identifier, \<^verbatim>\<open>ExternalInit\<close> its
  KEM output.
\<close>

datatype proposal =
    Prop_Add key_package
  | Prop_Update leaf_node
  | Prop_Remove leaf_index
  | Prop_Psk psk_id
  | Prop_ReInit re_init_proposal
  | Prop_ExternalInit "byte list"
  | Prop_GroupContextExtensions extension_list
  | Prop_Custom proposal_type "byte list"

definition removing :: "u32 \<Rightarrow> leaf_index res" where
  "removing member_index = leaf_index_try_from member_index"

fun proposal_type_of :: "proposal \<Rightarrow> proposal_type" where
  "proposal_type_of (Prop_Add _) = 1"
| "proposal_type_of (Prop_Update _) = 2"
| "proposal_type_of (Prop_Remove _) = 3"
| "proposal_type_of (Prop_Psk _) = 4"
| "proposal_type_of (Prop_ReInit _) = 5"
| "proposal_type_of (Prop_ExternalInit _) = 6"
| "proposal_type_of (Prop_GroupContextExtensions _) = 7"
| "proposal_type_of (Prop_Custom t _) = t"

fun proposal_inner_len :: "proposal \<Rightarrow> nat" where
  "proposal_inner_len (Prop_Add kp) = c_len key_package_codec kp"
| "proposal_inner_len (Prop_Update l) = c_len leaf_node_codec l"
| "proposal_inner_len (Prop_Remove i) = c_len leaf_index_codec i"
| "proposal_inner_len (Prop_Psk p) = c_len psk_id_codec p"
| "proposal_inner_len (Prop_ReInit r) = c_len re_init_codec r"
| "proposal_inner_len (Prop_ExternalInit k) = byte_vec_len k"
| "proposal_inner_len (Prop_GroupContextExtensions e) = c_len extension_list_codec e"
| "proposal_inner_len (Prop_Custom _ d) = byte_vec_len d"

fun proposal_inner_encode :: "proposal \<Rightarrow> codec_error + byte list" where
  "proposal_inner_encode (Prop_Add kp) = c_enc key_package_codec kp"
| "proposal_inner_encode (Prop_Update l) = c_enc leaf_node_codec l"
| "proposal_inner_encode (Prop_Remove i) = c_enc leaf_index_codec i"
| "proposal_inner_encode (Prop_Psk p) = c_enc psk_id_codec p"
| "proposal_inner_encode (Prop_ReInit r) = c_enc re_init_codec r"
| "proposal_inner_encode (Prop_ExternalInit k) = byte_vec_encode k"
| "proposal_inner_encode (Prop_GroupContextExtensions e) = c_enc extension_list_codec e"
| "proposal_inner_encode (Prop_Custom t d) = (if t \<le> 7 then Inl (Custom 2) else byte_vec_encode d)"

definition proposal_decode :: "byte list \<Rightarrow> codec_error + proposal \<times> byte list" where
  "proposal_decode reader = bindR (c_dec u16_codec reader) (\<lambda>(t, reader).
     if t = 1 then bindR (c_dec key_package_codec reader) (\<lambda>(x, reader). Inr (Prop_Add x, reader))
     else if t = 2 then bindR (c_dec leaf_node_codec reader) (\<lambda>(x, reader). Inr (Prop_Update x, reader))
     else if t = 3 then bindR (c_dec leaf_index_codec reader) (\<lambda>(x, reader). Inr (Prop_Remove x, reader))
     else if t = 4 then bindR (c_dec psk_id_codec reader) (\<lambda>(x, reader). Inr (Prop_Psk x, reader))
     else if t = 5 then bindR (c_dec re_init_codec reader) (\<lambda>(x, reader). Inr (Prop_ReInit x, reader))
     else if t = 6 then bindR (c_dec byte_vec_codec reader) (\<lambda>(x, reader). Inr (Prop_ExternalInit x, reader))
     else if t = 7 then bindR (c_dec extension_list_codec reader) (\<lambda>(x, reader). Inr (Prop_GroupContextExtensions x, reader))
     else bindR (byte_vec_decode reader) (\<lambda>(d, reader). Inr (Prop_Custom t d, reader)))"

definition proposal_codec :: "proposal codec" where
  "proposal_codec = \<lparr>
     c_len = (\<lambda>p. c_len u16_codec (proposal_type_of p) + proposal_inner_len p),
     c_enc = (\<lambda>p. bindR (c_enc u16_codec (proposal_type_of p)) (\<lambda>bs.
        bindR (proposal_inner_encode p) (\<lambda>bs'. Inr (bs @ bs')))),
     c_dec = proposal_decode\<rparr>"

section \<open>Bundles\<close>

datatype sender = Sender_Member u32 | Sender_External u32 | Sender_NewMemberProposal | Sender_NewMemberCommit

type_synonym proposal_ref = "byte list"

datatype proposal_source = ByValue | ByReference proposal_ref | Local

record 'a proposal_info =
  pi_proposal :: 'a
  pi_sender :: sender
  pi_source :: proposal_source

definition proposal_info_new :: "'a \<Rightarrow> sender \<Rightarrow> bool \<Rightarrow> 'a proposal_info" where
  "proposal_info_new p s can_transmit =
     \<lparr>pi_proposal = p, pi_sender = s, pi_source = (if can_transmit then ByValue else Local)\<rparr>"

definition info_map :: "('a \<Rightarrow> 'b) \<Rightarrow> 'a proposal_info \<Rightarrow> 'b proposal_info" where
  "info_map f p = \<lparr>pi_proposal = f (pi_proposal p), pi_sender = pi_sender p, pi_source = pi_source p\<rparr>"

definition is_by_reference :: "'a proposal_info \<Rightarrow> bool" where
  "is_by_reference p = (case pi_source p of ByReference _ \<Rightarrow> True | _ \<Rightarrow> False)"

definition is_by_value :: "'a proposal_info \<Rightarrow> bool" where
  "is_by_value p \<longleftrightarrow> \<not> is_by_reference p"

definition info_ref :: "'a proposal_info \<Rightarrow> proposal_ref option" where
  "info_ref p = (case pi_source p of ByReference r \<Rightarrow> Some r | _ \<Rightarrow> None)"

record proposal_bundle =
  additions :: "key_package proposal_info list"
  updates :: "leaf_node proposal_info list"
  update_senders :: "leaf_index list"
  removals :: "leaf_index proposal_info list"
  psks :: "psk_id proposal_info list"
  reinitializations :: "re_init_proposal proposal_info list"
  external_initializations :: "byte list proposal_info list"
  group_context_extensions :: "extension_list proposal_info list"
  custom_proposals :: "(proposal_type \<times> byte list) proposal_info list"

definition empty_bundle :: proposal_bundle where
  "empty_bundle = \<lparr>additions = [], updates = [], update_senders = [], removals = [], psks = [],
     reinitializations = [], external_initializations = [], group_context_extensions = [], custom_proposals = []\<rparr>"

fun bundle_add :: "proposal_bundle \<Rightarrow> proposal \<Rightarrow> sender \<Rightarrow> proposal_source \<Rightarrow> proposal_bundle" where
  "bundle_add b (Prop_Add p) s src = b\<lparr>additions := additions b @ [\<lparr>pi_proposal = p, pi_sender = s, pi_source = src\<rparr>]\<rparr>"
| "bundle_add b (Prop_Update p) s src = b\<lparr>updates := updates b @ [\<lparr>pi_proposal = p, pi_sender = s, pi_source = src\<rparr>]\<rparr>"
| "bundle_add b (Prop_Remove p) s src = b\<lparr>removals := removals b @ [\<lparr>pi_proposal = p, pi_sender = s, pi_source = src\<rparr>]\<rparr>"
| "bundle_add b (Prop_Psk p) s src = b\<lparr>psks := psks b @ [\<lparr>pi_proposal = p, pi_sender = s, pi_source = src\<rparr>]\<rparr>"
| "bundle_add b (Prop_ReInit p) s src =
     b\<lparr>reinitializations := reinitializations b @ [\<lparr>pi_proposal = p, pi_sender = s, pi_source = src\<rparr>]\<rparr>"
| "bundle_add b (Prop_ExternalInit p) s src =
     b\<lparr>external_initializations := external_initializations b @ [\<lparr>pi_proposal = p, pi_sender = s, pi_source = src\<rparr>]\<rparr>"
| "bundle_add b (Prop_GroupContextExtensions p) s src =
     b\<lparr>group_context_extensions := group_context_extensions b @ [\<lparr>pi_proposal = p, pi_sender = s, pi_source = src\<rparr>]\<rparr>"
| "bundle_add b (Prop_Custom t d) s src =
     b\<lparr>custom_proposals := custom_proposals b @ [\<lparr>pi_proposal = (t, d), pi_sender = s, pi_source = src\<rparr>]\<rparr>"

definition bundle_from_iter :: "(proposal \<times> sender \<times> proposal_source) list \<Rightarrow> proposal_bundle" where
  "bundle_from_iter xs = foldl (\<lambda>b (p, s, src). bundle_add b p s src) empty_bundle xs"

text \<open>\<^verbatim>\<open>Vec::remove\<close> behind the bounds check of \<^verbatim>\<open>Proposable::remove\<close>.\<close>

definition remove_at :: "nat \<Rightarrow> 'a list \<Rightarrow> 'a list" where
  "remove_at i xs = (if i < length xs then take i xs @ drop (Suc i) xs else xs)"

text \<open>\<^verbatim>\<open>retain_by_type\<close>: the proposals the predicate keeps, and the first error it raised, if any.\<close>

fun retain_by :: "('a \<Rightarrow> 'e + bool) \<Rightarrow> 'a list \<Rightarrow> 'a list \<times> ('e + unit)" where
  "retain_by f [] = ([], Inr ())"
| "retain_by f (p # ps) =
     (let (kept, r) = retain_by f ps
      in case f p of
           Inr b \<Rightarrow> (if b then p # kept else kept, r)
         | Inl e \<Rightarrow> (kept, Inl e))"

definition bundle_length :: "proposal_bundle \<Rightarrow> nat" where
  "bundle_length b = length (psks b) + length (external_initializations b) + length (custom_proposals b) +
     length (updates b) + length (additions b) + length (removals b) + length (reinitializations b) +
     length (group_context_extensions b)"

definition iter_proposals :: "proposal_bundle \<Rightarrow> proposal proposal_info list" where
  "iter_proposals b =
     map (info_map Prop_Add) (additions b) @ map (info_map Prop_Remove) (removals b) @
     map (info_map Prop_ReInit) (reinitializations b) @ map (info_map Prop_Update) (updates b) @
     map (info_map Prop_Psk) (psks b) @ map (info_map Prop_ExternalInit) (external_initializations b) @
     map (info_map Prop_GroupContextExtensions) (group_context_extensions b) @
     map (info_map (\<lambda>(t, d). Prop_Custom t d)) (custom_proposals b)"

definition into_proposals :: "proposal_bundle \<Rightarrow> proposal proposal_info list" where
  "into_proposals b =
     map (info_map (\<lambda>(t, d). Prop_Custom t d)) (custom_proposals b) @
     map (info_map Prop_ExternalInit) (external_initializations b) @ map (info_map Prop_Psk) (psks b) @
     map (info_map Prop_Update) (updates b) @ map (info_map Prop_Add) (additions b) @
     map (info_map Prop_Remove) (removals b) @ map (info_map Prop_ReInit) (reinitializations b) @
     map (info_map Prop_GroupContextExtensions) (group_context_extensions b)"

datatype proposal_or_ref = PoR_Proposal proposal | PoR_Reference proposal_ref

definition proposals_or_refs :: "proposal_bundle \<Rightarrow> proposal_or_ref list" where
  "proposals_or_refs b = List.map_filter (\<lambda>p.
     case pi_source p of
       ByValue \<Rightarrow> Some (PoR_Proposal (pi_proposal p))
     | ByReference r \<Rightarrow> Some (PoR_Reference r)
     | Local \<Rightarrow> None) (iter_proposals b)"

definition bundle_proposal_types :: "proposal_bundle \<Rightarrow> proposal_type list" where
  "bundle_proposal_types b =
     (if additions b \<noteq> [] then [1] else []) @ (if removals b \<noteq> [] then [3] else []) @
     (if reinitializations b \<noteq> [] then [5] else []) @ (if updates b \<noteq> [] then [2] else []) @
     (if psks b \<noteq> [] then [4] else []) @ (if external_initializations b \<noteq> [] then [6] else []) @
     (if group_context_extensions b \<noteq> [] then [7] else []) @
     foldr (\<lambda>t ts. t # filter (\<lambda>t'. t' \<noteq> t) ts) (map (fst \<circ> pi_proposal) (custom_proposals b)) []"

end
