(* ===== verification/KeySchedule.thy ===== *)
theory KeySchedule
  imports SecretTreeLaws Proposals
begin

text \<open>
  The key schedule (\<^verbatim>\<open>mls-rs/src/group/key_schedule.rs\<close>), the secrets of an epoch (\<^verbatim>\<open>group/epoch.rs\<close>) and the
  pre-shared key secret (\<^verbatim>\<open>psk/secret.rs\<close>, \<^verbatim>\<open>psk/resolver.rs\<close>). Secrets are byte lists.
\<close>

section \<open>Pre-shared keys\<close>

record psk_secret_input =
  psi_id :: psk_id
  psi_psk :: "byte list"

definition psk_label_codec :: "(psk_id \<times> u16 \<times> u16) codec" where
  "psk_label_codec = pair_codec psk_id_codec (pair_codec u16_codec u16_codec)"

definition psk_secret_new :: "cipher_suite_provider \<Rightarrow> byte list" where
  "psk_secret_new csp = replicate (kdf_extract_size csp) 0"

definition psk_secret_step ::
    "cipher_suite_provider \<Rightarrow> u16 \<Rightarrow> byte list \<Rightarrow> nat \<times> psk_secret_input \<Rightarrow> byte list res" where
  "psk_secret_step csp cnt psk_secret = (\<lambda>(index, input).
     bindR (crypto (kdf_extract csp (replicate (kdf_extract_size csp) 0) (psi_psk input))) (\<lambda>psk_extracted.
     bindR (codecR (c_enc psk_label_codec (psi_id input, of_nat index, cnt))) (\<lambda>label.
     bindR (kdf_expand_with_label csp psk_extracted (bytes_of ''derived psk'') label None) (\<lambda>psk_input.
       crypto (kdf_extract csp psk_input psk_secret)))))"

definition psk_secret_calculate :: "psk_secret_input list \<Rightarrow> cipher_suite_provider \<Rightarrow> byte list res" where
  "psk_secret_calculate input csp =
     bindR (guardR (length input < 2 ^ 16) (Message_Error TooManyPskIds)) (\<lambda>_.
       foldR (psk_secret_step csp (of_nat (length input))) (psk_secret_new csp) (List.enumerate 0 input))"

section \<open>Secrets of an epoch\<close>

record epoch_secrets =
  resumption_secret :: "byte list"
  sender_data_secret :: "byte list"
  epoch_secret_tree :: secret_tree

record key_schedule =
  exporter_secret :: "byte list"
  authentication_secret :: "byte list"
  external_secret :: "byte list"
  membership_key :: "byte list"
  init_secret :: "byte list"

record key_schedule_result =
  kdr_key_schedule :: key_schedule
  kdr_confirmation_key :: "byte list"
  kdr_joiner_secret :: "byte list"
  kdr_epoch_secrets :: epoch_secrets

definition key_schedule_new :: "byte list \<Rightarrow> key_schedule" where
  "key_schedule_new init = \<lparr>exporter_secret = [], authentication_secret = [], external_secret = [],
     membership_key = [], init_secret = init\<rparr>"

definition delete_exporter :: "key_schedule \<Rightarrow> key_schedule" where
  "delete_exporter ks = ks\<lparr>exporter_secret := []\<rparr>"

definition get_pre_epoch_secret :: "cipher_suite_provider \<Rightarrow> byte list \<Rightarrow> byte list \<Rightarrow> byte list res" where
  "get_pre_epoch_secret csp psk_secret joiner_secret = crypto (kdf_extract csp joiner_secret psk_secret)"

definition from_epoch_secret :: "cipher_suite_provider \<Rightarrow> byte list \<Rightarrow> u32 \<Rightarrow> key_schedule_result res" where
  "from_epoch_secret csp epoch_secret secret_tree_size =
     (let derive = (\<lambda>label. kdf_derive_secret csp epoch_secret (bytes_of label)) in
      bindR (derive ''resumption'') (\<lambda>resumption.
      bindR (derive ''sender data'') (\<lambda>sender_data.
      bindR (derive ''encryption'') (\<lambda>encryption.
      bindR (derive ''exporter'') (\<lambda>exporter.
      bindR (derive ''authentication'') (\<lambda>authentication.
      bindR (derive ''external'') (\<lambda>external.
      bindR (derive ''membership'') (\<lambda>membership.
      bindR (derive ''init'') (\<lambda>init.
      bindR (derive ''confirm'') (\<lambda>confirm.
        Inr \<lparr>kdr_key_schedule = \<lparr>exporter_secret = exporter, authentication_secret = authentication,
               external_secret = external, membership_key = membership, init_secret = init\<rparr>,
             kdr_confirmation_key = confirm, kdr_joiner_secret = [],
             kdr_epoch_secrets = \<lparr>resumption_secret = resumption, sender_data_secret = sender_data,
               epoch_secret_tree = secret_tree_new secret_tree_size encryption\<rparr>\<rparr>))))))))))"

definition from_joiner ::
    "cipher_suite_provider \<Rightarrow> byte list \<Rightarrow> group_context \<Rightarrow> u32 \<Rightarrow> byte list \<Rightarrow> key_schedule_result res" where
  "from_joiner csp joiner_secret context secret_tree_size psk_secret =
     bindR (get_pre_epoch_secret csp psk_secret joiner_secret) (\<lambda>epoch_seed.
     bindR (codecR (c_enc group_context_codec context)) (\<lambda>context.
     bindR (kdf_expand_with_label csp epoch_seed (bytes_of ''epoch'') context None) (\<lambda>epoch_secret.
       from_epoch_secret csp epoch_secret secret_tree_size)))"

definition from_key_schedule ::
    "key_schedule \<Rightarrow> byte list \<Rightarrow> group_context \<Rightarrow> u32 \<Rightarrow> byte list \<Rightarrow> cipher_suite_provider \<Rightarrow> key_schedule_result res" where
  "from_key_schedule last_ks commit_secret context secret_tree_size psk_secret csp =
     bindR (crypto (kdf_extract csp (init_secret last_ks) commit_secret)) (\<lambda>joiner_seed.
     bindR (codecR (c_enc group_context_codec context)) (\<lambda>context_bytes.
     bindR (kdf_expand_with_label csp joiner_seed (bytes_of ''joiner'') context_bytes None) (\<lambda>joiner_secret.
     bindR (from_joiner csp joiner_secret context secret_tree_size psk_secret) (\<lambda>r.
       Inr (r\<lparr>kdr_joiner_secret := joiner_secret\<rparr>)))))"

text \<open>The random bytes of \<^verbatim>\<open>from_random_epoch_secret\<close> are an argument.\<close>

definition from_random_epoch_secret ::
    "cipher_suite_provider \<Rightarrow> any_error + byte list \<Rightarrow> u32 \<Rightarrow> key_schedule_result res" where
  "from_random_epoch_secret csp random secret_tree_size =
     bindR (crypto random) (\<lambda>epoch_secret. from_epoch_secret csp epoch_secret secret_tree_size)"

definition export_secret ::
    "key_schedule \<Rightarrow> byte list \<Rightarrow> byte list \<Rightarrow> nat \<Rightarrow> cipher_suite_provider \<Rightarrow> byte list res" where
  "export_secret ks label context len csp =
     (if exporter_secret ks = [] then Inl (Message_Error ExporterDeleted)
      else bindR (kdf_derive_secret csp (exporter_secret ks) label) (\<lambda>secret.
           bindR (crypto (csp_hash csp context)) (\<lambda>context_hash.
             kdf_expand_with_label csp secret (bytes_of ''exported'') context_hash (Some len))))"

definition get_external_key_pair ::
    "key_schedule \<Rightarrow> cipher_suite_provider \<Rightarrow> (hpke_secret_key \<times> hpke_public_key) res" where
  "get_external_key_pair ks csp = crypto (kem_derive csp (external_secret ks))"

definition EXPORTER_CONTEXT :: "byte list" where
  "EXPORTER_CONTEXT = bytes_of ''MLS 1.0 external init secret''"

text \<open>The KEM output and the context that \<^verbatim>\<open>hpke_setup_s\<close> draws are an argument.\<close>

definition encode_for_external ::
    "cipher_suite_provider \<Rightarrow> any_error + byte list \<times> hpke_context \<Rightarrow> (byte list \<times> byte list) res" where
  "encode_for_external csp setup =
     bindR (crypto setup) (\<lambda>(kem_output, context).
     bindR (crypto (context EXPORTER_CONTEXT (kdf_extract_size csp))) (\<lambda>init. Inr (init, kem_output)))"

definition decode_for_external ::
    "cipher_suite_provider \<Rightarrow> byte list \<Rightarrow> hpke_secret_key \<Rightarrow> hpke_public_key \<Rightarrow> byte list res" where
  "decode_for_external csp kem_out secret public =
     bindR (crypto (hpke_setup_r csp kem_out secret public [])) (\<lambda>context.
       crypto (context EXPORTER_CONTEXT (kdf_extract_size csp)))"

definition derive_for_external :: "key_schedule \<Rightarrow> byte list \<Rightarrow> cipher_suite_provider \<Rightarrow> key_schedule res" where
  "derive_for_external ks kem_out csp =
     bindR (get_external_key_pair ks csp) (\<lambda>(secret, public).
     bindR (decode_for_external csp kem_out secret public) (\<lambda>init. Inr (key_schedule_new init)))"

section \<open>The secret of a welcome message\<close>

definition get_welcome_secret :: "cipher_suite_provider \<Rightarrow> byte list \<Rightarrow> byte list \<Rightarrow> byte list res" where
  "get_welcome_secret csp joiner_secret psk_secret =
     bindR (get_pre_epoch_secret csp psk_secret joiner_secret) (\<lambda>epoch_seed.
       kdf_derive_secret csp epoch_seed (bytes_of ''welcome''))"

record welcome_secret =
  ws_key :: "byte list"
  ws_nonce :: "byte list"

definition welcome_from_joiner_secret :: "cipher_suite_provider \<Rightarrow> byte list \<Rightarrow> byte list \<Rightarrow> welcome_secret res" where
  "welcome_from_joiner_secret csp joiner_secret psk_secret =
     bindR (get_welcome_secret csp joiner_secret psk_secret) (\<lambda>s.
     bindR (kdf_expand_with_label csp s (bytes_of ''key'') [] (Some (aead_key_size csp))) (\<lambda>key.
     bindR (kdf_expand_with_label csp s (bytes_of ''nonce'') [] (Some (aead_nonce_size csp))) (\<lambda>nonce.
       Inr \<lparr>ws_key = key, ws_nonce = nonce\<rparr>)))"

definition welcome_encrypt :: "cipher_suite_provider \<Rightarrow> welcome_secret \<Rightarrow> byte list \<Rightarrow> byte list res" where
  "welcome_encrypt csp w plaintext = crypto (aead_seal csp (ws_key w) plaintext None (ws_nonce w))"

definition welcome_decrypt :: "cipher_suite_provider \<Rightarrow> welcome_secret \<Rightarrow> byte list \<Rightarrow> byte list res" where
  "welcome_decrypt csp w ct = crypto (aead_open csp (ws_key w) ct None (ws_nonce w))"

section \<open>Properties\<close>

lemma from_epoch_secret_joiner:
  "from_epoch_secret csp epoch_secret n = Inr r \<Longrightarrow> r\<lparr>kdr_joiner_secret := []\<rparr> = r"
  by (auto simp: from_epoch_secret_def Let_def)


definition sample_context :: group_context where
  "sample_context = group_context_new 1 1 [1] [2] []"




end
