(* ===== verification/Framing.thy ===== *)
theory Framing
  imports KeySchedule NodeVec
begin

text \<open>
  The messages of the protocol and their wire format: update paths and commits
  (\<^verbatim>\<open>tree_kem/update_path.rs\<close>, \<^verbatim>\<open>group/commit.rs\<close>), framed content, public and private messages
  (\<^verbatim>\<open>group/framing.rs\<close>), the data that authenticates a content (\<^verbatim>\<open>group/message_signature.rs\<close>), group infos and
  welcome messages. On top of them the signatures, the membership and confirmation tags, the transcript hashes and the
  verification of public messages (\<^verbatim>\<open>membership_tag.rs\<close>, \<^verbatim>\<open>confirmation_tag.rs\<close>, \<^verbatim>\<open>transcript_hash.rs\<close>,
  \<^verbatim>\<open>message_verifier.rs\<close>).
\<close>

section \<open>Update paths and commits\<close>

definition hpke_ciphertext_codec :: "hpke_ciphertext codec" where
  "hpke_ciphertext_codec =
     struct_codec (\<lambda>c. (kem_output c, ciphertext c)) (\<lambda>(k, c). \<lparr>kem_output = k, ciphertext = c\<rparr>)
       (pair_codec byte_vec_codec byte_vec_codec)"

record update_path_node =
  upn_public_key :: hpke_public_key
  encrypted_path_secret :: "hpke_ciphertext list"

definition update_path_node_codec :: "update_path_node codec" where
  "update_path_node_codec =
     struct_codec (\<lambda>n. (upn_public_key n, encrypted_path_secret n))
       (\<lambda>(k, e). \<lparr>upn_public_key = k, encrypted_path_secret = e\<rparr>)
       (pair_codec byte_vec_codec (vec_codec hpke_ciphertext_codec))"

record update_path =
  up_leaf_node :: leaf_node
  up_nodes :: "update_path_node list"

definition update_path_codec :: "update_path codec" where
  "update_path_codec =
     struct_codec (\<lambda>p. (up_leaf_node p, up_nodes p)) (\<lambda>(l, n). \<lparr>up_leaf_node = l, up_nodes = n\<rparr>)
       (pair_codec leaf_node_codec (vec_codec update_path_node_codec))"

definition proposal_or_ref_codec :: "proposal_or_ref codec" where
  "proposal_or_ref_codec = enum_codec TYPE(u8)
     [variant_of 1 (\<lambda>p. case p of PoR_Proposal x \<Rightarrow> Some x | _ \<Rightarrow> None) PoR_Proposal proposal_codec,
      variant_of 2 (\<lambda>p. case p of PoR_Reference r \<Rightarrow> Some r | _ \<Rightarrow> None) PoR_Reference byte_vec_codec]"

record commit =
  cm_proposals :: "proposal_or_ref list"
  cm_path :: "update_path option"

definition commit_codec :: "commit codec" where
  "commit_codec =
     struct_codec (\<lambda>c. (cm_proposals c, cm_path c)) (\<lambda>(p, u). \<lparr>cm_proposals = p, cm_path = u\<rparr>)
       (pair_codec (vec_codec proposal_or_ref_codec) (option_codec update_path_codec))"

section \<open>Content\<close>

datatype content_type = Ct_Application | Ct_Proposal | Ct_Commit

definition content_type_codec :: "content_type codec" where
  "content_type_codec = enum_codec TYPE(u8)
     [variant_of 1 (\<lambda>t. case t of Ct_Application \<Rightarrow> Some () | _ \<Rightarrow> None) (\<lambda>_. Ct_Application) unit_codec,
      variant_of 2 (\<lambda>t. case t of Ct_Proposal \<Rightarrow> Some () | _ \<Rightarrow> None) (\<lambda>_. Ct_Proposal) unit_codec,
      variant_of 3 (\<lambda>t. case t of Ct_Commit \<Rightarrow> Some () | _ \<Rightarrow> None) (\<lambda>_. Ct_Commit) unit_codec]"

definition sender_codec :: "sender codec" where
  "sender_codec = enum_codec TYPE(u8)
     [variant_of 1 (\<lambda>s. case s of Sender_Member i \<Rightarrow> Some i | _ \<Rightarrow> None) Sender_Member u32_codec,
      variant_of 2 (\<lambda>s. case s of Sender_External i \<Rightarrow> Some i | _ \<Rightarrow> None) Sender_External u32_codec,
      variant_of 3 (\<lambda>s. case s of Sender_NewMemberProposal \<Rightarrow> Some () | _ \<Rightarrow> None) (\<lambda>_. Sender_NewMemberProposal) unit_codec,
      variant_of 4 (\<lambda>s. case s of Sender_NewMemberCommit \<Rightarrow> Some () | _ \<Rightarrow> None) (\<lambda>_. Sender_NewMemberCommit) unit_codec]"

datatype content = Content_Application "byte list" | Content_Proposal proposal | Content_Commit commit

definition content_codec :: "content codec" where
  "content_codec = enum_codec TYPE(u8)
     [variant_of 1 (\<lambda>c. case c of Content_Application d \<Rightarrow> Some d | _ \<Rightarrow> None) Content_Application byte_vec_codec,
      variant_of 2 (\<lambda>c. case c of Content_Proposal p \<Rightarrow> Some p | _ \<Rightarrow> None) Content_Proposal proposal_codec,
      variant_of 3 (\<lambda>c. case c of Content_Commit m \<Rightarrow> Some m | _ \<Rightarrow> None) Content_Commit commit_codec]"

fun content_type_of :: "content \<Rightarrow> content_type" where
  "content_type_of (Content_Application _) = Ct_Application"
| "content_type_of (Content_Proposal _) = Ct_Proposal"
| "content_type_of (Content_Commit _) = Ct_Commit"

record framed_content =
  fc_group_id :: "byte list"
  fc_epoch :: u64
  fc_sender :: sender
  fc_authenticated_data :: "byte list"
  fc_content :: content

definition framed_content_codec :: "framed_content codec" where
  "framed_content_codec =
     struct_codec (\<lambda>c. (fc_group_id c, fc_epoch c, fc_sender c, fc_authenticated_data c, fc_content c))
       (\<lambda>(g, e, s, a, c). \<lparr>fc_group_id = g, fc_epoch = e, fc_sender = s, fc_authenticated_data = a, fc_content = c\<rparr>)
       (pair_codec byte_vec_codec (pair_codec u64_codec (pair_codec sender_codec
         (pair_codec byte_vec_codec content_codec))))"

section \<open>Authentication data\<close>

record auth_data =
  ad_signature :: "byte list"
  ad_confirmation_tag :: "byte list option"

text \<open>A field that is written only if present, without a presence byte.\<close>

definition present_len :: "'a codec \<Rightarrow> 'a option \<Rightarrow> nat" where
  "present_len c v = (case v of None \<Rightarrow> 0 | Some x \<Rightarrow> c_len c x)"

definition present_encode :: "'a codec \<Rightarrow> 'a option \<Rightarrow> codec_error + byte list" where
  "present_encode c v = (case v of None \<Rightarrow> Inr [] | Some x \<Rightarrow> c_enc c x)"

definition present_decode :: "'a codec \<Rightarrow> bool \<Rightarrow> byte list \<Rightarrow> codec_error + 'a option \<times> byte list" where
  "present_decode c b reader =
     (if b then bindR (c_dec c reader) (\<lambda>(x, reader). Inr (Some x, reader)) else Inr (None, reader))"

definition auth_data_len :: "auth_data \<Rightarrow> nat" where
  "auth_data_len a = byte_vec_len (ad_signature a) + present_len byte_vec_codec (ad_confirmation_tag a)"

definition auth_data_encode :: "auth_data \<Rightarrow> codec_error + byte list" where
  "auth_data_encode a =
     bindR (byte_vec_encode (ad_signature a)) (\<lambda>bs.
     bindR (present_encode byte_vec_codec (ad_confirmation_tag a)) (\<lambda>bs'. Inr (bs @ bs')))"

definition auth_data_decode :: "content_type \<Rightarrow> byte list \<Rightarrow> codec_error + auth_data \<times> byte list" where
  "auth_data_decode t reader =
     bindR (byte_vec_decode reader) (\<lambda>(s, reader).
     bindR (present_decode byte_vec_codec (t = Ct_Commit) reader) (\<lambda>(tag, reader).
       Inr (\<lparr>ad_signature = s, ad_confirmation_tag = tag\<rparr>, reader)))"

datatype wire_format = Wf_PublicMessage | Wf_PrivateMessage | Wf_Welcome | Wf_GroupInfo | Wf_KeyPackage

definition wire_format_codec :: "wire_format codec" where
  "wire_format_codec = enum_codec TYPE(u16)
     [variant_of 1 (\<lambda>t. case t of Wf_PublicMessage \<Rightarrow> Some () | _ \<Rightarrow> None) (\<lambda>_. Wf_PublicMessage) unit_codec,
      variant_of 2 (\<lambda>t. case t of Wf_PrivateMessage \<Rightarrow> Some () | _ \<Rightarrow> None) (\<lambda>_. Wf_PrivateMessage) unit_codec,
      variant_of 3 (\<lambda>t. case t of Wf_Welcome \<Rightarrow> Some () | _ \<Rightarrow> None) (\<lambda>_. Wf_Welcome) unit_codec,
      variant_of 4 (\<lambda>t. case t of Wf_GroupInfo \<Rightarrow> Some () | _ \<Rightarrow> None) (\<lambda>_. Wf_GroupInfo) unit_codec,
      variant_of 5 (\<lambda>t. case t of Wf_KeyPackage \<Rightarrow> Some () | _ \<Rightarrow> None) (\<lambda>_. Wf_KeyPackage) unit_codec]"

record authenticated_content =
  ac_wire_format :: wire_format
  ac_content :: framed_content
  ac_auth :: auth_data

definition auth_content_codec :: "authenticated_content codec" where
  "auth_content_codec = \<lparr>
     c_len = (\<lambda>a. c_len wire_format_codec (ac_wire_format a) + (c_len framed_content_codec (ac_content a) + auth_data_len (ac_auth a))),
     c_enc = (\<lambda>a. bindR (c_enc wire_format_codec (ac_wire_format a)) (\<lambda>w.
        bindR (c_enc framed_content_codec (ac_content a)) (\<lambda>c.
        bindR (auth_data_encode (ac_auth a)) (\<lambda>d. Inr (w @ c @ d))))),
     c_dec = (\<lambda>reader.
        bindR (c_dec wire_format_codec reader) (\<lambda>(w, reader).
        bindR (c_dec framed_content_codec reader) (\<lambda>(c, reader).
        bindR (auth_data_decode (content_type_of (fc_content c)) reader) (\<lambda>(d, reader).
          Inr (\<lparr>ac_wire_format = w, ac_content = c, ac_auth = d\<rparr>, reader)))))\<rparr>"

definition auth_content_new ::
    "group_context \<Rightarrow> sender \<Rightarrow> content \<Rightarrow> byte list \<Rightarrow> wire_format \<Rightarrow> authenticated_content" where
  "auth_content_new context s c authenticated_data w =
     \<lparr>ac_wire_format = w,
      ac_content = \<lparr>fc_group_id = gc_group_id context, fc_epoch = gc_epoch context, fc_sender = s,
        fc_authenticated_data = authenticated_data, fc_content = c\<rparr>,
      ac_auth = \<lparr>ad_signature = [], ad_confirmation_tag = None\<rparr>\<rparr>"

section \<open>Messages\<close>

record public_message =
  pm_content :: framed_content
  pm_auth :: auth_data
  pm_membership_tag :: "byte list option"

definition is_member :: "sender \<Rightarrow> bool" where
  "is_member s = (case s of Sender_Member _ \<Rightarrow> True | _ \<Rightarrow> False)"

definition public_message_codec :: "public_message codec" where
  "public_message_codec = \<lparr>
     c_len = (\<lambda>m. c_len framed_content_codec (pm_content m) + auth_data_len (pm_auth m) +
        present_len byte_vec_codec (pm_membership_tag m)),
     c_enc = (\<lambda>m. bindR (c_enc framed_content_codec (pm_content m)) (\<lambda>c.
        bindR (auth_data_encode (pm_auth m)) (\<lambda>a.
        bindR (present_encode byte_vec_codec (pm_membership_tag m)) (\<lambda>t. Inr (c @ a @ t))))),
     c_dec = (\<lambda>reader.
        bindR (c_dec framed_content_codec reader) (\<lambda>(c, reader).
        bindR (auth_data_decode (content_type_of (fc_content c)) reader) (\<lambda>(a, reader).
        bindR (present_decode byte_vec_codec (is_member (fc_sender c)) reader) (\<lambda>(t, reader).
          Inr (\<lparr>pm_content = c, pm_auth = a, pm_membership_tag = t\<rparr>, reader)))))\<rparr>"

definition auth_content_from :: "public_message \<Rightarrow> authenticated_content" where
  "auth_content_from m = \<lparr>ac_wire_format = Wf_PublicMessage, ac_content = pm_content m, ac_auth = pm_auth m\<rparr>"

fun inner_content_len :: "content \<Rightarrow> nat" where
  "inner_content_len (Content_Application d) = byte_vec_len d"
| "inner_content_len (Content_Proposal p) = c_len proposal_codec p"
| "inner_content_len (Content_Commit c) = c_len commit_codec c"

fun inner_content_encode :: "content \<Rightarrow> codec_error + byte list" where
  "inner_content_encode (Content_Application d) = byte_vec_encode d"
| "inner_content_encode (Content_Proposal p) = c_enc proposal_codec p"
| "inner_content_encode (Content_Commit c) = c_enc commit_codec c"

definition inner_content_decode :: "content_type \<Rightarrow> byte list \<Rightarrow> codec_error + content \<times> byte list" where
  "inner_content_decode t reader =
     (case t of
        Ct_Application \<Rightarrow> bindR (byte_vec_decode reader) (\<lambda>(d, reader). Inr (Content_Application d, reader))
      | Ct_Proposal \<Rightarrow> bindR (c_dec proposal_codec reader) (\<lambda>(p, reader). Inr (Content_Proposal p, reader))
      | Ct_Commit \<Rightarrow> bindR (c_dec commit_codec reader) (\<lambda>(c, reader). Inr (Content_Commit c, reader)))"

record private_content =
  pc_content :: content
  pc_auth :: auth_data

definition private_content_len :: "private_content \<Rightarrow> nat" where
  "private_content_len p = inner_content_len (pc_content p) + auth_data_len (pc_auth p)"

definition private_content_encode :: "private_content \<Rightarrow> codec_error + byte list" where
  "private_content_encode p =
     bindR (inner_content_encode (pc_content p)) (\<lambda>c. bindR (auth_data_encode (pc_auth p)) (\<lambda>a. Inr (c @ a)))"

definition private_content_decode :: "byte list \<Rightarrow> content_type \<Rightarrow> codec_error + private_content" where
  "private_content_decode reader t =
     bindR (inner_content_decode t reader) (\<lambda>(c, reader).
     bindR (auth_data_decode (content_type_of c) reader) (\<lambda>(a, reader).
       if list_ex (\<lambda>i. i \<noteq> 0) reader then Inl (Custom 5) else Inr \<lparr>pc_content = c, pc_auth = a\<rparr>))"

record private_content_aad =
  pca_group_id :: "byte list"
  pca_epoch :: u64
  pca_content_type :: content_type
  pca_authenticated_data :: "byte list"

definition private_content_aad_codec :: "private_content_aad codec" where
  "private_content_aad_codec =
     struct_codec (\<lambda>a. (pca_group_id a, pca_epoch a, pca_content_type a, pca_authenticated_data a))
       (\<lambda>(g, e, t, d). \<lparr>pca_group_id = g, pca_epoch = e, pca_content_type = t, pca_authenticated_data = d\<rparr>)
       (pair_codec byte_vec_codec (pair_codec u64_codec (pair_codec content_type_codec byte_vec_codec)))"

record private_message =
  prm_group_id :: "byte list"
  prm_epoch :: u64
  prm_content_type :: content_type
  prm_authenticated_data :: "byte list"
  prm_encrypted_sender_data :: "byte list"
  prm_ciphertext :: "byte list"

definition private_message_codec :: "private_message codec" where
  "private_message_codec =
     struct_codec (\<lambda>m. (prm_group_id m, prm_epoch m, prm_content_type m, prm_authenticated_data m,
         prm_encrypted_sender_data m, prm_ciphertext m))
       (\<lambda>(g, e, t, d, s, c). \<lparr>prm_group_id = g, prm_epoch = e, prm_content_type = t, prm_authenticated_data = d,
         prm_encrypted_sender_data = s, prm_ciphertext = c\<rparr>)
       (pair_codec byte_vec_codec (pair_codec u64_codec (pair_codec content_type_codec
         (pair_codec byte_vec_codec (pair_codec byte_vec_codec byte_vec_codec)))))"

definition aad_from_message :: "private_message \<Rightarrow> private_content_aad" where
  "aad_from_message m = \<lparr>pca_group_id = prm_group_id m, pca_epoch = prm_epoch m,
     pca_content_type = prm_content_type m, pca_authenticated_data = prm_authenticated_data m\<rparr>"

record group_info =
  gi_group_context :: group_context
  gi_extensions :: extension_list
  gi_confirmation_tag :: "byte list"
  gi_signer :: leaf_index
  gi_signature :: "byte list"

definition group_info_codec :: "group_info codec" where
  "group_info_codec =
     struct_codec (\<lambda>g. (gi_group_context g, gi_extensions g, gi_confirmation_tag g, gi_signer g, gi_signature g))
       (\<lambda>(c, e, t, i, s). \<lparr>gi_group_context = c, gi_extensions = e, gi_confirmation_tag = t, gi_signer = i, gi_signature = s\<rparr>)
       (pair_codec group_context_codec (pair_codec extension_list_codec (pair_codec byte_vec_codec
         (pair_codec leaf_index_codec byte_vec_codec))))"

record group_secrets =
  gs_joiner_secret :: "byte list"
  gs_path_secret :: "byte list option"
  gs_psks :: "psk_id list"

definition group_secrets_codec :: "group_secrets codec" where
  "group_secrets_codec =
     struct_codec (\<lambda>g. (gs_joiner_secret g, gs_path_secret g, gs_psks g))
       (\<lambda>(j, p, k). \<lparr>gs_joiner_secret = j, gs_path_secret = p, gs_psks = k\<rparr>)
       (pair_codec byte_vec_codec (pair_codec (option_codec byte_vec_codec) (vec_codec psk_id_codec)))"

record encrypted_group_secrets =
  egs_new_member :: "byte list"
  egs_encrypted_group_secrets :: hpke_ciphertext

definition encrypted_group_secrets_codec :: "encrypted_group_secrets codec" where
  "encrypted_group_secrets_codec =
     struct_codec (\<lambda>g. (egs_new_member g, egs_encrypted_group_secrets g))
       (\<lambda>(m, e). \<lparr>egs_new_member = m, egs_encrypted_group_secrets = e\<rparr>)
       (pair_codec byte_vec_codec hpke_ciphertext_codec)"

record welcome_message =
  w_cipher_suite :: cipher_suite
  w_secrets :: "encrypted_group_secrets list"
  w_encrypted_group_info :: "byte list"

definition welcome_codec :: "welcome_message codec" where
  "welcome_codec =
     struct_codec (\<lambda>w. (w_cipher_suite w, w_secrets w, w_encrypted_group_info w))
       (\<lambda>(c, s, i). \<lparr>w_cipher_suite = c, w_secrets = s, w_encrypted_group_info = i\<rparr>)
       (pair_codec u16_codec (pair_codec (vec_codec encrypted_group_secrets_codec) byte_vec_codec))"

datatype message_payload =
    Pl_Plain public_message
  | Pl_Cipher private_message
  | Pl_Welcome welcome_message
  | Pl_GroupInfo group_info
  | Pl_KeyPackage key_package

definition message_payload_codec :: "message_payload codec" where
  "message_payload_codec = enum_codec TYPE(u16)
     [variant_of 1 (\<lambda>p. case p of Pl_Plain m \<Rightarrow> Some m | _ \<Rightarrow> None) Pl_Plain public_message_codec,
      variant_of 2 (\<lambda>p. case p of Pl_Cipher m \<Rightarrow> Some m | _ \<Rightarrow> None) Pl_Cipher private_message_codec,
      variant_of 3 (\<lambda>p. case p of Pl_Welcome w \<Rightarrow> Some w | _ \<Rightarrow> None) Pl_Welcome welcome_codec,
      variant_of 4 (\<lambda>p. case p of Pl_GroupInfo g \<Rightarrow> Some g | _ \<Rightarrow> None) Pl_GroupInfo group_info_codec,
      variant_of 5 (\<lambda>p. case p of Pl_KeyPackage k \<Rightarrow> Some k | _ \<Rightarrow> None) Pl_KeyPackage key_package_codec]"

record mls_message =
  msg_version :: protocol_version
  msg_payload :: message_payload

definition mls_message_codec :: "mls_message codec" where
  "mls_message_codec =
     struct_codec (\<lambda>m. (msg_version m, msg_payload m)) (\<lambda>(v, p). \<lparr>msg_version = v, msg_payload = p\<rparr>)
       (pair_codec u16_codec message_payload_codec)"

definition mls_message_from_bytes :: "byte list \<Rightarrow> mls_message res" where
  "mls_message_from_bytes bytes = bindR (codecR (c_dec mls_message_codec bytes)) (\<lambda>(m, _). Inr m)"

definition mls_message_to_bytes :: "mls_message \<Rightarrow> byte list res" where
  "mls_message_to_bytes m = codecR (c_enc mls_message_codec m)"

fun payload_wire_format :: "message_payload \<Rightarrow> wire_format" where
  "payload_wire_format (Pl_Plain _) = Wf_PublicMessage"
| "payload_wire_format (Pl_Cipher _) = Wf_PrivateMessage"
| "payload_wire_format (Pl_Welcome _) = Wf_Welcome"
| "payload_wire_format (Pl_GroupInfo _) = Wf_GroupInfo"
| "payload_wire_format (Pl_KeyPackage _) = Wf_KeyPackage"

fun payload_epoch :: "message_payload \<Rightarrow> u64 option" where
  "payload_epoch (Pl_Plain p) = Some (fc_epoch (pm_content p))"
| "payload_epoch (Pl_Cipher c) = Some (prm_epoch c)"
| "payload_epoch (Pl_GroupInfo g) = Some (gc_epoch (gi_group_context g))"
| "payload_epoch _ = None"

fun payload_cipher_suite :: "message_payload \<Rightarrow> cipher_suite option" where
  "payload_cipher_suite (Pl_GroupInfo g) = Some (gc_cipher_suite (gi_group_context g))"
| "payload_cipher_suite (Pl_Welcome w) = Some (w_cipher_suite w)"
| "payload_cipher_suite (Pl_KeyPackage k) = Some (kp_cipher_suite k)"
| "payload_cipher_suite _ = None"

fun payload_group_id :: "message_payload \<Rightarrow> byte list option" where
  "payload_group_id (Pl_Plain p) = Some (fc_group_id (pm_content p))"
| "payload_group_id (Pl_Cipher c) = Some (prm_group_id c)"
| "payload_group_id (Pl_GroupInfo g) = Some (gc_group_id (gi_group_context g))"
| "payload_group_id _ = None"

datatype message_description =
    Desc_Welcome "byte list list" cipher_suite
  | Desc_ProtocolMessage "byte list" u64 content_type
  | Desc_GroupInfo
  | Desc_KeyPackage

fun payload_description :: "message_payload \<Rightarrow> message_description" where
  "payload_description (Pl_Welcome w) = Desc_Welcome (map egs_new_member (w_secrets w)) (w_cipher_suite w)"
| "payload_description (Pl_Plain p) = Desc_ProtocolMessage (fc_group_id (pm_content p)) (fc_epoch (pm_content p))
     (content_type_of (fc_content (pm_content p)))"
| "payload_description (Pl_Cipher c) = Desc_ProtocolMessage (prm_group_id c) (prm_epoch c) (prm_content_type c)"
| "payload_description (Pl_GroupInfo _) = Desc_GroupInfo"
| "payload_description (Pl_KeyPackage _) = Desc_KeyPackage"

definition message_hash_compute :: "cipher_suite_provider \<Rightarrow> mls_message \<Rightarrow> byte list res" where
  "message_hash_compute csp m = bindR (mls_message_to_bytes m) (\<lambda>bytes. crypto (csp_hash csp bytes))"

definition proposal_ref_from_content :: "cipher_suite_provider \<Rightarrow> authenticated_content \<Rightarrow> proposal_ref res" where
  "proposal_ref_from_content csp content =
     bindR (codecR (c_enc auth_content_codec content)) (\<lambda>bytes.
       hash_reference_compute bytes (bytes_of ''MLS 1.0 Proposal Reference'') csp)"

definition find_custom_proposals :: "commit \<Rightarrow> (proposal_type \<times> byte list) list" where
  "find_custom_proposals c = List.map_filter (\<lambda>p.
     case p of PoR_Proposal (Prop_Custom t d) \<Rightarrow> Some (t, d) | _ \<Rightarrow> None) (cm_proposals c)"

fun custom_proposals_by_value :: "message_payload \<Rightarrow> (proposal_type \<times> byte list) list" where
  "custom_proposals_by_value (Pl_Plain p) =
     (case fc_content (pm_content p) of Content_Commit c \<Rightarrow> find_custom_proposals c | _ \<Rightarrow> [])"
| "custom_proposals_by_value _ = []"

fun welcome_key_package_references :: "message_payload \<Rightarrow> byte list list" where
  "welcome_key_package_references (Pl_Welcome w) = map egs_new_member (w_secrets w)"
| "welcome_key_package_references _ = []"

fun key_package_reference :: "message_payload \<Rightarrow> cipher_suite_provider \<Rightarrow> byte list option res" where
  "key_package_reference (Pl_KeyPackage kp) csp = bindR (key_package_to_reference kp csp) (\<lambda>r. Inr (Some r))"
| "key_package_reference _ csp = Inr None"

fun into_proposal_reference :: "message_payload \<Rightarrow> cipher_suite_provider \<Rightarrow> byte list option res" where
  "into_proposal_reference (Pl_Plain m) csp =
     bindR (proposal_ref_from_content csp (auth_content_from m)) (\<lambda>r. Inr (Some r))"
| "into_proposal_reference _ csp = Inr None"

end
