(* ===== verification/TreeKem.thy ===== *)
theory TreeKem
  imports TreeHashLaws Framing
begin

text \<open>
  The public ratchet tree (\<^verbatim>\<open>TreeKemPublic\<close> of \<^verbatim>\<open>mls-rs/src/tree_kem/mod.rs\<close>) and its parent hashes
  (\<^verbatim>\<open>parent_hash.rs\<close>): adding, removing and updating leaves in a batch, installing an update path, and the
  check of the parent hashes of a tree received from others. An operation that is still used after it
  returned an error gives the tree beside the result; the callers of all the others drop the tree they
  worked on when they return an error.
\<close>

section \<open>Parent hashes\<close>

definition parent_hash_input_codec :: "(byte list \<times> byte list \<times> byte list) codec" where
  "parent_hash_input_codec = pair_codec byte_vec_codec (pair_codec byte_vec_codec byte_vec_codec)"

definition parent_hash_new ::
    "cipher_suite_provider \<Rightarrow> hpke_public_key \<Rightarrow> parent_hash \<Rightarrow> byte list \<Rightarrow> parent_hash res" where
  "parent_hash_new csp public_key parent_hash original_sibling_tree_hash =
     bindR (codecR (c_enc parent_hash_input_codec (public_key, parent_hash, original_sibling_tree_hash))) (\<lambda>input.
       crypto (csp_hash csp input))"

definition parent_hash_empty :: parent_hash where
  "parent_hash_empty = []"

definition get_parent_hash :: "node \<Rightarrow> parent_hash option" where
  "get_parent_hash n =
     (case n of
        Parent p \<Rightarrow> Some (p_parent_hash p)
      | Leaf l \<Rightarrow> (case ln_source l of Commit h \<Rightarrow> Some h | _ \<Rightarrow> None))"

text \<open>One node of the direct path, from the root down: the new parent hash of the node is the hash passed down so far.\<close>

definition parent_hash_step ::
    "cipher_suite_provider \<Rightarrow> byte list list \<Rightarrow> node_vec \<times> parent_hash \<Rightarrow> copath_node \<Rightarrow> (node_vec \<times> parent_hash) res" where
  "parent_hash_step csp hashes = (\<lambda>(nodes, hash) node.
     bindR (is_resolution_empty nodes (copath node)) (\<lambda>b.
       if b then Inr (nodes, hash)
       else
         bindR (borrow_as_parent_mut nodes (path node)) (\<lambda>parent.
         bindR (index_or_panic hashes (unat (copath node))) (\<lambda>sibling_hash.
         bindR (parent_hash_new csp (p_public_key parent) hash sibling_hash) (\<lambda>calculated.
           Inr (set_parent nodes (path node) (parent\<lparr>p_parent_hash := hash\<rparr>), calculated))))))"

definition parent_hash_for_leaf ::
    "tree_kem_public \<Rightarrow> cipher_suite_provider \<Rightarrow> leaf_index \<Rightarrow> (tree_kem_public \<times> parent_hash) res" where
  "parent_hash_for_leaf tree csp index =
     bindR (nv_direct_copath (tk_nodes tree) index) (\<lambda>cps.
     bindR (foldR (parent_hash_step csp (tk_hashes tree)) (tk_nodes tree, parent_hash_empty) (rev cps)) (\<lambda>(nodes, hash).
       Inr (tree\<lparr>tk_nodes := nodes\<rparr>, hash)))"

definition check_leaf_hash :: "leaf_node \<Rightarrow> parent_hash \<Rightarrow> unit res" where
  "check_leaf_hash leaf leaf_hash =
     (case ln_source leaf of
        Commit h \<Rightarrow> guardR (h = leaf_hash) ParentHashMismatch
      | _ \<Rightarrow> Inl InvalidLeafNodeSource)"

definition update_parent_hashes ::
    "tree_kem_public \<Rightarrow> leaf_index \<Rightarrow> bool \<Rightarrow> cipher_suite_provider \<Rightarrow> tree_kem_public res" where
  "update_parent_hashes tree index verify_leaf_hash csp =
     bindR (update_hashes tree [index] csp) (\<lambda>tree.
     bindR (parent_hash_for_leaf tree csp index) (\<lambda>(tree, leaf_hash).
     bindR (borrow_as_leaf_mut (tk_nodes tree) index) (\<lambda>leaf.
     bindR (if verify_leaf_hash
            then bindR (check_leaf_hash leaf leaf_hash) (\<lambda>_. Inr tree)
            else Inr (tree\<lparr>tk_nodes := set_leaf (tk_nodes tree) index (leaf\<lparr>ln_source := Commit leaf_hash\<rparr>)\<rparr>)) (\<lambda>tree.
       update_hashes tree [index] csp))))"

subsection \<open>Validation of a whole tree\<close>

text \<open>The first ancestor that is not blank, with its child off the path; \<open>None\<close> past the root.\<close>

fun nonblank_ancestor :: "nat \<Rightarrow> node_vec \<Rightarrow> u32 \<Rightarrow> parent_sibling \<Rightarrow> parent_sibling option res" where
  "nonblank_ancestor fuel nodes num_leaves ps =
     bindR (is_blank nodes (parent_sibling.parent ps)) (\<lambda>b.
       if \<not> b then Inr (Some ps)
       else
         (case parent_sibling_of (parent_sibling.parent ps) num_leaves of
            None \<Rightarrow> Inr None
          | Some ps' \<Rightarrow> (case fuel of 0 \<Rightarrow> Inl Mls_Diverges | Suc f \<Rightarrow> nonblank_ancestor f nodes num_leaves ps')))"

declare nonblank_ancestor.simps [simp del]

text \<open>The condition on the child \<open>n\<close> whose parent hash matches that of \<open>parent\<close>; \<open>sibling\<close> is the child off the path.\<close>

definition covered_by_chain :: "node_vec \<Rightarrow> u32 \<Rightarrow> node_index \<Rightarrow> parent_sibling \<Rightarrow> bool res" where
  "covered_by_chain nodes num_leaves n ps =
     (case parent_sibling_of (sibling ps) num_leaves of
        None \<Rightarrow> Inl ParentHashMismatch
      | Some cp \<Rightarrow>
          let c = sibling cp; c_resolution = get_resolution_index nodes c in
          bindR (unmerged_in_subtree nodes (parent_sibling.parent ps) c) (\<lambda>unmerged.
            Inr (n \<in> set c_resolution \<and> set c_resolution - {n} = set (map (\<lambda>x. x * 2) unmerged))))"

datatype chain_end = Chain_Broken "node_index list" | Chain_BlankRoot

text \<open>
  The chain of parent hashes from the node \<open>n\<close> upwards; \<open>to_validate\<close> are the parents no chain has covered yet. Where
  the chain reaches a blank root the whole validation returns, which is the result \<open>Chain_BlankRoot\<close>.
\<close>

fun validate_chain ::
    "nat \<Rightarrow> cipher_suite_provider \<Rightarrow> node_vec \<Rightarrow> u32 \<Rightarrow> byte list list \<Rightarrow> node_index \<Rightarrow> node_index list \<Rightarrow> chain_end res" where
  "validate_chain fuel csp nodes num_leaves original_hashes n to_validate =
     (case parent_sibling_of n num_leaves of
        None \<Rightarrow> Inr (Chain_Broken to_validate)
      | Some ps \<Rightarrow>
          bindR (nonblank_ancestor 32 nodes num_leaves ps) (\<lambda>r.
          case r of
            None \<Rightarrow> Inr Chain_BlankRoot
          | Some ps \<Rightarrow>
              bindR (borrow_as_parent nodes (parent_sibling.parent ps)) (\<lambda>p_parent.
              bindR (bindR (borrow_node nodes n) (\<lambda>n_node. ok_or n_node ExpectedNode)) (\<lambda>n_node.
              bindR (index_or_panic original_hashes (unat (sibling ps))) (\<lambda>sibling_hash.
              bindR (parent_hash_new csp (p_public_key p_parent) (p_parent_hash p_parent) sibling_hash) (\<lambda>calculated.
                if get_parent_hash n_node = Some calculated then
                  bindR (covered_by_chain nodes num_leaves n ps) (\<lambda>ok.
                    if ok \<and> parent_sibling.parent ps \<in> set to_validate then
                      (case fuel of
                         0 \<Rightarrow> Inl Mls_Diverges
                       | Suc f \<Rightarrow> validate_chain f csp nodes num_leaves original_hashes (parent_sibling.parent ps)
                           (removeAll (parent_sibling.parent ps) to_validate))
                    else Inl ParentHashMismatch)
                else Inr (Chain_Broken to_validate)))))))"

declare validate_chain.simps [simp del]

fun validate_chains ::
    "cipher_suite_provider \<Rightarrow> node_vec \<Rightarrow> u32 \<Rightarrow> byte list list \<Rightarrow> leaf_index list \<Rightarrow> node_index list \<Rightarrow> unit res" where
  "validate_chains csp nodes num_leaves original_hashes [] to_validate =
     (if to_validate = [] then Inr () else Inl ParentHashMismatch)"
| "validate_chains csp nodes num_leaves original_hashes (l # ls) to_validate =
     bindR (validate_chain 32 csp nodes num_leaves original_hashes (node_of_leaf l) to_validate) (\<lambda>r.
       case r of
         Chain_BlankRoot \<Rightarrow> Inr ()
       | Chain_Broken to_validate \<Rightarrow> validate_chains csp nodes num_leaves original_hashes ls to_validate)"

definition validate_parent_hashes :: "tree_kem_public \<Rightarrow> cipher_suite_provider \<Rightarrow> unit res" where
  "validate_parent_hashes tree csp =
     bindR (compute_original_hashes tree csp) (\<lambda>original_hashes.
       validate_chains csp (tk_nodes tree) (total_leaf_count (tk_nodes tree)) original_hashes
         (map fst (non_empty_leaves (tk_nodes tree))) (map fst (non_empty_parents (tk_nodes tree))))"

section \<open>Reading and importing a tree\<close>

definition index_leaves ::
    "identity_provider \<Rightarrow> extension_list \<Rightarrow> tree_index \<Rightarrow> (leaf_index \<times> leaf_node) list \<Rightarrow> tree_index res" where
  "index_leaves idp exts = foldR (\<lambda>ti (i, leaf). case index_insert ti leaf i idp exts of (ti, r) \<Rightarrow> bindR r (\<lambda>_. Inr ti))"

definition initialize_index_if_necessary ::
    "tree_kem_public \<Rightarrow> identity_provider \<Rightarrow> extension_list \<Rightarrow> tree_kem_public res" where
  "initialize_index_if_necessary tree idp exts =
     (if \<not> is_initialized (tk_index tree)
      then bindR (index_leaves idp exts tree_index_new (non_empty_leaves (tk_nodes tree))) (\<lambda>ti.
             Inr (tree\<lparr>tk_index := ti\<rparr>))
      else Inr tree)"

definition import_node_data :: "node_vec \<Rightarrow> identity_provider \<Rightarrow> extension_list \<Rightarrow> tree_kem_public res" where
  "import_node_data nodes idp exts = initialize_index_if_necessary (tree_kem_new\<lparr>tk_nodes := nodes\<rparr>) idp exts"

definition get_leaf_node_with_identity :: "tree_kem_public \<Rightarrow> byte list \<Rightarrow> leaf_index option" where
  "get_leaf_node_with_identity tree ident = get_leaf_index_with_identity (tk_index tree) ident"

definition find_leaf_node :: "tree_kem_public \<Rightarrow> leaf_node \<Rightarrow> leaf_index option" where
  "find_leaf_node tree leaf = map_option fst (List.find (\<lambda>(_, l). l = leaf) (non_empty_leaves (tk_nodes tree)))"

definition can_support_proposal :: "tree_kem_public \<Rightarrow> proposal_type \<Rightarrow> bool" where
  "can_support_proposal tree t \<longleftrightarrow> count_supporting_proposal (tk_index tree) t = occupied_leaf_count (tk_nodes tree)"

section \<open>Adding and updating nodes\<close>

definition update_node :: "tree_kem_public \<Rightarrow> hpke_public_key \<Rightarrow> node_index \<Rightarrow> tree_kem_public res" where
  "update_node tree pub_key index =
     bindR (borrow_or_fill_node_as_parent (tk_nodes tree) index pub_key) (\<lambda>(nodes, p).
       Inr (tree\<lparr>tk_nodes := set_parent nodes index (p\<lparr>p_public_key := pub_key, p_unmerged_leaves := []\<rparr>)\<rparr>))"

definition push_unmerged :: "leaf_index \<Rightarrow> node_vec \<Rightarrow> copath_node \<Rightarrow> node_vec" where
  "push_unmerged index nodes i =
     (case borrow_as_parent_mut nodes (path i) of
        Inr p \<Rightarrow> set_parent nodes (path i) (p\<lparr>p_unmerged_leaves := p_unmerged_leaves p @ [index]\<rparr>)
      | Inl _ \<Rightarrow> nodes)"

definition update_unmerged :: "node_vec \<Rightarrow> leaf_index \<Rightarrow> node_vec res" where
  "update_unmerged nodes index =
     bindR (nv_direct_copath nodes index) (\<lambda>cps. Inr (foldl (push_unmerged index) nodes cps))"

definition add_leaf ::
    "tree_kem_public \<Rightarrow> leaf_node \<Rightarrow> identity_provider \<Rightarrow> extension_list \<Rightarrow> leaf_index option \<Rightarrow>
     tree_kem_public \<times> leaf_index res" where
  "add_leaf tree leaf idp exts start =
     (let index = next_empty_leaf (tk_nodes tree) (case start of Some s \<Rightarrow> s | None \<Rightarrow> 0)
      in case index_insert (tk_index tree) leaf index idp exts of
           (ti, Inl e) \<Rightarrow> (tree\<lparr>tk_index := ti\<rparr>, Inl e)
         | (ti, Inr _) \<Rightarrow>
             (case bindR (insert_leaf (tk_nodes tree) index leaf) (\<lambda>nodes. update_unmerged nodes index) of
                Inl e \<Rightarrow> (tree\<lparr>tk_index := ti\<rparr>, Inl e)
              | Inr nodes \<Rightarrow> (tree\<lparr>tk_index := ti, tk_nodes := nodes\<rparr>, Inr index)))"

section \<open>Update paths\<close>

record validated_update_path =
  vup_leaf_node :: leaf_node
  vup_nodes :: "update_path_node option list"

definition install_path_node ::
    "tree_kem_public \<Rightarrow> update_path_node option \<times> copath_node \<Rightarrow> tree_kem_public res" where
  "install_path_node tree = (\<lambda>(node, pn).
     case node of None \<Rightarrow> Inr tree | Some n \<Rightarrow> update_node tree (upn_public_key n) (path pn))"

definition apply_update_path ::
    "tree_kem_public \<Rightarrow> leaf_index \<Rightarrow> validated_update_path \<Rightarrow> extension_list \<Rightarrow> identity_provider \<Rightarrow>
     cipher_suite_provider \<Rightarrow> tree_kem_public res" where
  "apply_update_path tree sender update_path exts idp csp =
     bindR (borrow_as_leaf_mut (tk_nodes tree) sender) (\<lambda>original_leaf_node.
     bindR (identity_of idp (ln_signing_identity original_leaf_node) exts) (\<lambda>original_identity.
       let tree = tree\<lparr>tk_nodes := set_leaf (tk_nodes tree) sender (vup_leaf_node update_path)\<rparr> in
     bindR (nv_direct_copath (tk_nodes tree) sender) (\<lambda>cps.
     bindR (foldR install_path_node tree (zip (vup_nodes update_path) cps)) (\<lambda>tree.
     case index_insert (tree_index_remove (tk_index tree) original_leaf_node original_identity)
            (vup_leaf_node update_path) sender idp exts of (ti, r) \<Rightarrow>
     bindR r (\<lambda>_.
       update_parent_hashes (tree\<lparr>tk_index := ti\<rparr>) sender True csp)))))"

section \<open>Editing in a batch\<close>

text \<open>Blanking a leaf and taking it out of the index.\<close>

definition apply_remove ::
    "tree_kem_public \<Rightarrow> leaf_index \<Rightarrow> nat \<Rightarrow> bool \<Rightarrow> proposal_bundle \<Rightarrow> extension_list \<Rightarrow> identity_provider \<Rightarrow> bool \<Rightarrow>
     (tree_kem_public \<times> proposal_bundle) res" where
  "apply_remove tree index p_index by_value bundle exts idp filtering =
     (case blank_leaf_node (tk_nodes tree) index of
        (nodes, Inr old_leaf) \<Rightarrow>
          bindR (blank_direct_path nodes index) (\<lambda>nodes.
          bindR (identity_of idp (ln_signing_identity old_leaf) exts) (\<lambda>ident.
            Inr (tree\<lparr>tk_nodes := nodes, tk_index := tree_index_remove (tk_index tree) old_leaf ident\<rparr>, bundle)))
      | (nodes, Inl e) \<Rightarrow>
          if by_value \<or> \<not> filtering then Inl e
          else Inr (tree\<lparr>tk_nodes := nodes\<rparr>, bundle\<lparr>removals := remove_at p_index (removals bundle)\<rparr>))"

definition apply_removes ::
    "tree_kem_public \<Rightarrow> proposal_bundle \<Rightarrow> extension_list \<Rightarrow> identity_provider \<Rightarrow> bool \<Rightarrow>
     (tree_kem_public \<times> proposal_bundle) res" where
  "apply_removes tree bundle exts idp filtering =
     foldR (\<lambda>(tree, bundle) i.
       bindR (index_or_panic (removals bundle) i) (\<lambda>p.
         apply_remove tree (pi_proposal p) i (is_by_value p) bundle exts idp filtering))
       (tree, bundle) (rev [0..<length (removals bundle)])"

record partial_update =
  pu_index :: leaf_index
  pu_old :: leaf_node
  pu_new :: leaf_node
  pu_pos :: nat

text \<open>The old leaves of the updates are taken out of the tree before any new one is put in.\<close>

definition blank_updated ::
    "extension_list \<Rightarrow> identity_provider \<Rightarrow> bool \<Rightarrow> tree_kem_public \<times> partial_update list \<Rightarrow>
     nat \<times> leaf_node proposal_info \<times> leaf_index \<Rightarrow> (tree_kem_public \<times> partial_update list) res" where
  "blank_updated exts idp filtering = (\<lambda>(tree, partial) (i, p, index).
     case blank_leaf_node (tk_nodes tree) index of
       (nodes, Inr old_leaf) \<Rightarrow>
         bindR (identity_of idp (ln_signing_identity old_leaf) exts) (\<lambda>old_id.
           Inr (tree\<lparr>tk_nodes := nodes, tk_index := tree_index_remove (tk_index tree) old_leaf old_id\<rparr>,
                partial @ [\<lparr>pu_index = index, pu_old = old_leaf, pu_new = pi_proposal p, pu_pos = i\<rparr>]))
     | (nodes, Inl e) \<Rightarrow>
         if \<not> filtering \<or> \<not> is_by_reference p then Inl UpdatingNonExistingMember
         else Inr (tree\<lparr>tk_nodes := nodes\<rparr>, partial))"

text \<open>
  The updates one by one. \<open>done\<close> are the updates made so far, with the leaf each replaced; the result holds
  the tree, the updated leaves and the positions of the rejected updates. Where neither the new nor the old leaf
  can be put in, the leaves of \<open>done\<close> are put back and the index is the one from before the first update.
\<close>

definition put_leaf :: "tree_kem_public \<Rightarrow> leaf_index \<Rightarrow> leaf_node \<Rightarrow> tree_kem_public res" where
  "put_leaf tree index leaf = bindR (insert_leaf (tk_nodes tree) index leaf) (\<lambda>nodes. Inr (tree\<lparr>tk_nodes := nodes\<rparr>))"

fun apply_updates ::
    "extension_list \<Rightarrow> identity_provider \<Rightarrow> bool \<Rightarrow> tree_index \<Rightarrow> partial_update list \<Rightarrow> tree_kem_public \<Rightarrow>
     (leaf_index \<times> leaf_node) list \<Rightarrow> nat list \<Rightarrow> (tree_kem_public \<times> leaf_index list \<times> nat list) res" where
  "apply_updates exts idp filtering index_clone [] tree replaced bad = Inr (tree, map fst replaced, bad)"
| "apply_updates exts idp filtering index_clone (u # us) tree replaced bad =
     (case index_insert (tk_index tree) (pu_new u) (pu_index u) idp exts of
        (ti, Inr _) \<Rightarrow>
          bindR (put_leaf (tree\<lparr>tk_index := ti\<rparr>) (pu_index u) (pu_new u)) (\<lambda>tree.
            apply_updates exts idp filtering index_clone us tree (replaced @ [(pu_index u, pu_old u)]) bad)
      | (ti, Inl e) \<Rightarrow>
          if \<not> filtering then Inl e
          else
            (case index_insert ti (pu_old u) (pu_index u) idp exts of
               (ti, Inr _) \<Rightarrow>
                 bindR (put_leaf (tree\<lparr>tk_index := ti\<rparr>) (pu_index u) (pu_old u)) (\<lambda>tree.
                   apply_updates exts idp filtering index_clone us tree replaced (bad @ [pu_pos u]))
             | (_, Inl _) \<Rightarrow>
                 bindR (foldR (\<lambda>tree (index, leaf). put_leaf tree index leaf)
                         (tree\<lparr>tk_index := index_clone\<rparr>) replaced) (\<lambda>tree. Inr (tree, [], bad))))"

definition vec_remove :: "nat \<Rightarrow> 'a list \<Rightarrow> 'a list res" where
  "vec_remove i xs = (if i < length xs then Inr (remove_at i xs) else Inl Mls_Panic)"

definition reject_updates :: "leaf_index list \<Rightarrow> nat list \<Rightarrow> proposal_bundle \<Rightarrow> proposal_bundle res" where
  "reject_updates updated bad bundle =
     (if updated = [] then Inr (bundle\<lparr>updates := []\<rparr>)
      else foldR (\<lambda>bundle i.
             bindR (vec_remove i (update_senders bundle)) (\<lambda>senders.
               Inr (bundle\<lparr>updates := remove_at i (updates bundle), update_senders := senders\<rparr>)))
           bundle (rev bad))"

definition blank_paths :: "tree_kem_public \<Rightarrow> leaf_index list \<Rightarrow> tree_kem_public res" where
  "blank_paths = foldR (\<lambda>tree index. bindR (blank_direct_path (tk_nodes tree) index) (\<lambda>nodes. Inr (tree\<lparr>tk_nodes := nodes\<rparr>)))"

definition apply_add ::
    "extension_list \<Rightarrow> identity_provider \<Rightarrow> bool \<Rightarrow> tree_kem_public \<times> leaf_index \<times> leaf_index list \<times> nat list \<Rightarrow>
     nat \<times> key_package proposal_info \<Rightarrow> (tree_kem_public \<times> leaf_index \<times> leaf_index list \<times> nat list) res" where
  "apply_add exts idp filtering = (\<lambda>(tree, start, added, bad) (i, p).
     case add_leaf tree (kp_leaf_node (pi_proposal p)) idp exts (Some start) of
       (tree, Inr index) \<Rightarrow> Inr (tree, index, added @ [index], bad)
     | (tree, Inl e) \<Rightarrow>
         if is_by_value p \<or> \<not> filtering then Inl e else Inr (tree, start, added, bad @ [i]))"

definition apply_adds ::
    "extension_list \<Rightarrow> identity_provider \<Rightarrow> bool \<Rightarrow> tree_kem_public \<Rightarrow> proposal_bundle \<Rightarrow>
     (tree_kem_public \<times> proposal_bundle \<times> leaf_index list) res" where
  "apply_adds exts idp filtering tree bundle =
     bindR (foldR (apply_add exts idp filtering) (tree, 0, [], []) (enumerate 0 (additions bundle)))
       (\<lambda>(tree, start, added, bad).
         Inr (tree, bundle\<lparr>additions := foldl (\<lambda>as i. remove_at i as) (additions bundle) (rev bad)\<rparr>, added))"

definition batch_edit ::
    "tree_kem_public \<Rightarrow> proposal_bundle \<Rightarrow> extension_list \<Rightarrow> identity_provider \<Rightarrow> cipher_suite_provider \<Rightarrow> bool \<Rightarrow>
     (tree_kem_public \<times> proposal_bundle \<times> leaf_index list) res" where
  "batch_edit tree bundle exts idp csp filtering =
     bindR (apply_removes tree bundle exts idp filtering) (\<lambda>(tree, bundle).
     bindR (foldR (blank_updated exts idp filtering) (tree, [])
              (enumerate 0 (zip (updates bundle) (update_senders bundle)))) (\<lambda>(tree, partial).
     bindR (apply_updates exts idp filtering (tk_index tree) partial tree [] []) (\<lambda>(tree, updated, bad).
     bindR (blank_paths tree updated) (\<lambda>tree.
     bindR (reject_updates updated bad bundle) (\<lambda>bundle.
     bindR (apply_adds exts idp filtering tree bundle) (\<lambda>(tree, bundle, added).
       let tree = tree\<lparr>tk_nodes := trim (tk_nodes tree)\<rparr> in
     bindR (update_hashes tree (map pi_proposal (removals bundle) @ updated @ added) csp) (\<lambda>tree.
       Inr (tree, bundle, added))))))))"

end
