(* ===== verification/Kem.thy ===== *)
theory Kem
  imports TreeKem
begin

text \<open>
  Path secrets and their encryption (\<^verbatim>\<open>mls-rs/src/tree_kem/path_secret.rs\<close>, \<^verbatim>\<open>hpke_encryption.rs\<close>), the private
  part of a ratchet tree (\<^verbatim>\<open>private.rs\<close>) and the encapsulation of a new secret along the path of a member
  (\<^verbatim>\<open>kem.rs\<close>). The randomness an operation draws is an argument. The callers drop the tree and the keys an
  operation worked on when it returns an error.
\<close>

section \<open>Encryption to a node\<close>

definition encrypt_context_codec :: "(byte list \<times> byte list) codec" where
  "encrypt_context_codec = pair_codec byte_vec_codec byte_vec_codec"

definition encrypt_context_new :: "string \<Rightarrow> byte list \<Rightarrow> byte list \<times> byte list" where
  "encrypt_context_new label context = (bytes_of ''MLS 1.0 '' @ bytes_of label, context)"

text \<open>The provided methods of \<^verbatim>\<open>HpkeEncryptable\<close>, with the label and the conversions of the implementing type as arguments.\<close>

definition hpke_encrypt ::
    "string \<Rightarrow> byte list res \<Rightarrow> cipher_suite_provider \<Rightarrow> hpke_public_key \<Rightarrow> byte list \<Rightarrow> hpke_ciphertext res" where
  "hpke_encrypt label content csp public_key context =
     bindR (codecR (c_enc encrypt_context_codec (encrypt_context_new label context))) (\<lambda>context.
     bindR content (\<lambda>content.
       crypto (hpke_seal csp public_key context None content)))"

definition hpke_decrypt ::
    "string \<Rightarrow> (byte list \<Rightarrow> 'a res) \<Rightarrow> cipher_suite_provider \<Rightarrow> hpke_secret_key \<Rightarrow> hpke_public_key \<Rightarrow> byte list \<Rightarrow>
     hpke_ciphertext \<Rightarrow> 'a res" where
  "hpke_decrypt label from_bytes csp secret_key public_key context ct =
     bindR (codecR (c_enc encrypt_context_codec (encrypt_context_new label context))) (\<lambda>context.
     bindR (crypto (hpke_open csp ct secret_key public_key context None)) from_bytes)"

section \<open>Path secrets\<close>

type_synonym path_secret = "byte list"

definition path_secret_random :: "cipher_suite_provider \<Rightarrow> (nat \<Rightarrow> any_error + byte list) \<Rightarrow> path_secret res" where
  "path_secret_random csp rng = crypto (rng (kdf_extract_size csp))"

definition path_secret_empty :: "cipher_suite_provider \<Rightarrow> path_secret" where
  "path_secret_empty csp = replicate (kdf_extract_size csp) 0"

definition path_secret_encrypt ::
    "cipher_suite_provider \<Rightarrow> path_secret \<Rightarrow> hpke_public_key \<Rightarrow> byte list \<Rightarrow> hpke_ciphertext res" where
  "path_secret_encrypt csp secret public_key context = hpke_encrypt ''UpdatePathNode'' (Inr secret) csp public_key context"

definition path_secret_decrypt ::
    "cipher_suite_provider \<Rightarrow> hpke_secret_key \<Rightarrow> hpke_public_key \<Rightarrow> byte list \<Rightarrow> hpke_ciphertext \<Rightarrow> path_secret res" where
  "path_secret_decrypt = hpke_decrypt ''UpdatePathNode'' Inr"

definition to_hpke_key_pair ::
    "cipher_suite_provider \<Rightarrow> path_secret \<Rightarrow> (hpke_secret_key \<times> hpke_public_key) res" where
  "to_hpke_key_pair csp secret =
     bindR (kdf_derive_secret csp secret (bytes_of ''node'')) (\<lambda>node_secret. crypto (kem_derive csp node_secret))"

record path_secret_generator =
  psg_last :: "path_secret option"
  psg_starting_with :: "path_secret option"

definition psg_new :: path_secret_generator where
  "psg_new = \<lparr>psg_last = None, psg_starting_with = None\<rparr>"

definition psg_start :: "path_secret \<Rightarrow> path_secret_generator" where
  "psg_start secret = psg_new\<lparr>psg_starting_with := Some secret\<rparr>"

definition next_secret ::
    "cipher_suite_provider \<Rightarrow> (nat \<Rightarrow> any_error + byte list) \<Rightarrow> path_secret_generator \<Rightarrow>
     (path_secret_generator \<times> path_secret) res" where
  "next_secret csp rng gen =
     bindR (case psg_starting_with gen of
              Some s \<Rightarrow> Inr s
            | None \<Rightarrow>
                (case psg_last gen of
                   Some l \<Rightarrow> kdf_derive_secret csp l (bytes_of ''path'')
                 | None \<Rightarrow> path_secret_random csp rng)) (\<lambda>secret.
       Inr (\<lparr>psg_last = Some secret, psg_starting_with = None\<rparr>, secret))"

section \<open>The private part of the tree\<close>

record tree_kem_private =
  self_index :: leaf_index
  secret_keys :: "hpke_secret_key option list"

definition new_self_leaf :: "leaf_index \<Rightarrow> hpke_secret_key \<Rightarrow> tree_kem_private" where
  "new_self_leaf index own_secret = \<lparr>self_index = index, secret_keys = [Some own_secret]\<rparr>"

definition new_for_external :: tree_kem_private where
  "new_for_external = \<lparr>self_index = 0, secret_keys = []\<rparr>"

text \<open>A group of one member: the leaf added to an empty tree, with its secret key.\<close>

definition tree_kem_derive ::
    "leaf_node \<Rightarrow> hpke_secret_key \<Rightarrow> identity_provider \<Rightarrow> extension_list \<Rightarrow> (tree_kem_public \<times> tree_kem_private) res" where
  "tree_kem_derive leaf secret_key idp exts =
     (case add_leaf tree_kem_new leaf idp exts None of
        (public_tree, r) \<Rightarrow> bindR r (\<lambda>_. Inr (public_tree, new_self_leaf 0 secret_key)))"

definition private_update_leaf :: "tree_kem_private \<Rightarrow> hpke_secret_key \<Rightarrow> tree_kem_private res" where
  "private_update_leaf priv new_leaf =
     bindR (update_or_panic (replicate (length (secret_keys priv)) None) 0 (Some new_leaf)) (\<lambda>keys.
       Inr (priv\<lparr>secret_keys := keys\<rparr>))"

text \<open>
  The position of the lowest common ancestor on the direct path. The subtraction is unchecked: where both
  leaves are the same it wraps to the largest \<^verbatim>\<open>usize\<close>, a position past every array.
\<close>

definition lca_position :: "leaf_index \<Rightarrow> leaf_index \<Rightarrow> nat" where
  "lca_position a b = (let level = leaf_lca_level (node_of_leaf a) (node_of_leaf b) in if level < 2 then 2 ^ 64 + level - 2 else level - 2)"

text \<open>No generator of these loops draws randomness, since each starts with a given secret.\<close>

definition no_rng :: "nat \<Rightarrow> any_error + byte list" where
  "no_rng n = Inl ''unreachable''"

fun update_secrets_loop ::
    "cipher_suite_provider \<Rightarrow> node_vec \<Rightarrow> (nat \<times> copath_node \<times> bool) list \<Rightarrow> path_secret_generator \<Rightarrow>
     hpke_secret_key option list \<Rightarrow> hpke_secret_key option list res" where
  "update_secrets_loop csp nodes [] gen keys = Inr keys"
| "update_secrets_loop csp nodes ((i, n, f) # rest) gen keys =
     (if f then update_secrets_loop csp nodes rest gen keys
      else
        bindR (next_secret csp no_rng gen) (\<lambda>(gen, secret).
        bindR (bindR (borrow_node nodes (path n)) (\<lambda>node. ok_or (map_option node_public_key node) PubKeyMismatch))
          (\<lambda>expected_pub_key.
        bindR (to_hpke_key_pair csp secret) (\<lambda>(secret_key, public_key).
        bindR (guardR (expected_pub_key = public_key) PubKeyMismatch) (\<lambda>_.
        bindR (update_or_panic keys (i + 1) (Some secret_key)) (\<lambda>keys.
          update_secrets_loop csp nodes rest gen keys))))))"

definition update_secrets ::
    "tree_kem_private \<Rightarrow> cipher_suite_provider \<Rightarrow> leaf_index \<Rightarrow> path_secret \<Rightarrow> tree_kem_public \<Rightarrow> tree_kem_private res" where
  "update_secrets priv csp signer_index path_secret public_tree =
     bindR (nv_direct_copath (tk_nodes public_tree) (self_index priv)) (\<lambda>cps.
     bindR (filtered (tk_nodes public_tree) (self_index priv)) (\<lambda>fs.
     bindR (update_secrets_loop csp (tk_nodes public_tree)
              (drop (lca_position (self_index priv) signer_index) (enumerate 0 (zip cps fs)))
              (psg_start path_secret) (resize (length cps + 1) None (secret_keys priv))) (\<lambda>keys.
       Inr (priv\<lparr>secret_keys := keys\<rparr>))))"

section \<open>Encapsulation\<close>

record encap_generation =
  eg_update_path :: update_path
  eg_path_secrets :: "path_secret option list"
  eg_commit_secret :: path_secret

record encap_state =
  es_tree :: tree_kem_public
  es_keys :: "hpke_secret_key option list"
  es_gen :: path_secret_generator
  es_secrets :: "path_secret option list"

definition encap_step ::
    "cipher_suite_provider \<Rightarrow> (nat \<Rightarrow> any_error + byte list) \<Rightarrow> encap_state \<Rightarrow> nat \<times> copath_node \<times> bool \<Rightarrow> encap_state res" where
  "encap_step csp rng st = (\<lambda>(i, node, f).
     if \<not> f then
       bindR (next_secret csp rng (es_gen st)) (\<lambda>(gen, secret).
       bindR (to_hpke_key_pair csp secret) (\<lambda>(secret_key, public_key).
       bindR (update_or_panic (es_keys st) (i + 1) (Some secret_key)) (\<lambda>keys.
       bindR (update_node (es_tree st) public_key (path node)) (\<lambda>tree.
         Inr \<lparr>es_tree = tree, es_keys = keys, es_gen = gen, es_secrets = es_secrets st @ [Some secret]\<rparr>))))
     else
       bindR (update_or_panic (es_keys st) (i + 1) None) (\<lambda>keys.
         Inr (st\<lparr>es_keys := keys, es_secrets := es_secrets st @ [None]\<rparr>)))"

definition encrypt_copath_node_resolution ::
    "tree_kem_public \<Rightarrow> cipher_suite_provider \<Rightarrow> path_secret \<Rightarrow> node_index \<Rightarrow> byte list \<Rightarrow> node_index list \<Rightarrow>
     update_path_node res" where
  "encrypt_copath_node_resolution tree csp path_secret copath_index context excluding =
     bindR (mapR (\<lambda>idx.
              bindR (bindR (borrow_node (tk_nodes tree) idx) as_non_empty) (\<lambda>node.
                path_secret_encrypt csp path_secret (node_public_key node) context))
             (filter (\<lambda>idx. idx \<notin> set excluding) (get_resolution_index (tk_nodes tree) copath_index))) (\<lambda>ctxts.
     bindR (ok_or (parent_sibling_of copath_index (total_leaf_count (tk_nodes tree))) ExpectedNode) (\<lambda>ps.
     bindR (borrow_as_parent (tk_nodes tree) (parent_sibling.parent ps)) (\<lambda>p.
       Inr \<lparr>upn_public_key = p_public_key p, encrypted_path_secret = ctxts\<rparr>)))"

fun encrypt_path_secrets ::
    "tree_kem_public \<Rightarrow> cipher_suite_provider \<Rightarrow> byte list \<Rightarrow> leaf_index list \<Rightarrow>
     (copath_node \<times> path_secret option) list \<Rightarrow> update_path_node list res" where
  "encrypt_path_secrets tree csp context_bytes excluding [] = Inr []"
| "encrypt_path_secrets tree csp context_bytes excluding ((index, path_secret) # rest) =
     (case path_secret of
        None \<Rightarrow> encrypt_path_secrets tree csp context_bytes excluding rest
      | Some secret \<Rightarrow>
          bindR (encrypt_copath_node_resolution tree csp secret (copath index) context_bytes (map node_of_leaf excluding)) (\<lambda>n.
          bindR (encrypt_path_secrets tree csp context_bytes excluding rest) (\<lambda>ns. Inr (n # ns))))"

text \<open>
  The result of \<open>encap\<close>: the tree, the keys and the group context it leaves behind, and what it generated.
\<close>

definition encap ::
    "tree_kem_public \<Rightarrow> tree_kem_private \<Rightarrow> group_context \<Rightarrow> leaf_index list \<Rightarrow> signature_secret_key \<Rightarrow>
     config_properties option \<Rightarrow> signing_identity option \<Rightarrow> cipher_suite_provider \<Rightarrow> (nat \<Rightarrow> any_error + byte list) \<Rightarrow>
     any_error + hpke_secret_key \<times> hpke_public_key \<Rightarrow>
     (tree_kem_public \<times> tree_kem_private \<times> group_context \<times> encap_generation) res" where
  "encap tree priv context excluding signer update_leaf_properties signing_identity csp rng generated =
     (let index = self_index priv in
     bindR (nv_direct_copath (tk_nodes tree) index) (\<lambda>cps.
     bindR (filtered (tk_nodes tree) index) (\<lambda>fs.
     bindR (foldR (encap_step csp rng)
              \<lparr>es_tree = tree, es_keys = resize (length cps + 1) None (secret_keys priv), es_gen = psg_new, es_secrets = []\<rparr>
              (enumerate 0 (zip cps fs))) (\<lambda>st.
     bindR (update_parent_hashes (es_tree st) index False csp) (\<lambda>tree.
     bindR (borrow_as_leaf_mut (tk_nodes tree) index) (\<lambda>own_leaf.
     bindR (leaf_node_commit csp generated own_leaf (gc_group_id context) index update_leaf_properties
              signing_identity signer) (\<lambda>(own_leaf, own_secret).
     bindR (update_or_panic (es_keys st) 0 (Some own_secret)) (\<lambda>keys.
     bindR (update_hashes (tree\<lparr>tk_nodes := set_leaf (tk_nodes tree) index own_leaf\<rparr>) [index] csp) (\<lambda>tree.
     bindR (tk_tree_hash tree csp) (\<lambda>(tree, h).
       let context = context\<lparr>gc_tree_hash := h\<rparr> in
     bindR (codecR (c_enc group_context_codec context)) (\<lambda>context_bytes.
     bindR (encrypt_path_secrets tree csp context_bytes excluding (zip cps (es_secrets st))) (\<lambda>node_updates.
     bindR (next_secret csp rng (es_gen st)) (\<lambda>(_, commit_secret).
       Inr (tree, priv\<lparr>secret_keys := keys\<rparr>, context,
            \<lparr>eg_update_path = \<lparr>up_leaf_node = own_leaf, up_nodes = node_updates\<rparr>,
             eg_path_secrets = es_secrets st, eg_commit_secret = commit_secret\<rparr>))))))))))))))"

section \<open>Decapsulation\<close>

text \<open>
  The first node at or below a position of the path that is not blank; the position is decremented
  unchecked, so below the leaf it wraps and indexing fails. Where the key of the node is not known, the own leaf.
\<close>

fun nonblank_below :: "node_vec \<Rightarrow> node_index list \<Rightarrow> nat \<Rightarrow> nat res" where
  "nonblank_below nodes cps i =
     bindR (index_or_panic cps i) (\<lambda>x.
     bindR (is_blank nodes x) (\<lambda>b.
       if b then (case i of 0 \<Rightarrow> Inl Mls_Panic | Suc i' \<Rightarrow> nonblank_below nodes cps i') else Inr i))"

declare nonblank_below.simps [simp del]

definition find_resolved_pos ::
    "tree_kem_public \<Rightarrow> tree_kem_private \<Rightarrow> node_index list \<Rightarrow> nat \<Rightarrow> nat res" where
  "find_resolved_pos tree priv cps lca_index =
     bindR (nonblank_below (tk_nodes tree) cps lca_index) (\<lambda>i.
     bindR (index_or_panic (secret_keys priv) i) (\<lambda>key. Inr (if key = None then 0 else i)))"

text \<open>\<^verbatim>\<open>Itertools::find_position\<close>.\<close>

fun position :: "'a \<Rightarrow> 'a list \<Rightarrow> nat option" where
  "position x [] = None"
| "position x (y # ys) = (if y = x then Some 0 else map_option Suc (position x ys))"

definition find_ciphertext_pos ::
    "tree_kem_public \<Rightarrow> node_index \<Rightarrow> node_index \<Rightarrow> leaf_index list \<Rightarrow> nat res" where
  "find_ciphertext_pos tree lca resolved excluding =
     ok_or (position resolved (filter (\<lambda>idx. idx mod 2 = 1 \<or> from_node_index_unchecked idx \<notin> set excluding)
              (get_resolution_index (tk_nodes tree) lca))) UpdateErrorNoSecretKey"

fun decap_loop ::
    "cipher_suite_provider \<Rightarrow> (nat \<times> update_path_node option) list \<Rightarrow> path_secret_generator \<Rightarrow>
     hpke_secret_key option list \<Rightarrow> (path_secret_generator \<times> hpke_secret_key option list) res" where
  "decap_loop csp [] gen keys = Inr (gen, keys)"
| "decap_loop csp ((i, None) # rest) gen keys =
     bindR (update_or_panic keys (i + 1) None) (\<lambda>keys. decap_loop csp rest gen keys)"
| "decap_loop csp ((i, Some update) # rest) gen keys =
     bindR (next_secret csp no_rng gen) (\<lambda>(gen, secret).
     bindR (to_hpke_key_pair csp secret) (\<lambda>(hpke_private, hpke_public).
     bindR (guardR (hpke_public = upn_public_key update) PubKeyMismatch) (\<lambda>_.
     bindR (update_or_panic keys (i + 1) (Some hpke_private)) (\<lambda>keys.
       decap_loop csp rest gen keys))))"

definition decap ::
    "tree_kem_public \<Rightarrow> tree_kem_private \<Rightarrow> leaf_index \<Rightarrow> validated_update_path \<Rightarrow> leaf_index list \<Rightarrow> byte list \<Rightarrow>
     cipher_suite_provider \<Rightarrow> (tree_kem_private \<times> path_secret) res" where
  "decap tree priv sender_index update_path added_leaves context_bytes csp =
     (let lca_index = lca_position (self_index priv) sender_index in
     bindR (nv_direct_copath (tk_nodes tree) (self_index priv)) (\<lambda>cps.
       let own_path = node_of_leaf (self_index priv) # map path cps in
     bindR (find_resolved_pos tree priv own_path lca_index) (\<lambda>resolved_pos.
     bindR (index_or_panic own_path lca_index) (\<lambda>lca.
     bindR (index_or_panic own_path resolved_pos) (\<lambda>resolved.
     bindR (find_ciphertext_pos tree lca resolved added_leaves) (\<lambda>ct_pos.
     bindR (bindR (index_or_panic (vup_nodes update_path) lca_index) (\<lambda>n. ok_or n LcaNotFoundInDirectPath)) (\<lambda>lca_node.
     bindR (ok_or (get_at (encrypted_path_secret lca_node) ct_pos) LcaNotFoundInDirectPath) (\<lambda>ct.
     bindR (bindR (index_or_panic (secret_keys priv) resolved_pos) (\<lambda>k. ok_or k UpdateErrorNoSecretKey)) (\<lambda>secret.
     bindR (bindR (borrow_node (tk_nodes tree) resolved) (\<lambda>n. ok_or n UpdateErrorNoSecretKey)) (\<lambda>node.
     bindR (path_secret_decrypt csp secret (node_public_key node) context_bytes ct) (\<lambda>lca_path_secret.
     bindR (decap_loop csp (drop lca_index (enumerate 0 (vup_nodes update_path))) (psg_start lca_path_secret)
              (resize (length own_path + 1) None (secret_keys priv))) (\<lambda>(gen, keys).
     bindR (next_secret csp no_rng gen) (\<lambda>(_, commit_secret).
       Inr (priv\<lparr>secret_keys := keys\<rparr>, commit_secret))))))))))))))"

end
