(* ===== verification/StreamCodecs.thy ===== *)
theory StreamCodecs
  imports MlsTypesLaws
begin

text \<open>
  Two laws that also hold of the codecs that are not canonical (the decoder of a proposal accepts the reserved type 0,
  which no encoder writes). \<open>stream_codec\<close>: an encoding is decoded to the value it came from, and a decoder consumes at
  least one byte. \<open>returns\<close>: a decoder ends on every byte string, well-formed or not. Both are proved for every way to
  combine codecs.
\<close>

section \<open>Stream codecs\<close>

lemma stream_codec_cong: "stream_codec c ok \<Longrightarrow> (\<And>x. ok x = ok' x) \<Longrightarrow> stream_codec c ok'"
  using ext [of ok ok'] by simp

lemma mls_dec:
  assumes "mls_codec c ok" "c_dec c bs = Inr (x, rest)"
  shows "ok x \<and> (\<exists>p. bs = p @ rest)"
  using mls_codec.dec_ok [OF assms] mls_codec.consumes [OF assms] by blast

lemma stream_dec:
  assumes "stream_codec c ok" "c_dec c bs = Inr (x, rest)"
  shows "ok x \<and> (\<exists>p. bs = p @ rest \<and> p \<noteq> [])"
proof -
  from mls_dec [OF stream_mls [OF assms(1)] assms(2)] obtain p where p: "ok x" "bs = p @ rest" by blast
  moreover have "p \<noteq> []" using stream_codec.progress [OF assms] p(2) by fastforce
  ultimately show ?thesis by blast
qed

lemma vec_stream:
  assumes "stream_codec c ok"
  shows "stream_codec (vec_codec c) (list_all ok)"
proof (rule stream_codecI)
  note mls = stream_mls [OF assms]
  fix xs bs assume ok: "list_all ok xs" and enc: "c_enc (vec_codec c) xs = Inr bs"
  then show "c_len (vec_codec c) xs = length bs"
    using mls_codec.iter_len_law [OF mls] by (auto simp: vec_codec_def)
  fix rest
  from ok enc show "c_dec (vec_codec c) (bs @ rest) = Inr (xs, rest)"
    by (auto simp: vec_codec_def iter_encode_byte_vec mls_decode_collection_def
        split_on_collection_iff stream_codec.decode_items_concat [OF assms])
next
  fix bs xs rest assume "c_dec (vec_codec c) bs = Inr (xs, rest)"
  then show "list_all ok xs \<and> (\<exists>p. bs = p @ rest \<and> p \<noteq> [])"
    by (auto simp: vec_codec_def mls_decode_collection_def split_on_collection_iff
        dest: stream_codec.decode_items_ok [OF assms] byte_vec_nonempty)
qed

lemma option_stream:
  assumes mls: "mls_codec c ok"
  shows "stream_codec (option_codec c) (pred_option ok)"
proof (rule stream_codecI)
  fix v bs assume ok: "pred_option ok v" and enc: "c_enc (option_codec c) v = Inr bs"
  then show "c_len (option_codec c) v = length bs"
    by (auto simp: option_codec_def split: option.splits dest: mls_codec.len_law [OF mls])
  fix rest
  from ok enc show "c_dec (option_codec c) (bs @ rest) = Inr (v, rest)"
    by (cases v) (auto simp: option_codec_def [THEN arg_cong [of _ _ c_enc]] option_dec mls_codec.round_trip [OF mls])
next
  fix bs v rest assume "c_dec (option_codec c) bs = Inr (v, rest)"
  then show "pred_option ok v \<and> (\<exists>p. bs = p @ rest \<and> p \<noteq> [])"
    by (cases bs; cases v) (auto simp: option_codec_def u8_decode split: if_splits dest: mls_dec [OF mls])
qed

lemma pair_mls:
  assumes "mls_codec c ok" "mls_codec d ok'"
  shows "mls_codec (pair_codec c d) (\<lambda>(x, y). ok x \<and> ok' y)"
proof
  fix xy bs assume ok: "case xy of (x, y) \<Rightarrow> ok x \<and> ok' y" and enc: "c_enc (pair_codec c d) xy = Inr bs"
  then show "c_len (pair_codec c d) xy = length bs"
    by (auto simp: pair_codec_def mls_codec.len_law [OF assms(1)] mls_codec.len_law [OF assms(2)])
  fix rest
  from ok enc show "c_dec (pair_codec c d) (bs @ rest) = Inr (xy, rest)"
    by (auto simp: pair_codec_def mls_codec.round_trip [OF assms(1)] mls_codec.round_trip [OF assms(2)])
qed (auto simp: pair_codec_def dest!: mls_dec [OF assms(1)] mls_dec [OF assms(2)])

lemma pair_stream:
  assumes "stream_codec c ok" "mls_codec d ok'"
  shows "stream_codec (pair_codec c d) (\<lambda>(x, y). ok x \<and> ok' y)"
proof -
  have "length rest < length bs" if "c_dec (pair_codec c d) bs = Inr (xy, rest)" for bs xy rest
    using that by (auto simp: pair_codec_def dest!: stream_dec [OF assms(1)] mls_dec [OF assms(2)])
  then show ?thesis
    using pair_mls [OF stream_mls [OF assms(1)] assms(2)] by (simp add: stream_codec_def stream_codec_axioms_def)
qed

lemma struct_stream:
  assumes "stream_codec c ok" "\<And>v. mk (flds v) = v" "\<And>f. flds (mk f) = f"
  shows "stream_codec (struct_codec flds mk c) (\<lambda>v. ok (flds v))"
  by (rule stream_codecI)
    (auto simp: struct_codec_def assms(2,3) mls_codec.len_law [OF stream_mls [OF assms(1)]]
      mls_codec.round_trip [OF stream_mls [OF assms(1)]] dest: stream_dec [OF assms(1)])

definition stream_variant :: "('a \<Rightarrow> bool) \<Rightarrow> 'a variant \<Rightarrow> bool" where
  "stream_variant ok k \<longleftrightarrow>
     (\<forall>v bs rest. v_view k v \<longrightarrow> ok v \<longrightarrow> v_enc k v = Inr bs \<longrightarrow>
        v_len k v = length bs \<and> v_dec k (bs @ rest) = Inr (v, rest)) \<and>
     (\<forall>bs v rest. v_dec k bs = Inr (v, rest) \<longrightarrow> ok v \<and> (\<exists>p. bs = p @ rest))"

lemma variant_of_stream:
  assumes mls: "mls_codec c ok'" and "\<And>v x. view v = Some x \<longleftrightarrow> v = mk x" "\<And>x. ok (mk x) = ok' x"
  shows "stream_variant ok (variant_of disc view mk c)"
proof -
  have view: "view (mk x) = Some x" for x using assms(2) by simp
  show ?thesis
    unfolding stream_variant_def variant_of_def
    by (auto simp: assms view mls_codec.len_law [OF mls] mls_codec.round_trip [OF mls] dest: mls_dec [OF mls])
qed

lemma enum_stream:
  fixes vs :: "'a variant list"
  assumes "8 dvd LENGTH('d::len)" and lawful: "\<And>k. k \<in> set vs \<Longrightarrow> stream_variant ok k"
    and disc: "distinct (map (\<lambda>k. of_nat (v_disc k) :: 'd word) vs)"
  shows "stream_codec (enum_codec TYPE('d word) vs) ok"
proof (rule stream_codecI)
  note wire = stdint_wire [OF assms(1)]
  note mls = stream_mls [OF wire_stream [OF wire]]
  fix v bs rest assume ok: "ok v" and enc: "c_enc (enum_codec TYPE('d word) vs) v = Inr bs"
  then obtain k where k: "find (\<lambda>k. v_view k v) vs = Some k" "k \<in> set vs" "v_view k v"
    by (auto simp: enum_codec_def split: option.splits dest: find_SomeD)
  with enc obtain p q where pq: "c_enc (stdint_codec :: 'd word codec) (of_nat (v_disc k)) = Inr p"
    "v_enc k v = Inr q" "bs = p @ q"
    by (auto simp: enum_codec_def)
  from pq(1) have p: "c_len (stdint_codec :: 'd word codec) (of_nat (v_disc k)) = length p"
    "\<And>r. c_dec (stdint_codec :: 'd word codec) (p @ r) = Inr (of_nat (v_disc k), r)"
    using mls_codec.len_law [OF mls] mls_codec.round_trip [OF mls] by auto
  from lawful [OF k(2)] k pq p(1) ok show "c_len (enum_codec TYPE('d word) vs) v = length bs"
    by (simp add: enum_codec_def stream_variant_def)
  from lawful [OF k(2)] k pq ok p(2) find_disc [OF disc k(2)]
  show "c_dec (enum_codec TYPE('d word) vs) (bs @ rest) = Inr (v, rest)"
    by (simp add: enum_codec_def stream_variant_def)
next
  fix bs v rest assume "c_dec (enum_codec TYPE('d word) vs) bs = Inr (v, rest)"
  then obtain n r k where dec: "c_dec (stdint_codec :: 'd word codec) bs = Inr (n, r)"
    and find: "find (\<lambda>k. of_nat (v_disc k) = n) vs = Some k" and k: "v_dec k r = Inr (v, rest)"
    by (auto simp: enum_codec_def split: option.splits)
  from stream_dec [OF wire_stream [OF stdint_wire [OF assms(1)]] dec] lawful [of k] find_SomeD [OF find] k
  show "ok v \<and> (\<exists>p. bs = p @ rest \<and> p \<noteq> [])"
    unfolding stream_variant_def by fastforce
qed

section \<open>Decoders that end\<close>

definition returns :: "'a codec \<Rightarrow> bool" where
  "returns c \<longleftrightarrow> (\<forall>bs. c_dec c bs \<noteq> Inl Codec_Diverges)"

definition variant_returns :: "'a variant \<Rightarrow> bool" where
  "variant_returns k \<longleftrightarrow> (\<forall>bs. v_dec k bs \<noteq> Inl Codec_Diverges)"

lemma returns_stdint: "returns (stdint_codec :: 'a::len word codec)"
  by (auto simp: returns_def stdint_codec_def array_decode_def bindR_eq_Inl split: if_splits)

lemma returns_unit: "returns unit_codec"
  by (simp add: returns_def unit_codec_def)

lemma returns_array: "returns (array_codec n)"
  by (auto simp: returns_def array_codec_def array_decode_def split: if_splits)

lemma varint_decode_returns: "varint_decode bs \<noteq> Inl Codec_Diverges"
proof (cases bs)
  case Nil
  then show ?thesis by (simp add: varint_decode_def u8_decode)
next
  case (Cons b r)
  then show ?thesis by (auto simp: varint_decode_be Let_def split: option.splits)
qed

lemma split_returns: "mls_decode_split_on_collection bs \<noteq> Inl Codec_Diverges"
  using varint_decode_returns
  by (auto simp: mls_decode_split_on_collection_def varint_codec_def Let_def bindR_eq_Inl)

lemma returns_byte_vec: "returns byte_vec_codec"
  using split_returns by (auto simp: returns_def byte_vec_codec_def byte_vec_decode_def bindR_eq_Inl)

lemma returns_pair: "returns c \<Longrightarrow> returns d \<Longrightarrow> returns (pair_codec c d)"
  by (auto simp: returns_def pair_codec_def bindR_eq_Inl)

lemma returns_struct: "returns c \<Longrightarrow> returns (struct_codec flds mk c)"
  by (auto simp: returns_def struct_codec_def bindR_eq_Inl)

lemma returns_option: "returns c \<Longrightarrow> returns (option_codec c)"
  using returns_stdint by (auto simp: returns_def option_codec_def bindR_eq_Inl)

lemma returns_vec:
  assumes "returns c" "stream_codec c ok"
  shows "returns (vec_codec c)"
  using split_returns stream_codec.decode_items_returns [OF assms(2)] assms(1)
  by (auto simp: returns_def vec_codec_def mls_decode_collection_def bindR_eq_Inl)

lemma returns_variant_of: "returns c \<Longrightarrow> variant_returns (variant_of disc view mk c)"
  by (auto simp: returns_def variant_returns_def variant_of_def bindR_eq_Inl)

lemma returns_enum: "list_all variant_returns vs \<Longrightarrow> returns (enum_codec TYPE('d::len word) vs)"
  using returns_stdint [where 'a = 'd]
  by (auto simp: returns_def variant_returns_def enum_codec_def bindR_eq_Inl list_all_iff
      split: option.splits dest: find_SomeD)

end
