(* ===== verification/FramingLaws.thy ===== *)
theory FramingLaws
  imports Framing StreamCodecs Samples
begin

text \<open>
  The codecs of the protocol's messages are stream codecs whose decoders end on every byte string: a message that satisfies
  its invariant is decoded back from its encoding.
\<close>

section \<open>Invariants\<close>

definition key_package_ok :: "key_package \<Rightarrow> bool" where
  "key_package_ok kp \<longleftrightarrow> leaf_node_ok (kp_leaf_node kp) \<and> extension_list_ok (kp_extensions kp)"

fun proposal_ok :: "proposal \<Rightarrow> bool" where
  "proposal_ok (Prop_Add kp) = key_package_ok kp"
| "proposal_ok (Prop_Update l) = leaf_node_ok l"
| "proposal_ok (Prop_Remove i) = (i \<le> MAX_LEAF_INDEX)"
| "proposal_ok (Prop_ReInit r) = extension_list_ok (ri_extensions r)"
| "proposal_ok (Prop_GroupContextExtensions e) = extension_list_ok e"
| "proposal_ok (Prop_Custom t _) = (t = 0 \<or> 7 < t)"
| "proposal_ok _ = True"

fun proposal_or_ref_ok :: "proposal_or_ref \<Rightarrow> bool" where
  "proposal_or_ref_ok (PoR_Proposal p) = proposal_ok p"
| "proposal_or_ref_ok (PoR_Reference _) = True"

definition update_path_ok :: "update_path \<Rightarrow> bool" where
  "update_path_ok p = leaf_node_ok (up_leaf_node p)"

definition commit_ok :: "commit \<Rightarrow> bool" where
  "commit_ok c \<longleftrightarrow> list_all proposal_or_ref_ok (cm_proposals c) \<and> pred_option update_path_ok (cm_path c)"

fun content_ok :: "content \<Rightarrow> bool" where
  "content_ok (Content_Application _) = True"
| "content_ok (Content_Proposal p) = proposal_ok p"
| "content_ok (Content_Commit c) = commit_ok c"

text \<open>A confirmation tag is there exactly if the content is a commit, a membership tag if the sender is a member.\<close>

definition auth_data_ok :: "content_type \<Rightarrow> auth_data \<Rightarrow> bool" where
  "auth_data_ok t a \<longleftrightarrow> (ad_confirmation_tag a \<noteq> None) = (t = Ct_Commit)"

definition public_message_ok :: "public_message \<Rightarrow> bool" where
  "public_message_ok m \<longleftrightarrow> content_ok (fc_content (pm_content m)) \<and>
     auth_data_ok (content_type_of (fc_content (pm_content m))) (pm_auth m) \<and>
     (pm_membership_tag m \<noteq> None) = is_member (fc_sender (pm_content m))"

definition auth_content_ok :: "authenticated_content \<Rightarrow> bool" where
  "auth_content_ok a \<longleftrightarrow> content_ok (fc_content (ac_content a)) \<and>
     auth_data_ok (content_type_of (fc_content (ac_content a))) (ac_auth a)"

definition group_info_ok :: "group_info \<Rightarrow> bool" where
  "group_info_ok g \<longleftrightarrow> extension_list_ok (gc_extensions (gi_group_context g)) \<and>
     extension_list_ok (gi_extensions g) \<and> gi_signer g \<le> MAX_LEAF_INDEX"

fun payload_ok :: "message_payload \<Rightarrow> bool" where
  "payload_ok (Pl_Plain m) = public_message_ok m"
| "payload_ok (Pl_GroupInfo g) = group_info_ok g"
| "payload_ok (Pl_KeyPackage k) = key_package_ok k"
| "payload_ok _ = True"

section \<open>Stream codecs\<close>

lemma v_disc_variant_of [simp]: "v_disc (variant_of d view mk c) = d"
  by (simp add: variant_of_def)

lemma enum_streamI:
  fixes vs :: "'a variant list"
  assumes "list_all (stream_variant ok) vs" "8 dvd LENGTH('d::len)"
    and "distinct (map (\<lambda>k. of_nat (v_disc k) :: 'd word) vs)"
  shows "stream_codec (enum_codec TYPE('d word) vs) ok"
  using assms by (intro enum_stream) (auto simp: list_all_iff)

lemma unit_mls: "mls_codec unit_codec (\<lambda>_. True)"
  by (rule canonical_mls [OF unit_canonical])

lemmas base_streams =
  u8c.stream_codec_axioms u16c.stream_codec_axioms u32c.stream_codec_axioms u64c.stream_codec_axioms
  bytesc.stream_codec_axioms

lemmas type_streams = leaf_node_wire [THEN wire_stream] extension_list_wire [THEN wire_stream]
  leaf_index_wire [THEN wire_stream] group_context_wire [THEN wire_stream]

lemmas stream_intros = pair_stream vec_stream option_stream stream_mls base_streams type_streams

lemma bytes_option_stream: "stream_codec (option_codec byte_vec_codec) (\<lambda>_. True)"
  by (rule stream_codec_cong [OF option_stream]) (rule stream_intros | simp add: option.pred_True)+

lemma key_package_stream: "stream_codec key_package_codec key_package_ok"
  unfolding key_package_codec_def
  by (rule stream_codec_cong [OF struct_stream])
    (rule stream_intros | auto simp: key_package_ok_def split: prod.splits)+

lemma resumption_psk_usage_stream: "stream_codec resumption_psk_usage_codec (\<lambda>_. True)"
  unfolding resumption_psk_usage_codec_def
  by (rule enum_streamI)
    (auto intro!: variant_of_stream [OF unit_mls] split: resumption_psk_usage.splits)

lemma resumption_psk_stream: "stream_codec resumption_psk_codec (\<lambda>_. True)"
  unfolding resumption_psk_codec_def
  by (rule stream_codec_cong [OF struct_stream])
    (rule stream_intros resumption_psk_usage_stream | auto split: prod.splits)+

lemma just_psk_id_stream: "stream_codec just_psk_id_codec (\<lambda>_. True)"
  unfolding just_psk_id_codec_def
  by (rule enum_streamI)
    (auto intro!: variant_of_stream [OF stream_mls [OF resumption_psk_stream]]
      variant_of_stream [OF stream_mls [OF bytesc.stream_codec_axioms]] split: just_psk_id.splits)

lemma psk_id_stream: "stream_codec psk_id_codec (\<lambda>_. True)"
  unfolding psk_id_codec_def
  by (rule stream_codec_cong [OF struct_stream])
    (rule stream_intros just_psk_id_stream | auto split: prod.splits)+

lemma re_init_stream: "stream_codec re_init_codec (\<lambda>r. extension_list_ok (ri_extensions r))"
  unfolding re_init_codec_def
  by (rule stream_codec_cong [OF struct_stream])
    (rule stream_intros | auto split: prod.splits)+

lemmas proposal_streams = key_package_stream psk_id_stream re_init_stream type_streams(1-3)

lemmas proposal_mls = proposal_streams [THEN stream_mls]

lemma byte_vec_codec_sel:
  "byte_vec_len = c_len byte_vec_codec" "byte_vec_encode = c_enc byte_vec_codec" "byte_vec_decode = c_dec byte_vec_codec"
  by (simp_all add: byte_vec_codec_def)

lemma proposal_inner_len_ok:
  assumes "proposal_ok p" "proposal_inner_encode p = Inr bs"
  shows "proposal_inner_len p = length bs"
  using assms bytesc.len_law mls_codec.len_law [OF proposal_mls(1)] mls_codec.len_law [OF proposal_mls(2)]
    mls_codec.len_law [OF proposal_mls(3)] mls_codec.len_law [OF proposal_mls(4)] mls_codec.len_law [OF proposal_mls(5)]
    mls_codec.len_law [OF proposal_mls(6)]
  by (cases p) (simp_all add: byte_vec_codec_sel split: if_splits)

lemma proposal_inner_round_trip:
  assumes "proposal_ok p" "proposal_inner_encode p = Inr bs" "c_enc u16_codec (proposal_type_of p) = Inr hdr"
  shows "proposal_decode (hdr @ bs @ rest) = Inr (p, rest)"
proof -
  have dec: "c_dec u16_codec (hdr @ r) = Inr (proposal_type_of p, r)" for r
    using u16c.round_trip [OF _ assms(3)] by simp
  show ?thesis
    using assms(1,2) dec bytesc.round_trip mls_codec.round_trip [OF proposal_mls(1)] mls_codec.round_trip [OF proposal_mls(2)]
      mls_codec.round_trip [OF proposal_mls(3)] mls_codec.round_trip [OF proposal_mls(4)]
      mls_codec.round_trip [OF proposal_mls(5)] mls_codec.round_trip [OF proposal_mls(6)]
    by (cases p) (auto simp: proposal_decode_def byte_vec_codec_sel not_le split: if_splits)
qed

lemma word_le_7:
  fixes t :: u16
  assumes "t \<le> 7"
  shows "t = 0 \<or> t = 1 \<or> t = 2 \<or> t = 3 \<or> t = 4 \<or> t = 5 \<or> t = 6 \<or> t = 7"
proof -
  have "unat t \<le> 7" using assms by (simp add: word_le_nat_alt)
  then have "unat t = unat (0 :: u16) \<or> unat t = unat (1 :: u16) \<or> unat t = unat (2 :: u16) \<or> unat t = unat (3 :: u16) \<or>
      unat t = unat (4 :: u16) \<or> unat t = unat (5 :: u16) \<or> unat t = unat (6 :: u16) \<or> unat t = unat (7 :: u16)"
    by simp arith
  then show ?thesis by (blast intro: word_unat_eq_iff [THEN iffD2])
qed

lemma proposal_decode_ok:
  assumes "proposal_decode bs = Inr (p, rest)"
  shows "proposal_ok p \<and> (\<exists>q. bs = q @ rest \<and> q \<noteq> [])"
proof -
  from assms obtain t r where t: "c_dec u16_codec bs = Inr (t, r)"
    by (cases "c_dec u16_codec bs") (auto simp: proposal_decode_def)
  then obtain q where q: "bs = q @ r" "q \<noteq> []" using stream_dec [OF u16c.stream_codec_axioms t] by blast
  have reserved: "t = 0 \<or> 7 < t" if "t \<noteq> 1" "t \<noteq> 2" "t \<noteq> 3" "t \<noteq> 4" "t \<noteq> 5" "t \<noteq> 6" "t \<noteq> 7"
    using that word_le_7 [of t] by (auto simp: not_le [symmetric])
  have "proposal_ok p \<and> (\<exists>q'. r = q' @ rest)"
    using assms t reserved mls_dec [OF proposal_mls(1)] mls_dec [OF proposal_mls(2)] mls_dec [OF proposal_mls(3)] mls_dec [OF proposal_mls(4)]
       mls_dec [OF proposal_mls(5)] mls_dec [OF proposal_mls(6)] mls_dec [OF stream_mls [OF bytesc.stream_codec_axioms]]
    by (auto simp: proposal_decode_def byte_vec_codec_sel split: if_splits)
  with q show ?thesis by auto
qed

lemma proposal_stream: "stream_codec proposal_codec proposal_ok"
proof (rule stream_codecI)
  fix p bs assume ok: "proposal_ok p" and enc: "c_enc proposal_codec p = Inr bs"
  then obtain hdr bs' where parts: "c_enc u16_codec (proposal_type_of p) = Inr hdr" "proposal_inner_encode p = Inr bs'"
    "bs = hdr @ bs'"
    by (auto simp: proposal_codec_def)
  then show "c_len proposal_codec p = length bs"
    using proposal_inner_len_ok [OF ok] u16c.len_law [OF _ parts(1)] by (simp add: proposal_codec_def)
  show "c_dec proposal_codec (bs @ rest) = Inr (p, rest)" for rest
    using proposal_inner_round_trip [OF ok parts(2,1)] parts(3) by (simp add: proposal_codec_def)
next
  fix bs p rest assume "c_dec proposal_codec bs = Inr (p, rest)"
  then show "proposal_ok p \<and> (\<exists>q. bs = q @ rest \<and> q \<noteq> [])"
    using proposal_decode_ok by (simp add: proposal_codec_def)
qed

lemma hpke_ciphertext_stream: "stream_codec hpke_ciphertext_codec (\<lambda>_. True)"
  unfolding hpke_ciphertext_codec_def
  by (rule stream_codec_cong [OF struct_stream]) (rule stream_intros | auto split: prod.splits)+

lemma update_path_node_stream: "stream_codec update_path_node_codec (\<lambda>_. True)"
  unfolding update_path_node_codec_def
  by (rule stream_codec_cong [OF struct_stream])
    (rule stream_intros hpke_ciphertext_stream | auto simp: list_all_True split: prod.splits)+

lemma update_path_stream: "stream_codec update_path_codec update_path_ok"
  unfolding update_path_codec_def
  by (rule stream_codec_cong [OF struct_stream])
    (rule stream_intros update_path_node_stream | auto simp: update_path_ok_def list_all_True split: prod.splits)+

lemma proposal_or_ref_stream: "stream_codec proposal_or_ref_codec proposal_or_ref_ok"
  unfolding proposal_or_ref_codec_def
  by (rule enum_streamI)
    (auto intro!: variant_of_stream [OF stream_mls [OF proposal_stream]]
      variant_of_stream [OF stream_mls [OF bytesc.stream_codec_axioms]] split: proposal_or_ref.splits)

lemma commit_stream: "stream_codec commit_codec commit_ok"
  unfolding commit_codec_def
  by (rule stream_codec_cong [OF struct_stream])
    (rule stream_intros proposal_or_ref_stream update_path_stream | auto simp: commit_ok_def split: prod.splits)+

lemma content_type_stream: "stream_codec content_type_codec (\<lambda>_. True)"
  unfolding content_type_codec_def
  by (rule enum_streamI) (auto intro!: variant_of_stream [OF unit_mls] split: content_type.splits)

lemma wire_format_stream: "stream_codec wire_format_codec (\<lambda>_. True)"
  unfolding wire_format_codec_def
  by (rule enum_streamI) (auto intro!: variant_of_stream [OF unit_mls] split: wire_format.splits)

lemma sender_stream: "stream_codec sender_codec (\<lambda>_. True)"
  unfolding sender_codec_def
  by (rule enum_streamI)
    (auto intro!: variant_of_stream [OF unit_mls] variant_of_stream [OF stream_mls [OF u32c.stream_codec_axioms]]
      split: sender.splits)

lemma content_stream: "stream_codec content_codec content_ok"
  unfolding content_codec_def
  by (rule enum_streamI)
    (auto intro!: variant_of_stream [OF stream_mls [OF proposal_stream]] variant_of_stream [OF stream_mls [OF commit_stream]]
      variant_of_stream [OF stream_mls [OF bytesc.stream_codec_axioms]] split: content.splits)

lemma framed_content_stream: "stream_codec framed_content_codec (\<lambda>c. content_ok (fc_content c))"
  unfolding framed_content_codec_def
  by (rule stream_codec_cong [OF struct_stream])
    (rule stream_intros sender_stream content_stream | auto split: prod.splits)+

lemma private_message_stream: "stream_codec private_message_codec (\<lambda>_. True)"
  unfolding private_message_codec_def
  by (rule stream_codec_cong [OF struct_stream])
    (rule stream_intros content_type_stream | auto split: prod.splits)+

lemma group_info_stream: "stream_codec group_info_codec group_info_ok"
  unfolding group_info_codec_def
  by (rule stream_codec_cong [OF struct_stream])
    (rule stream_intros | auto simp: group_info_ok_def split: prod.splits)+

lemma encrypted_group_secrets_stream: "stream_codec encrypted_group_secrets_codec (\<lambda>_. True)"
  unfolding encrypted_group_secrets_codec_def
  by (rule stream_codec_cong [OF struct_stream])
    (rule stream_intros hpke_ciphertext_stream | auto split: prod.splits)+

lemma group_secrets_stream: "stream_codec group_secrets_codec (\<lambda>_. True)"
  unfolding group_secrets_codec_def
  by (rule stream_codec_cong [OF struct_stream])
    (rule stream_intros bytes_option_stream psk_id_stream | auto simp: list_all_True option.pred_True split: prod.splits)+

lemma welcome_stream: "stream_codec welcome_codec (\<lambda>_. True)"
  unfolding welcome_codec_def
  by (rule stream_codec_cong [OF struct_stream])
    (rule stream_intros encrypted_group_secrets_stream | auto simp: list_all_True split: prod.splits)+

subsection \<open>Content with authentication data\<close>

lemma present_round_trip:
  assumes "mls_codec c (\<lambda>_. True)" "present_encode c v = Inr bs" "(v \<noteq> None) = b"
  shows "present_decode c b (bs @ rest) = Inr (v, rest) \<and> present_len c v = length bs"
  using assms(2,3) mls_codec.round_trip [OF assms(1)] mls_codec.len_law [OF assms(1)]
  by (cases v) (auto simp: present_encode_def present_decode_def present_len_def)

lemma present_dec:
  assumes "mls_codec c (\<lambda>_. True)" "present_decode c b bs = Inr (v, rest)"
  shows "(v \<noteq> None) = b \<and> (\<exists>p. bs = p @ rest)"
  using assms(2) mls_dec [OF assms(1)] by (auto simp: present_decode_def split: if_splits)

lemmas bytes_mls = stream_mls [OF bytesc.stream_codec_axioms]

lemma auth_data_round_trip:
  assumes "auth_data_encode a = Inr bs" "auth_data_ok t a"
  shows "auth_data_decode t (bs @ rest) = Inr (a, rest) \<and> auth_data_len a = length bs"
proof -
  obtain s tag where parts: "c_enc byte_vec_codec (ad_signature a) = Inr s"
    "present_encode byte_vec_codec (ad_confirmation_tag a) = Inr tag" "bs = s @ tag"
    using assms(1) by (auto simp: auth_data_encode_def byte_vec_codec_sel)
  then show ?thesis
    using present_round_trip [OF bytes_mls parts(2)] assms(2) bytesc.round_trip [OF _ parts(1)] bytesc.len_law [OF _ parts(1)]
    by (simp add: auth_data_decode_def auth_data_len_def auth_data_ok_def byte_vec_codec_sel)
qed

lemma auth_data_dec:
  assumes "auth_data_decode t bs = Inr (a, rest)"
  shows "auth_data_ok t a \<and> (\<exists>p. bs = p @ rest)"
proof -
  obtain s r tag where parts: "c_dec byte_vec_codec bs = Inr (s, r)"
    "present_decode byte_vec_codec (t = Ct_Commit) r = Inr (tag, rest)" "a = \<lparr>ad_signature = s, ad_confirmation_tag = tag\<rparr>"
    using assms by (auto simp: auth_data_decode_def byte_vec_codec_sel)
  then show ?thesis
    using present_dec [OF bytes_mls parts(2)] mls_dec [OF bytes_mls parts(1)] by (auto simp: auth_data_ok_def)
qed

lemma public_message_stream: "stream_codec public_message_codec public_message_ok"
proof (rule stream_codecI)
  fix m bs assume ok: "public_message_ok m" and enc: "c_enc public_message_codec m = Inr bs"
  then obtain c a t where parts: "c_enc framed_content_codec (pm_content m) = Inr c" "auth_data_encode (pm_auth m) = Inr a"
    "present_encode byte_vec_codec (pm_membership_tag m) = Inr t" "bs = c @ a @ t"
    by (auto simp: public_message_codec_def)
  note laws = stream_mls [OF framed_content_stream]
  from ok have ok': "content_ok (fc_content (pm_content m))"
    "auth_data_ok (content_type_of (fc_content (pm_content m))) (pm_auth m)"
    "(pm_membership_tag m \<noteq> None) = is_member (fc_sender (pm_content m))"
    by (simp_all add: public_message_ok_def)
  show "c_len public_message_codec m = length bs"
    using mls_codec.len_law [OF laws _ parts(1)] auth_data_round_trip [OF parts(2) ok'(2)]
      present_round_trip [OF bytes_mls parts(3) ok'(3)] ok'(1) by (simp add: public_message_codec_def parts(4))
  show "c_dec public_message_codec (bs @ rest) = Inr (m, rest)" for rest
    using mls_codec.round_trip [OF laws _ parts(1)] auth_data_round_trip [OF parts(2) ok'(2)]
      present_round_trip [OF bytes_mls parts(3) ok'(3)] ok'(1) by (simp add: public_message_codec_def parts(4))
next
  fix bs m rest assume "c_dec public_message_codec bs = Inr (m, rest)"
  then obtain c r a r' t where parts: "c_dec framed_content_codec bs = Inr (c, r)"
    "auth_data_decode (content_type_of (fc_content c)) r = Inr (a, r')"
    "present_decode byte_vec_codec (is_member (fc_sender c)) r' = Inr (t, rest)"
    "m = \<lparr>pm_content = c, pm_auth = a, pm_membership_tag = t\<rparr>"
    by (auto simp: public_message_codec_def)
  from stream_dec [OF framed_content_stream parts(1)] auth_data_dec [OF parts(2)] present_dec [OF bytes_mls parts(3)]
  show "public_message_ok m \<and> (\<exists>p. bs = p @ rest \<and> p \<noteq> [])"
    by (auto simp: parts(4) public_message_ok_def)
qed

lemma auth_content_stream: "stream_codec auth_content_codec auth_content_ok"
proof (rule stream_codecI)
  fix m bs assume ok: "auth_content_ok m" and enc: "c_enc auth_content_codec m = Inr bs"
  then obtain w c a where parts: "c_enc wire_format_codec (ac_wire_format m) = Inr w"
    "c_enc framed_content_codec (ac_content m) = Inr c" "auth_data_encode (ac_auth m) = Inr a" "bs = w @ c @ a"
    by (auto simp: auth_content_codec_def)
  note laws = stream_mls [OF framed_content_stream] stream_mls [OF wire_format_stream]
  from ok have ok': "content_ok (fc_content (ac_content m))"
    "auth_data_ok (content_type_of (fc_content (ac_content m))) (ac_auth m)"
    by (simp_all add: auth_content_ok_def)
  show "c_len auth_content_codec m = length bs"
    using mls_codec.len_law [OF laws(1) _ parts(2)] mls_codec.len_law [OF laws(2) _ parts(1)]
      auth_data_round_trip [OF parts(3) ok'(2)] ok'(1) by (simp add: auth_content_codec_def parts(4))
  show "c_dec auth_content_codec (bs @ rest) = Inr (m, rest)" for rest
    using mls_codec.round_trip [OF laws(1) _ parts(2)] mls_codec.round_trip [OF laws(2) _ parts(1)]
      auth_data_round_trip [OF parts(3) ok'(2)] ok'(1) by (simp add: auth_content_codec_def parts(4))
next
  fix bs m rest assume "c_dec auth_content_codec bs = Inr (m, rest)"
  then obtain w r c r' a where parts: "c_dec wire_format_codec bs = Inr (w, r)"
    "c_dec framed_content_codec r = Inr (c, r')" "auth_data_decode (content_type_of (fc_content c)) r' = Inr (a, rest)"
    "m = \<lparr>ac_wire_format = w, ac_content = c, ac_auth = a\<rparr>"
    by (auto simp: auth_content_codec_def)
  from stream_dec [OF wire_format_stream parts(1)] stream_dec [OF framed_content_stream parts(2)] auth_data_dec [OF parts(3)]
  show "auth_content_ok m \<and> (\<exists>p. bs = p @ rest \<and> p \<noteq> [])"
    by (auto simp: parts(4) auth_content_ok_def)
qed

lemma inner_content_round_trip:
  assumes "content_ok c" "inner_content_encode c = Inr bs"
  shows "inner_content_decode (content_type_of c) (bs @ rest) = Inr (c, rest) \<and> inner_content_len c = length bs"
  using assms bytesc.round_trip bytesc.len_law mls_codec.round_trip [OF stream_mls [OF proposal_stream]]
    mls_codec.len_law [OF stream_mls [OF proposal_stream]] mls_codec.round_trip [OF stream_mls [OF commit_stream]]
    mls_codec.len_law [OF stream_mls [OF commit_stream]]
  by (cases c) (auto simp: inner_content_decode_def byte_vec_codec_sel)

lemma private_content_round_trip:
  assumes "private_content_encode p = Inr bs" "content_ok (pc_content p)"
    and "auth_data_ok (content_type_of (pc_content p)) (pc_auth p)"
  shows "private_content_decode (bs @ replicate n 0) (content_type_of (pc_content p)) = Inr p"
proof -
  obtain c a where parts: "inner_content_encode (pc_content p) = Inr c" "auth_data_encode (pc_auth p) = Inr a" "bs = c @ a"
    using assms(1) by (auto simp: private_content_encode_def)
  with inner_content_round_trip [OF assms(2) parts(1)] auth_data_round_trip [OF parts(2) assms(3)] show ?thesis
    by (auto simp: private_content_decode_def list_ex_iff)
qed

lemma message_payload_stream: "stream_codec message_payload_codec payload_ok"
  unfolding message_payload_codec_def
  by (rule enum_streamI)
    (auto intro!: variant_of_stream [OF stream_mls [OF public_message_stream]]
      variant_of_stream [OF stream_mls [OF private_message_stream]] variant_of_stream [OF stream_mls [OF welcome_stream]]
      variant_of_stream [OF stream_mls [OF group_info_stream]] variant_of_stream [OF stream_mls [OF key_package_stream]]
      split: message_payload.splits)

lemma mls_message_stream: "stream_codec mls_message_codec (\<lambda>m. payload_ok (msg_payload m))"
  unfolding mls_message_codec_def
  by (rule stream_codec_cong [OF struct_stream])
    (rule stream_intros message_payload_stream | auto split: prod.splits)+

section \<open>Every decoder ends\<close>

lemma returns_extension: "returns extension_codec"
  unfolding extension_codec_def by (intro returns_struct returns_pair returns_stdint returns_byte_vec)

lemma extension_items_returns: "extension_items l data \<noteq> Inl Codec_Diverges"
proof (induction l data rule: extension_items.induct)
  case (1 l data)
  then show ?case
    using returns_extension
    by (subst extension_items.simps)
      (auto simp: bindR_eq_Inl returns_def split: if_splits dest: extensionc.progress)
qed

lemma returns_extension_list: "returns extension_list_codec"
  using extension_items_returns split_returns
  by (auto simp: returns_def extension_list_codec_def mls_decode_collection_def bindR_eq_Inl)

lemma returns_certificates: "returns (vec_codec byte_vec_codec)"
  by (rule returns_vec [OF returns_byte_vec bytesc.stream_codec_axioms])

lemma returns_credential: "returns credential_codec"
  using returns_stdint [where 'a = 16] returns_certificates returns_byte_vec
  by (auto simp: returns_def credential_codec_def byte_vec_codec_sel bindR_eq_Inl)

lemma returns_leaf_index: "returns leaf_index_codec"
  using returns_stdint [where 'a = 32]
  by (auto simp: returns_def leaf_index_codec_def leaf_index_try_from_def bindR_eq_Inl split: if_splits)

lemmas returns_intros = returns_struct returns_pair returns_option returns_stdint returns_byte_vec returns_unit
  returns_enum returns_variant_of returns_extension_list returns_credential returns_leaf_index

lemma returns_vec_u16: "returns (vec_codec u16_codec)"
  by (rule returns_vec [OF returns_stdint u16c.stream_codec_axioms])

lemma returns_leaf_node: "returns leaf_node_codec"
  unfolding leaf_node_codec_def signing_identity_codec_def capabilities_codec_def leaf_node_source_codec_def lifetime_codec_def
  by (intro returns_intros returns_vec_u16) (simp add: returns_intros)

lemma returns_group_context: "returns group_context_codec"
  unfolding group_context_codec_def by (intro returns_intros)

lemma returns_key_package: "returns key_package_codec"
  unfolding key_package_codec_def by (intro returns_intros returns_leaf_node)

lemma returns_psk_id: "returns psk_id_codec"
  unfolding psk_id_codec_def just_psk_id_codec_def resumption_psk_codec_def resumption_psk_usage_codec_def
  by (intro returns_intros) (simp add: returns_intros)

lemma returns_re_init: "returns re_init_codec"
  unfolding re_init_codec_def by (intro returns_intros)

lemma returns_proposal: "returns proposal_codec"
  using returns_stdint [where 'a = 16] returns_key_package returns_leaf_node returns_leaf_index returns_psk_id
    returns_re_init returns_byte_vec returns_extension_list
  by (auto simp: returns_def proposal_codec_def proposal_decode_def byte_vec_codec_sel bindR_eq_Inl)

lemma returns_hpke_ciphertext: "returns hpke_ciphertext_codec"
  unfolding hpke_ciphertext_codec_def by (intro returns_intros)

lemma returns_update_path: "returns update_path_codec"
  unfolding update_path_codec_def
  by (intro returns_intros returns_leaf_node returns_vec [OF _ update_path_node_stream])
    (unfold update_path_node_codec_def, intro returns_intros returns_vec [OF returns_hpke_ciphertext hpke_ciphertext_stream])

lemma returns_commit: "returns commit_codec"
  unfolding commit_codec_def
  by (intro returns_intros returns_update_path returns_vec [OF _ proposal_or_ref_stream])
    (simp add: proposal_or_ref_codec_def returns_intros returns_proposal)

lemma returns_framed_content: "returns framed_content_codec"
  unfolding framed_content_codec_def sender_codec_def content_codec_def
  by (intro returns_intros) (simp_all add: returns_intros returns_proposal returns_commit)

lemma present_decode_returns: "returns c \<Longrightarrow> present_decode c b bs \<noteq> Inl Codec_Diverges"
  by (auto simp: returns_def present_decode_def bindR_eq_Inl)

lemma auth_data_decode_returns: "auth_data_decode t bs \<noteq> Inl Codec_Diverges"
  using returns_byte_vec present_decode_returns [OF returns_byte_vec]
  by (auto simp: auth_data_decode_def byte_vec_codec_sel returns_def bindR_eq_Inl)

lemma returns_public_message: "returns public_message_codec"
  using returns_framed_content auth_data_decode_returns present_decode_returns [OF returns_byte_vec]
  by (auto simp: returns_def public_message_codec_def bindR_eq_Inl)

lemma returns_welcome: "returns welcome_codec"
  unfolding welcome_codec_def
  by (intro returns_intros returns_vec [OF _ encrypted_group_secrets_stream])
    (simp add: encrypted_group_secrets_codec_def returns_intros returns_hpke_ciphertext)

lemma returns_message_payload: "returns message_payload_codec"
  unfolding message_payload_codec_def
  by (rule returns_enum)
    (simp add: returns_intros returns_public_message returns_key_package returns_group_context
      returns_welcome private_message_codec_def content_type_codec_def group_info_codec_def)

section \<open>Properties\<close>

text \<open>
  C17. A protocol message is read back from the bytes it is sent as, and these are as long as announced; whatever bytes are
  received, a message that is accepted satisfies the invariants of its parts: extension types and leaf indices are valid, a
  confirmation tag is there exactly for commits and a membership tag exactly for members.
\<close>
theorem mls_message_wire_format:
  "(payload_ok (msg_payload m) \<longrightarrow> mls_message_to_bytes m = Inr bs \<longrightarrow>
      mls_message_from_bytes bs = Inr m \<and> c_len mls_message_codec m = length bs) \<and>
   (mls_message_from_bytes received = Inr m' \<longrightarrow> payload_ok (msg_payload m'))"
proof -
  note mls = stream_mls [OF mls_message_stream]
  have "mls_message_from_bytes bs = Inr m \<and> c_len mls_message_codec m = length bs"
    if "payload_ok (msg_payload m)" "mls_message_to_bytes m = Inr bs"
  proof -
    from that(2) have "c_enc mls_message_codec m = Inr bs" by (simp add: mls_message_to_bytes_def)
    then show ?thesis
      using mls_codec.round_trip [OF mls that(1), of bs "[]"] mls_codec.len_law [OF mls that(1)]
      by (simp add: mls_message_from_bytes_def)
  qed
  moreover have "payload_ok (msg_payload m')" if "mls_message_from_bytes received = Inr m'"
    using that mls_codec.dec_ok [OF mls] by (auto simp: mls_message_from_bytes_def)
  ultimately show ?thesis by blast
qed

definition sample_private_message :: private_message where
  "sample_private_message = \<lparr>prm_group_id = [1], prm_epoch = 2, prm_content_type = Ct_Commit, prm_authenticated_data = [],
     prm_encrypted_sender_data = [3], prm_ciphertext = [4, 5]\<rparr>"

lemma payload_cipher_encode:
  "c_enc message_payload_codec (Pl_Cipher m) =
     bindR (c_enc u16_codec 2) (\<lambda>bs. bindR (c_enc private_message_codec m) (\<lambda>bs'. Inr (bs @ bs')))"
  by (simp add: message_payload_codec_def enum_codec_def variant_of_def)

theorem mls_message_wire_format_witness:
  "mls_message_from_bytes [0, 1, 0, 2, 1, 1, 0, 0, 0, 0, 0, 0, 0, 2, 3, 0, 1, 3, 2, 4, 5] =
     Inr \<lparr>msg_version = 1, msg_payload = Pl_Cipher sample_private_message\<rparr>"
proof -
  have "c_enc private_message_codec sample_private_message = Inr [1, 1, 0, 0, 0, 0, 0, 0, 0, 2, 3, 0, 1, 3, 2, 4, 5]"
    "c_enc u16_codec 1 = Inr [0, 1]" "c_enc u16_codec 2 = Inr [0, 2]"
    by code_simp+
  then have "mls_message_to_bytes \<lparr>msg_version = 1, msg_payload = Pl_Cipher sample_private_message\<rparr> =
      Inr [0, 1, 0, 2, 1, 1, 0, 0, 0, 0, 0, 0, 0, 2, 3, 0, 1, 3, 2, 4, 5]"
    by (simp add: mls_message_to_bytes_def mls_message_codec_def struct_codec_def pair_codec_def payload_cipher_encode)
  from mls_message_wire_format [THEN conjunct1, rule_format, OF _ this] show ?thesis by simp
qed

text \<open>C18. Reading a message ends on every byte string: no input makes the loops of the decoder run forever.\<close>
theorem mls_message_decoding_ends: "mls_message_from_bytes received \<noteq> Inl (SerializationError Codec_Diverges)"
proof -
  have "returns mls_message_codec"
    unfolding mls_message_codec_def by (intro returns_intros returns_message_payload)
  then show ?thesis
    by (cases "c_dec mls_message_codec received") (auto simp: mls_message_from_bytes_def returns_def)
qed

end
