(* ===== verification/MessageAuth.thy ===== *)
theory MessageAuth
  imports FramingLaws
begin

text \<open>
  How a message is authenticated: the signature over the framed content (\<^verbatim>\<open>group/message_signature.rs\<close>), the membership
  tag of a public message, the confirmation tag of a commit and the transcript hashes they confirm, the signature of a
  group info, and the checks of a received public message (\<^verbatim>\<open>group/message_verifier.rs\<close>).
\<close>

section \<open>Signatures\<close>

record content_tbs =
  tbs_protocol_version :: protocol_version
  tbs_wire_format :: wire_format
  tbs_content :: framed_content
  tbs_context :: "group_context option"

definition tbs_encode :: "content_tbs \<Rightarrow> codec_error + byte list" where
  "tbs_encode t =
     bindR (c_enc u16_codec (tbs_protocol_version t)) (\<lambda>v.
     bindR (c_enc wire_format_codec (tbs_wire_format t)) (\<lambda>w.
     bindR (c_enc framed_content_codec (tbs_content t)) (\<lambda>c.
     bindR (present_encode group_context_codec (tbs_context t)) (\<lambda>g. Inr (v @ w @ c @ g)))))"

fun signs_context :: "sender \<Rightarrow> bool" where
  "signs_context (Sender_Member _) = True"
| "signs_context Sender_NewMemberCommit = True"
| "signs_context (Sender_External _) = False"
| "signs_context Sender_NewMemberProposal = False"

definition tbs_from :: "authenticated_content \<Rightarrow> group_context option \<Rightarrow> protocol_version \<Rightarrow> content_tbs" where
  "tbs_from a context version =
     \<lparr>tbs_protocol_version = version, tbs_wire_format = ac_wire_format a, tbs_content = ac_content a,
      tbs_context = (if signs_context (fc_sender (ac_content a)) then context else None)\<rparr>"

definition sign_bytes :: "string \<Rightarrow> codec_error + byte list \<Rightarrow> byte list res" where
  "sign_bytes label content =
     bindR (codecR content) (\<lambda>content. codecR (c_enc sign_content_codec (sign_content_new label content)))"

definition auth_content_signed_bytes ::
    "authenticated_content \<Rightarrow> group_context option \<Rightarrow> protocol_version \<Rightarrow> byte list res" where
  "auth_content_signed_bytes a context version = sign_bytes ''FramedContentTBS'' (tbs_encode (tbs_from a context version))"

definition set_signature :: "byte list \<Rightarrow> authenticated_content \<Rightarrow> authenticated_content" where
  "set_signature sig a = a\<lparr>ac_auth := (ac_auth a)\<lparr>ad_signature := sig\<rparr>\<rparr>"

definition auth_content_sign ::
    "cipher_suite_provider \<Rightarrow> authenticated_content \<Rightarrow> signature_secret_key \<Rightarrow> group_context option \<Rightarrow> protocol_version \<Rightarrow>
     authenticated_content res" where
  "auth_content_sign csp a signer context version =
     bindR (auth_content_signed_bytes a context version) (\<lambda>bytes.
     bindR (crypto (csp_sign csp signer bytes)) (\<lambda>sig. Inr (set_signature sig a)))"

definition auth_content_verify ::
    "cipher_suite_provider \<Rightarrow> authenticated_content \<Rightarrow> signature_public_key \<Rightarrow> group_context option \<Rightarrow> protocol_version \<Rightarrow>
     unit res" where
  "auth_content_verify csp a public_key context version =
     bindR (auth_content_signed_bytes a context version) (\<lambda>bytes.
       map_errR (\<lambda>_. InvalidSignature) (csp_verify csp public_key (ad_signature (ac_auth a)) bytes))"

definition auth_content_new_signed ::
    "cipher_suite_provider \<Rightarrow> group_context \<Rightarrow> sender \<Rightarrow> content \<Rightarrow> signature_secret_key \<Rightarrow> wire_format \<Rightarrow> byte list \<Rightarrow>
     authenticated_content res" where
  "auth_content_new_signed csp context s c signer w authenticated_data =
     auth_content_sign csp (auth_content_new context s c authenticated_data w) signer (Some context)
       (gc_protocol_version context)"

definition group_info_signed_bytes :: "group_info \<Rightarrow> byte list res" where
  "group_info_signed_bytes g = sign_bytes ''GroupInfoTBS''
     (c_enc (pair_codec group_context_codec (pair_codec extension_list_codec (pair_codec byte_vec_codec leaf_index_codec)))
       (gi_group_context g, gi_extensions g, gi_confirmation_tag g, gi_signer g))"

definition group_info_sign :: "cipher_suite_provider \<Rightarrow> group_info \<Rightarrow> signature_secret_key \<Rightarrow> group_info res" where
  "group_info_sign csp g signer =
     bindR (group_info_signed_bytes g) (\<lambda>bytes.
     bindR (crypto (csp_sign csp signer bytes)) (\<lambda>sig. Inr (g\<lparr>gi_signature := sig\<rparr>)))"

definition group_info_verify :: "cipher_suite_provider \<Rightarrow> group_info \<Rightarrow> signature_public_key \<Rightarrow> unit res" where
  "group_info_verify csp g public_key =
     bindR (group_info_signed_bytes g) (\<lambda>bytes.
       map_errR (\<lambda>_. InvalidSignature) (csp_verify csp public_key (gi_signature g) bytes))"

section \<open>Tags and transcript hashes\<close>

definition membership_tag_create ::
    "authenticated_content \<Rightarrow> group_context \<Rightarrow> byte list \<Rightarrow> cipher_suite_provider \<Rightarrow> byte list res" where
  "membership_tag_create a context key csp =
     bindR (codecR (bindR (tbs_encode (tbs_from a (Some context) (gc_protocol_version context))) (\<lambda>t.
              bindR (auth_data_encode (ac_auth a)) (\<lambda>d. Inr (t @ d))))) (\<lambda>tbm.
       crypto (csp_mac csp key tbm))"

definition get_membership_tag ::
    "key_schedule \<Rightarrow> authenticated_content \<Rightarrow> group_context \<Rightarrow> cipher_suite_provider \<Rightarrow> byte list res" where
  "get_membership_tag ks a context csp = membership_tag_create a context (membership_key ks) csp"

definition confirmation_tag_create :: "byte list \<Rightarrow> byte list \<Rightarrow> cipher_suite_provider \<Rightarrow> byte list res" where
  "confirmation_tag_create confirmation_key confirmed_transcript_hash csp =
     crypto (csp_mac csp confirmation_key confirmed_transcript_hash)"

definition confirmation_tag_matches :: "byte list \<Rightarrow> byte list \<Rightarrow> byte list \<Rightarrow> cipher_suite_provider \<Rightarrow> bool res" where
  "confirmation_tag_matches self confirmation_key confirmed_transcript_hash csp =
     bindR (confirmation_tag_create confirmation_key confirmed_transcript_hash csp) (\<lambda>tag. Inr (tag = self))"

definition confirmed_transcript_hash_create ::
    "cipher_suite_provider \<Rightarrow> byte list \<Rightarrow> authenticated_content \<Rightarrow> byte list res" where
  "confirmed_transcript_hash_create csp interim_transcript_hash a =
     bindR (codecR (c_enc (pair_codec wire_format_codec (pair_codec framed_content_codec byte_vec_codec))
         (ac_wire_format a, ac_content a, ad_signature (ac_auth a)))) (\<lambda>input.
       crypto (csp_hash csp (interim_transcript_hash @ input)))"

definition interim_transcript_hash_create ::
    "cipher_suite_provider \<Rightarrow> byte list \<Rightarrow> byte list \<Rightarrow> byte list res" where
  "interim_transcript_hash_create csp confirmed confirmation_tag =
     bindR (codecR (c_enc byte_vec_codec confirmation_tag)) (\<lambda>input. crypto (csp_hash csp (confirmed @ input)))"

section \<open>Public messages\<close>

definition create_plaintext ::
    "key_schedule \<Rightarrow> group_context \<Rightarrow> cipher_suite_provider \<Rightarrow> authenticated_content \<Rightarrow> public_message res" where
  "create_plaintext ks context csp a =
     bindR (if is_member (fc_sender (ac_content a))
            then bindR (get_membership_tag ks a context csp) (\<lambda>tag. Inr (Some tag)) else Inr None) (\<lambda>tag.
       Inr \<lparr>pm_content = ac_content a, pm_auth = ac_auth a, pm_membership_tag = tag\<rparr>)"

datatype signature_keys = Keys_RatchetTree node_vec | Keys_List "signature_public_key option list"

definition signing_identity_for_member :: "signature_keys \<Rightarrow> leaf_index \<Rightarrow> signature_public_key res" where
  "signing_identity_for_member keys i =
     (case keys of
        Keys_RatchetTree nodes \<Rightarrow> bindR (borrow_as_leaf nodes i) (\<lambda>l. Inr (signature_key (ln_signing_identity l)))
      | Keys_List ks \<Rightarrow>
          (if unat i < length ks
           then case ks ! unat i of Some k \<Rightarrow> Inr k | None \<Rightarrow> Inl (Message_Error (LeafNotFound i))
           else Inl (Message_Error (LeafNotFound i))))"

definition signing_identity_for_external :: "u32 \<Rightarrow> signing_identity list \<Rightarrow> signature_public_key res" where
  "signing_identity_for_external i external_signers =
     (if unat i < length external_signers then Inr (signature_key (external_signers ! unat i))
      else Inl (Message_Error UnknownSigningIdentityForExternalSender))"

fun signing_identity_for_new_member_commit :: "content \<Rightarrow> signature_public_key res" where
  "signing_identity_for_new_member_commit (Content_Commit c) =
     (case cm_path c of
        Some p \<Rightarrow> Inr (signature_key (ln_signing_identity (up_leaf_node p)))
      | None \<Rightarrow> Inl (Message_Error CommitMissingPath))"
| "signing_identity_for_new_member_commit _ = Inl (Message_Error ExpectedCommitForNewMemberCommit)"

fun signing_identity_for_new_member_proposal :: "content \<Rightarrow> signature_public_key res" where
  "signing_identity_for_new_member_proposal (Content_Proposal (Prop_Add kp)) =
     Inr (signature_key (ln_signing_identity (kp_leaf_node kp)))"
| "signing_identity_for_new_member_proposal _ = Inl (Message_Error ExpectedAddProposalForNewMemberProposal)"

definition signing_identity_for_sender ::
    "signature_keys \<Rightarrow> sender \<Rightarrow> content \<Rightarrow> signing_identity list \<Rightarrow> signature_public_key res" where
  "signing_identity_for_sender keys s c external_signers =
     (case s of
        Sender_Member i \<Rightarrow> bindR (leaf_index_try_from i) (signing_identity_for_member keys)
      | Sender_External i \<Rightarrow> signing_identity_for_external i external_signers
      | Sender_NewMemberCommit \<Rightarrow> signing_identity_for_new_member_commit c
      | Sender_NewMemberProposal \<Rightarrow> signing_identity_for_new_member_proposal c)"

definition EXTERNAL_SENDERS :: extension_type where
  "EXTERNAL_SENDERS = 5"

definition external_senders_codec :: "signing_identity list codec" where
  "external_senders_codec = vec_codec signing_identity_codec"

definition external_signers :: "group_context \<Rightarrow> signing_identity list" where
  "external_signers context =
     (case ext_get_as EXTERNAL_SENDERS external_senders_codec (gc_extensions context) of
        Inr (Some allowed_senders) \<Rightarrow> allowed_senders
      | _ \<Rightarrow> [])"

definition verify_auth_content_signature ::
    "cipher_suite_provider \<Rightarrow> signature_keys \<Rightarrow> group_context \<Rightarrow> authenticated_content \<Rightarrow> signing_identity list \<Rightarrow> unit res" where
  "verify_auth_content_signature csp keys context a signers =
     bindR (signing_identity_for_sender keys (fc_sender (ac_content a)) (fc_content (ac_content a)) signers) (\<lambda>key.
       auth_content_verify csp a key (Some context) (gc_protocol_version context))"

definition verify_plaintext_authentication ::
    "cipher_suite_provider \<Rightarrow> public_message \<Rightarrow> byte list option \<Rightarrow> group_context \<Rightarrow> signature_keys \<Rightarrow>
     authenticated_content res" where
  "verify_plaintext_authentication csp plaintext tag_key context keys =
     (let tag = pm_membership_tag plaintext; a = auth_content_from plaintext
      in bindR (if is_member (fc_sender (ac_content a)) then
                  (case tag_key of
                     None \<Rightarrow> Inr ()
                   | Some key \<Rightarrow>
                       bindR (membership_tag_create a context key csp) (\<lambda>expected_tag.
                       bindR (ok_or tag (Message_Error InvalidMembershipTag)) (\<lambda>plaintext_tag.
                         guardR (expected_tag = plaintext_tag) (Message_Error InvalidMembershipTag))))
                else guardR (tag = None) (Message_Error MembershipTagForNonMember)) (\<lambda>_.
         bindR (verify_auth_content_signature csp keys context a (external_signers context)) (\<lambda>_. Inr a)))"

section \<open>Properties\<close>

lemma signed_bytes_iff:
  "sign_bytes label content = Inr bytes \<longleftrightarrow>
     (\<exists>data. content = Inr data \<and> c_enc sign_content_codec (sign_content_new label data) = Inr bytes)"
  by (cases content) (auto simp: sign_bytes_def)

lemma sign_content_mls: "mls_codec sign_content_codec (\<lambda>_. True)"
proof -
  have "mls_codec sign_content_codec (\<lambda>(x, y). True \<and> True)"
    unfolding sign_content_codec_def by (rule pair_mls [OF bytes_mls bytes_mls])
  then show ?thesis by (simp add: case_prod_beta')
qed

lemma sign_bytes_inject:
  assumes "sign_bytes label content = Inr bytes" "sign_bytes label content' = Inr bytes"
  shows "\<exists>data. content = Inr data \<and> content' = Inr data"
  using assms mls_codec.enc_inject [OF sign_content_mls] by (fastforce simp: signed_bytes_iff sign_content_new_def)

lemma tbs_encode_inject:
  assumes enc: "tbs_encode t = Inr bytes" "tbs_encode t' = Inr bytes"
    and ok: "content_ok (fc_content (tbs_content t))" "content_ok (fc_content (tbs_content t'))"
    and ctx: "pred_option (\<lambda>g. extension_list_ok (gc_extensions g)) (tbs_context t)"
      "pred_option (\<lambda>g. extension_list_ok (gc_extensions g)) (tbs_context t')"
    and present: "(tbs_context t \<noteq> None) = signs_context (fc_sender (tbs_content t))"
      "(tbs_context t' \<noteq> None) = signs_context (fc_sender (tbs_content t'))"
  shows "t = t'"
proof -
  obtain v w c g where p: "c_enc u16_codec (tbs_protocol_version t) = Inr v" "c_enc wire_format_codec (tbs_wire_format t) = Inr w"
    "c_enc framed_content_codec (tbs_content t) = Inr c" "present_encode group_context_codec (tbs_context t) = Inr g"
    "bytes = v @ w @ c @ g"
    using enc(1) by (auto simp: tbs_encode_def)
  obtain v' w' c' g' where p': "c_enc u16_codec (tbs_protocol_version t') = Inr v'" "c_enc wire_format_codec (tbs_wire_format t') = Inr w'"
    "c_enc framed_content_codec (tbs_content t') = Inr c'" "present_encode group_context_codec (tbs_context t') = Inr g'"
    "bytes = v' @ w' @ c' @ g'"
    using enc(2) by (auto simp: tbs_encode_def)
  have v: "tbs_protocol_version t = tbs_protocol_version t' \<and> w @ c @ g = w' @ c' @ g'"
    using u16c.prefix_free [OF _ _ p(1) p'(1), of "w @ c @ g" "w' @ c' @ g'"] p(5) p'(5) by argo
  then have w: "tbs_wire_format t = tbs_wire_format t' \<and> c @ g = c' @ g'"
    using mls_codec.prefix_free [OF stream_mls [OF wire_format_stream] _ _ p(2) p'(2), of "c @ g" "c' @ g'"] by argo
  then have c: "tbs_content t = tbs_content t' \<and> g = g'"
    using mls_codec.prefix_free [OF stream_mls [OF framed_content_stream] ok p(3) p'(3), of g g'] by argo
  have "tbs_context t = tbs_context t'"
    using c present ctx p(4) p'(4) group_contextc.enc_inject
    by (cases "tbs_context t"; cases "tbs_context t'") (auto simp: present_encode_def)
  with v w c show ?thesis by simp
qed

text \<open>
  C13. A signature binds what it signs: if the bytes to be signed for two contents are the same, then protocol version, wire
  format and framed content (group, epoch, sender, authenticated data, content) are the same, and so is the whole group
  context for members and external joiners.
\<close>
theorem signed_bytes_bind_content:
  assumes "auth_content_signed_bytes a (Some context) version = Inr bytes"
    and "auth_content_signed_bytes a' (Some context') version' = Inr bytes"
    and "content_ok (fc_content (ac_content a))" "content_ok (fc_content (ac_content a'))"
    and "extension_list_ok (gc_extensions context)" "extension_list_ok (gc_extensions context')"
  shows "version = version' \<and> ac_wire_format a = ac_wire_format a' \<and> ac_content a = ac_content a' \<and>
    (signs_context (fc_sender (ac_content a)) \<longrightarrow> context = context')"
proof -
  obtain data where "tbs_encode (tbs_from a (Some context) version) = Inr data"
    "tbs_encode (tbs_from a' (Some context') version') = Inr data"
    using sign_bytes_inject [OF assms(1,2) [unfolded auth_content_signed_bytes_def]] by blast
  then have "tbs_from a (Some context) version = tbs_from a' (Some context') version'"
    by (rule tbs_encode_inject) (use assms(3-6) in \<open>auto simp: tbs_from_def\<close>)
  then show ?thesis by (auto simp: tbs_from_def)
qed

definition sample_auth_content :: authenticated_content where
  "sample_auth_content = auth_content_new sample_context (Sender_Member 0) (Content_Application [1]) [] Wf_PublicMessage"

lemma content_application_encode:
  "c_enc content_codec (Content_Application d) =
     bindR (c_enc u8_codec 1) (\<lambda>bs. bindR (c_enc byte_vec_codec d) (\<lambda>bs'. Inr (bs @ bs')))"
  by (simp add: content_codec_def enum_codec_def variant_of_def)

lemma sample_signed_bytes: "\<exists>bytes. auth_content_signed_bytes sample_auth_content (Some sample_context) 1 = Inr bytes"
proof -
  have parts: "c_enc u16_codec 1 = Inr [0, 1]" "c_enc wire_format_codec Wf_PublicMessage = Inr [0, 1]"
    "c_enc group_context_codec sample_context = Inr [0, 1, 0, 1, 1, 1, 0, 0, 0, 0, 0, 0, 0, 0, 1, 2, 0, 0]"
    "c_enc byte_vec_codec [1] = Inr [1, 1]" "c_enc u64_codec 0 = Inr [0, 0, 0, 0, 0, 0, 0, 0]"
    "c_enc sender_codec (Sender_Member 0) = Inr [1, 0, 0, 0, 0]" "c_enc byte_vec_codec [] = Inr [0]" "c_enc u8_codec 1 = Inr [1]"
    by code_simp+
  have "c_enc framed_content_codec (ac_content sample_auth_content) = Inr [1, 1, 0, 0, 0, 0, 0, 0, 0, 0, 1, 0, 0, 0, 0, 0, 1, 1, 1]"
    by (simp add: framed_content_codec_def struct_codec_def pair_codec_def sample_auth_content_def auth_content_new_def
        sample_context_def group_context_new_def content_application_encode parts)
  then have "\<exists>data. tbs_encode (tbs_from sample_auth_content (Some sample_context) 1) = Inr data \<and> length data < 64"
    by (simp add: tbs_encode_def tbs_from_def present_encode_def parts sample_auth_content_def auth_content_new_def)
  then obtain data where data: "tbs_encode (tbs_from sample_auth_content (Some sample_context) 1) = Inr data" "length data < 64"
    by blast
  have "\<exists>out. byte_vec_encode (bytes_of ''MLS 1.0 '' @ bytes_of ''FramedContentTBS'') = Inr out" "\<exists>out. byte_vec_encode data = Inr out"
    using data(2) by (intro byte_vec_encode_small; simp add: bytes_of_def)+
  then show ?thesis
    using data(1) by (auto simp: auth_content_signed_bytes_def sign_bytes_def sign_content_codec_def sign_content_new_def
        pair_codec_def byte_vec_codec_sel)
qed

theorem signed_bytes_bind_content_witness:
  "ac_wire_format sample_auth_content = ac_wire_format (set_signature [9] sample_auth_content)"
proof -
  have "auth_content_signed_bytes (set_signature [9] sample_auth_content) (Some sample_context) 1 =
      auth_content_signed_bytes sample_auth_content (Some sample_context) 1"
    by (simp add: auth_content_signed_bytes_def tbs_from_def set_signature_def)
  moreover obtain bytes where "auth_content_signed_bytes sample_auth_content (Some sample_context) 1 = Inr bytes"
    using sample_signed_bytes by blast
  ultimately show ?thesis
    using signed_bytes_bind_content [of sample_auth_content sample_context 1 bytes "set_signature [9] sample_auth_content" sample_context 1]
    by (simp add: sample_auth_content_def auth_content_new_def set_signature_def sample_context_def group_context_new_def
        extension_list_ok_def)
qed

text \<open>A key pair of the signature scheme: what the secret key signs verifies under the public key.\<close>

definition signs_for :: "cipher_suite_provider \<Rightarrow> signature_secret_key \<Rightarrow> signature_public_key \<Rightarrow> bool" where
  "signs_for csp sk pk \<longleftrightarrow> (\<forall>bytes sig. csp_sign csp sk bytes = Inr sig \<longrightarrow> csp_verify csp pk sig bytes = Inr ())"

lemma signed_verifies:
  assumes "signs_for csp sk pk" "auth_content_sign csp a sk context version = Inr a'"
  shows "\<exists>sig. a' = set_signature sig a \<and> (\<forall>tag. auth_content_verify csp (a'\<lparr>ac_auth := (ac_auth a')\<lparr>ad_confirmation_tag := tag\<rparr>\<rparr>) pk context version = Inr ())"
proof -
  obtain bytes sig where b: "auth_content_signed_bytes a context version = Inr bytes" "csp_sign csp sk bytes = Inr sig"
    "a' = set_signature sig a"
    using assms(2) by (auto simp: auth_content_sign_def)
  then have "csp_verify csp pk sig bytes = Inr ()" using assms(1) by (simp add: signs_for_def)
  moreover have "auth_content_signed_bytes (a'\<lparr>ac_auth := (ac_auth a')\<lparr>ad_confirmation_tag := tag\<rparr>\<rparr>) context version = Inr bytes" for tag
    using b by (simp add: auth_content_signed_bytes_def tbs_from_def set_signature_def)
  ultimately show ?thesis using b(3) by (auto simp: auth_content_verify_def set_signature_def)
qed

text \<open>
  C11. A public message is accepted by the members it is sent to: what a member signs, completes with a confirmation tag if it
  is a commit, and frames as a public message passes the verification of every member that holds the same membership key and
  group context and whose tree has the sender's signature key at the sender's leaf, and is delivered unchanged.
\<close>
theorem member_message_accepted:
  assumes "signs_for csp sk pk"
    and "auth_content_new_signed csp context (Sender_Member i) c sk Wf_PublicMessage authenticated_data = Inr a"
    and "a' = a\<lparr>ac_auth := (ac_auth a)\<lparr>ad_confirmation_tag := tag\<rparr>\<rparr>" "create_plaintext ks context csp a' = Inr m"
    and "i \<le> MAX_LEAF_INDEX" "borrow_as_leaf nodes i = Inr l" "signature_key (ln_signing_identity l) = pk"
  shows "verify_plaintext_authentication csp m (Some (membership_key ks)) context (Keys_RatchetTree nodes) = Inr a'"
proof -
  obtain sig where sig: "a = set_signature sig (auth_content_new context (Sender_Member i) c authenticated_data Wf_PublicMessage)"
    and verify: "auth_content_verify csp a' pk (Some context) (gc_protocol_version context) = Inr ()"
    using signed_verifies [OF assms(1) assms(2) [unfolded auth_content_new_signed_def]] assms(3) by blast
  have sender: "fc_sender (ac_content a') = Sender_Member i" and wf: "ac_wire_format a' = Wf_PublicMessage"
    by (simp_all add: assms(3) sig set_signature_def auth_content_new_def)
  obtain t where t: "membership_tag_create a' context (membership_key ks) csp = Inr t"
    and m: "m = \<lparr>pm_content = ac_content a', pm_auth = ac_auth a', pm_membership_tag = Some t\<rparr>"
    using assms(4) by (auto simp: create_plaintext_def sender is_member_def get_membership_tag_def)
  have "auth_content_from m = a'" using wf by (cases a') (simp add: m auth_content_from_def)
  then show ?thesis
    using t verify assms(5-7) sender
    by (simp add: verify_plaintext_authentication_def Let_def m is_member_def ok_or_def guardR_def
        verify_auth_content_signature_def signing_identity_for_sender_def leaf_index_try_from_def
        signing_identity_for_member_def not_less)
qed

definition sample_signed :: authenticated_content where
  "sample_signed = set_signature [1] sample_auth_content"

lemma sample_signed_by: "auth_content_new_signed sample_csp sample_context (Sender_Member 0) (Content_Application [1]) [1]
    Wf_PublicMessage [] = Inr sample_signed"
proof -
  have "gc_protocol_version sample_context = 1" by (simp add: sample_context_def group_context_new_def)
  with sample_signed_bytes show ?thesis
    by (auto simp: auth_content_new_signed_def auth_content_sign_def sample_signed_def sample_csp_def
        simp flip: sample_auth_content_def)
qed

lemma sample_tag: "\<exists>t. membership_tag_create sample_signed sample_context key sample_csp = Inr t"
proof -
  have "gc_protocol_version sample_context = 1" by (simp add: sample_context_def group_context_new_def)
  moreover have "tbs_from sample_signed = tbs_from sample_auth_content"
    by (simp add: sample_signed_def set_signature_def tbs_from_def fun_eq_iff)
  moreover have "auth_data_encode (ac_auth sample_signed) = Inr [1, 1]"
    unfolding sample_signed_def sample_auth_content_def by code_simp
  ultimately show ?thesis
    using sample_signed_bytes
    by (auto simp: membership_tag_create_def auth_content_signed_bytes_def signed_bytes_iff sample_csp_def)
qed

lemma sample_signs_for: "signs_for sample_csp sk sk"
  by (simp add: signs_for_def sample_csp_def)

lemma sample_tree_leaf: "borrow_as_leaf (sample_tree 1 2) 0 = Inr (sample_leaf 1)"
  by code_simp

theorem member_message_accepted_witness:
  "\<exists>m. create_plaintext (key_schedule_new []) sample_context sample_csp sample_signed = Inr m \<and>
     verify_plaintext_authentication sample_csp m (Some []) sample_context (Keys_RatchetTree (sample_tree 1 2)) = Inr sample_signed"
proof -
  have key: "membership_key (key_schedule_new []) = []" by (simp add: key_schedule_new_def)
  obtain t where "membership_tag_create sample_signed sample_context [] sample_csp = Inr t" using sample_tag by blast
  then have "\<not> isl (create_plaintext (key_schedule_new []) sample_context sample_csp sample_signed)"
    by (simp add: create_plaintext_def get_membership_tag_def key)
  then obtain m where m: "create_plaintext (key_schedule_new []) sample_context sample_csp sample_signed = Inr m"
    by (auto simp: isl_def) (meson sum.exhaust)
  have "sample_signed = sample_signed\<lparr>ac_auth := (ac_auth sample_signed)\<lparr>ad_confirmation_tag := None\<rparr>\<rparr>"
    by (simp add: sample_signed_def set_signature_def sample_auth_content_def auth_content_new_def)
  from member_message_accepted [OF sample_signs_for sample_signed_by this m _ sample_tree_leaf] m
  show ?thesis by (auto simp: sample_leaf_def MAX_LEAF_INDEX_def key)
qed

text \<open>
  C12. What an accepted message of a member proves: its membership tag is the code of the membership key over the message, and
  its signature verifies under the key at the leaf of the sender; a message that is not from a member carries no tag.
\<close>
theorem accepted_message_authentic:
  assumes "verify_plaintext_authentication csp m (Some key) context (Keys_RatchetTree nodes) = Inr a"
  shows "a = auth_content_from m \<and>
    (case fc_sender (pm_content m) of
       Sender_Member i \<Rightarrow> \<exists>tag l. pm_membership_tag m = Some tag \<and> membership_tag_create a context key csp = Inr tag \<and>
         i \<le> MAX_LEAF_INDEX \<and> borrow_as_leaf nodes i = Inr l \<and>
         auth_content_verify csp a (signature_key (ln_signing_identity l)) (Some context) (gc_protocol_version context) = Inr ()
     | _ \<Rightarrow> pm_membership_tag m = None)"
proof -
  have a: "a = auth_content_from m" using assms by (simp add: verify_plaintext_authentication_def Let_def)
  then have s: "fc_sender (ac_content a) = fc_sender (pm_content m)" by (simp add: auth_content_from_def)
  show ?thesis
  proof (cases "fc_sender (pm_content m)")
    case (Sender_Member i)
    then show ?thesis
      using assms a s
      by (auto simp: verify_plaintext_authentication_def Let_def is_member_def ok_or_def guardR_def
          verify_auth_content_signature_def signing_identity_for_sender_def leaf_index_try_from_def
          signing_identity_for_member_def not_less split: if_splits option.splits)
  qed (use assms a s in \<open>auto simp: verify_plaintext_authentication_def Let_def is_member_def guardR_def split: if_splits\<close>)
qed

theorem accepted_message_authentic_witness:
  "\<exists>m tag. verify_plaintext_authentication sample_csp m (Some []) sample_context (Keys_RatchetTree (sample_tree 1 2)) =
      Inr sample_signed \<and> pm_membership_tag m = Some tag \<and>
      membership_tag_create sample_signed sample_context [] sample_csp = Inr tag"
proof -
  obtain t where t: "membership_tag_create sample_signed sample_context [] sample_csp = Inr t" using sample_tag by blast
  let ?m = "\<lparr>pm_content = ac_content sample_signed, pm_auth = ac_auth sample_signed, pm_membership_tag = Some t\<rparr>"
  have s: "fc_sender (ac_content sample_signed) = Sender_Member 0"
    by (simp add: sample_signed_def set_signature_def sample_auth_content_def auth_content_new_def)
  have "auth_content_verify sample_csp sample_signed [1] (Some sample_context) (gc_protocol_version sample_context) = Inr ()"
    using sample_signed_bytes
    by (auto simp: auth_content_verify_def sample_signed_def set_signature_def auth_content_signed_bytes_def tbs_from_def
        sample_csp_def sample_context_def group_context_new_def)
  moreover have "auth_content_from ?m = sample_signed"
    by (simp add: auth_content_from_def sample_signed_def set_signature_def sample_auth_content_def auth_content_new_def)
  ultimately have "verify_plaintext_authentication sample_csp ?m (Some []) sample_context (Keys_RatchetTree (sample_tree 1 2)) = Inr sample_signed"
    using t sample_tree_leaf s
    by (simp add: verify_plaintext_authentication_def Let_def is_member_def ok_or_def guardR_def
        verify_auth_content_signature_def signing_identity_for_sender_def leaf_index_try_from_def
        signing_identity_for_member_def MAX_LEAF_INDEX_def sample_leaf_def)
  from accepted_message_authentic [OF this] this s show ?thesis by auto
qed

end
