(* ===== verification/Validation.thy ===== *)
theory Validation
  imports Kem MessageAuth
begin

text \<open>
  Validation of what others send: leaf nodes (\<^verbatim>\<open>mls-rs/src/tree_kem/leaf_node_validator.rs\<close>), ratchet trees
  (\<^verbatim>\<open>tree_validator.rs\<close>), update paths (\<^verbatim>\<open>update_path.rs\<close>) and key packages (\<^verbatim>\<open>mls-rs/src/key_package/validator.rs\<close>,
  with their generation in \<^verbatim>\<open>generator.rs\<close>).
\<close>

section \<open>Leaf nodes\<close>

datatype validation_context =
    VC_Add "mls_time option"
  | VC_Update "byte list" u32 "mls_time option"
  | VC_Commit "byte list" u32 "mls_time option"

fun vc_signing_context :: "validation_context \<Rightarrow> leaf_signing_context" where
  "vc_signing_context (VC_Add _) = None"
| "vc_signing_context (VC_Update group_id leaf_index _) = Some (group_id, leaf_index)"
| "vc_signing_context (VC_Commit group_id leaf_index _) = Some (group_id, leaf_index)"

fun generation_time :: "validation_context \<Rightarrow> mls_time option" where
  "generation_time (VC_Add t) = t"
| "generation_time (VC_Update _ _ t) = t"
| "generation_time (VC_Commit _ _ t) = t"

fun check_context :: "leaf_node \<Rightarrow> validation_context \<Rightarrow> unit res" where
  "check_context leaf (VC_Add time) =
     (case ln_source leaf of
        KeyPackage lt \<Rightarrow>
          (case time of
             None \<Rightarrow> Inr ()
           | Some t \<Rightarrow> guardR (within_lifetime lt t) (InvalidLifetime (not_before lt) (not_after lt) t))
      | _ \<Rightarrow> Inl InvalidLeafNodeSource)"
| "check_context leaf (VC_Update _ _ _) =
     (case ln_source leaf of Update \<Rightarrow> Inr () | _ \<Rightarrow> Inl InvalidLeafNodeSource)"
| "check_context leaf (VC_Commit _ _ _) =
     (case ln_source leaf of Commit _ \<Rightarrow> Inr () | _ \<Rightarrow> Inl InvalidLeafNodeSource)"

text \<open>The first item that is not among the supported ones is the error.\<close>

definition require_all :: "u16 list \<Rightarrow> u16 list \<Rightarrow> (u16 \<Rightarrow> mls_error) \<Rightarrow> unit res" where
  "require_all required available err =
     (case List.find (\<lambda>t. t \<notin> set available) required of Some t \<Rightarrow> Inl (err t) | None \<Rightarrow> Inr ())"

definition context_extension ::
    "member_validation_context \<Rightarrow> extension_type \<Rightarrow> 'a codec \<Rightarrow> 'a option res" where
  "context_extension context t c =
     (case new_extensions context of None \<Rightarrow> Inr None | Some exts \<Rightarrow> ext_get_as t c exts)"

definition validate_required_capabilities :: "member_validation_context \<Rightarrow> leaf_node \<Rightarrow> unit res" where
  "validate_required_capabilities context leaf =
     bindR (context_extension context REQUIRED_CAPABILITIES required_capabilities_codec) (\<lambda>r.
     case r of
       None \<Rightarrow> Inr ()
     | Some required \<Rightarrow>
         bindR (require_all (rc_extensions required) (cap_extensions (ln_capabilities leaf)) RequiredExtensionNotFound) (\<lambda>_.
         bindR (require_all (rc_proposals required) (cap_proposals (ln_capabilities leaf)) RequiredProposalNotFound) (\<lambda>_.
           require_all (rc_credentials required) (cap_credentials (ln_capabilities leaf)) RequiredCredentialNotFound)))"

definition validate_external_senders_ext_credentials :: "member_validation_context \<Rightarrow> leaf_node \<Rightarrow> unit res" where
  "validate_external_senders_ext_credentials context leaf =
     bindR (context_extension context EXTERNAL_SENDERS external_senders_codec) (\<lambda>ext.
     case ext of
       None \<Rightarrow> Inr ()
     | Some allowed_senders \<Rightarrow>
         require_all (map (\<lambda>s. credential_type_of (si_credential s)) allowed_senders)
           (cap_credentials (ln_capabilities leaf)) RequiredCredentialNotFound)"

definition check_if_valid ::
    "cipher_suite_provider \<Rightarrow> identity_provider \<Rightarrow> member_validation_context \<Rightarrow> leaf_node \<Rightarrow> validation_context \<Rightarrow> unit res" where
  "check_if_valid csp idp member_context leaf context =
     bindR (check_context leaf context) (\<lambda>_.
     bindR (map_errR IdentityProviderError
              (idp_validate_member idp (ln_signing_identity leaf) (generation_time context) member_context)) (\<lambda>_.
     bindR (leaf_node_verify csp leaf (signature_key (ln_signing_identity leaf)) (vc_signing_context context)) (\<lambda>_.
     bindR (validate_required_capabilities member_context leaf) (\<lambda>_.
     bindR (require_all (map ext_type (ln_extensions leaf)) (cap_extensions (ln_capabilities leaf))
              ExtensionNotInCapabilities) (\<lambda>_.
     bindR (case new_extensions member_context of
              None \<Rightarrow> Inr ()
            | Some exts \<Rightarrow>
                require_all (filter (\<lambda>t. \<not> is_default_extension t) (map ext_type exts))
                  (cap_extensions (ln_capabilities leaf)) UnsupportedGroupExtension) (\<lambda>_.
       validate_external_senders_ext_credentials member_context leaf))))))"

definition revalidate ::
    "cipher_suite_provider \<Rightarrow> identity_provider \<Rightarrow> member_validation_context \<Rightarrow> leaf_node \<Rightarrow> byte list \<Rightarrow> u32 \<Rightarrow>
     mls_time option \<Rightarrow> unit res" where
  "revalidate csp idp member_context leaf group_id leaf_index maybe_time =
     check_if_valid csp idp member_context leaf
       (case ln_source leaf of
          KeyPackage _ \<Rightarrow> VC_Add maybe_time
        | Update \<Rightarrow> VC_Update group_id leaf_index maybe_time
        | Commit _ \<Rightarrow> VC_Commit group_id leaf_index maybe_time)"

section \<open>Trees\<close>

definition validate_tree_hash :: "tree_kem_public \<Rightarrow> cipher_suite_provider \<Rightarrow> byte list \<Rightarrow> tree_kem_public res" where
  "validate_tree_hash tree csp expected =
     bindR (tk_tree_hash tree csp) (\<lambda>(tree, h). bindR (guardR (h = expected) TreeHashMismatch) (\<lambda>_. Inr tree))"

definition validate_no_trailing_blanks :: "node_vec \<Rightarrow> unit res" where
  "validate_no_trailing_blanks nodes =
     (if nodes = [] then Inl UnexpectedEmptyTree
      else if last nodes = None then Inl UnexpectedTrailingBlanks else Inr ())"

definition validate_leaves ::
    "cipher_suite_provider \<Rightarrow> identity_provider \<Rightarrow> member_validation_context \<Rightarrow> node_vec \<Rightarrow> byte list \<Rightarrow>
     mls_time option \<Rightarrow> unit res" where
  "validate_leaves csp idp member_context nodes group_id maybe_time =
     foldR (\<lambda>_ (index, leaf). revalidate csp idp member_context leaf group_id index maybe_time) () (non_empty_leaves nodes)"

definition unmerged_sets_of :: "node_vec \<Rightarrow> leaf_index list list" where
  "unmerged_sets_of nodes = map (\<lambda>n. case n of Some (Parent p) \<Rightarrow> p_unmerged_leaves p | _ \<Rightarrow> []) nodes"

text \<open>
  The walk from a leaf up to the first node that is neither blank nor has the leaf among its unmerged
  leaves; the leaf is taken out of the sets of the nodes passed. A path has at most 32 nodes.
\<close>

fun walk_unmerged ::
    "nat \<Rightarrow> node_vec \<Rightarrow> u32 \<Rightarrow> leaf_index \<Rightarrow> node_index \<Rightarrow> leaf_index list list \<Rightarrow> leaf_index list list res" where
  "walk_unmerged fuel nodes leaf_count index n sets =
     (case parent_sibling_of n leaf_count of
        None \<Rightarrow> Inr sets
      | Some ps \<Rightarrow>
          let p = parent_sibling.parent ps;
              up = (\<lambda>sets. case fuel of 0 \<Rightarrow> Inl Mls_Diverges | Suc f \<Rightarrow> walk_unmerged f nodes leaf_count index p sets)
          in bindR (is_blank nodes p) (\<lambda>b.
               if b then up sets
               else
                 bindR (borrow_as_parent nodes p) (\<lambda>parent_node.
                   if index \<in> set (p_unmerged_leaves parent_node) then
                     bindR (index_or_panic sets (unat p)) (\<lambda>s. up (sets[unat p := removeAll index s]))
                   else Inr sets)))"

declare walk_unmerged.simps [simp del]

definition validate_unmerged :: "node_vec \<Rightarrow> unit res" where
  "validate_unmerged nodes =
     bindR (foldR (\<lambda>sets (index, _). walk_unmerged 32 nodes (total_leaf_count nodes) index (node_of_leaf index) sets)
              (unmerged_sets_of nodes) (non_empty_leaves nodes)) (\<lambda>sets.
       guardR (list_all (\<lambda>s. s = []) sets) UnmergedLeavesMismatch)"

definition validate_tree ::
    "cipher_suite_provider \<Rightarrow> identity_provider \<Rightarrow> group_context \<Rightarrow> tree_kem_public \<Rightarrow> mls_time option \<Rightarrow>
     tree_kem_public res" where
  "validate_tree csp idp context tree maybe_time =
     bindR (validate_tree_hash tree csp (gc_tree_hash context)) (\<lambda>tree.
     bindR (validate_parent_hashes tree csp) (\<lambda>_.
     bindR (validate_no_trailing_blanks (tk_nodes tree)) (\<lambda>_.
     bindR (validate_leaves csp idp (ForNewGroup context) (tk_nodes tree) (gc_group_id context) maybe_time) (\<lambda>_.
     bindR (validate_unmerged (tk_nodes tree)) (\<lambda>_. Inr tree)))))"

section \<open>Update paths\<close>

record provisional_state =
  pv_public_tree :: tree_kem_public
  pv_applied_proposals :: proposal_bundle
  pv_group_context :: group_context
  pv_external_init_index :: "leaf_index option"
  pv_indexes_of_added_kpkgs :: "leaf_index list"
  pv_unused_proposals :: "proposal proposal_info list"

text \<open>The nodes of the path spread over the direct path, with \<open>None\<close> at the filtered positions before each.\<close>

fun unfilter_nodes :: "bool list \<Rightarrow> update_path_node list \<Rightarrow> update_path_node option list res" where
  "unfilter_nodes fs [] = Inr []"
| "unfilter_nodes [] (n # ns) = Inl WrongPathLen"
| "unfilter_nodes (f # fs) (n # ns) =
     (if f then bindR (unfilter_nodes fs (n # ns)) (\<lambda>us. Inr (None # us))
      else bindR (unfilter_nodes fs ns) (\<lambda>us. Inr (Some n # us)))"

definition check_path_successor ::
    "identity_provider \<Rightarrow> tree_kem_public \<Rightarrow> extension_list \<Rightarrow> leaf_index \<Rightarrow> leaf_node \<Rightarrow> unit res" where
  "check_path_successor idp tree exts sender leaf =
     bindR (borrow_as_leaf (tk_nodes tree) sender) (\<lambda>existing_leaf.
     bindR (map_errR IdentityProviderError
              (idp_valid_successor idp (ln_signing_identity existing_leaf) (ln_signing_identity leaf) exts)) (\<lambda>valid.
     bindR (guardR valid InvalidSuccessor) (\<lambda>_.
       guardR (ln_public_key existing_leaf \<noteq> ln_public_key leaf) (SameHpkeKey sender))))"

definition validate_update_path ::
    "identity_provider \<Rightarrow> cipher_suite_provider \<Rightarrow> update_path \<Rightarrow> provisional_state \<Rightarrow> leaf_index \<Rightarrow> mls_time option \<Rightarrow>
     group_context \<Rightarrow> validated_update_path res" where
  "validate_update_path idp csp upath state sender commit_time current_context =
     (let exts = gc_extensions (pv_group_context state) in
     bindR (check_if_valid csp idp (ForCommit current_context exts) (up_leaf_node upath)
              (VC_Commit (gc_group_id (pv_group_context state)) sender commit_time)) (\<lambda>_.
     bindR (if external_initializations (pv_applied_proposals state) = []
            then check_path_successor idp (pv_public_tree state) exts sender (up_leaf_node upath) else Inr ()) (\<lambda>_.
     bindR (filtered (tk_nodes (pv_public_tree state)) sender) (\<lambda>fs.
     bindR (unfilter_nodes fs (up_nodes upath)) (\<lambda>unfiltered_nodes.
       Inr \<lparr>vup_leaf_node = up_leaf_node upath, vup_nodes = unfiltered_nodes\<rparr>)))))"

section \<open>Key packages\<close>

definition validate_key_package_properties ::
    "key_package \<Rightarrow> protocol_version \<Rightarrow> cipher_suite_provider \<Rightarrow> unit res" where
  "validate_key_package_properties package version csp =
     bindR (key_package_verify csp package (signature_key (ln_signing_identity (kp_leaf_node package)))) (\<lambda>_.
     bindR (guardR (kp_version package = version) (Message_Error ProtocolVersionMismatch)) (\<lambda>_.
     bindR (guardR (kp_cipher_suite package = csp_cipher_suite csp) CipherSuiteMismatch) (\<lambda>_.
     bindR (map_errR (\<lambda>_. Proposal_Error InvalidInitKey) (kem_public_key_validate csp (kp_hpke_init_key package))) (\<lambda>_.
       guardR (kp_hpke_init_key package \<noteq> ln_public_key (kp_leaf_node package)) (Proposal_Error InitLeafKeyEquality)))))"

record key_package_generation =
  kg_reference :: "byte list"
  kg_key_package :: key_package
  kg_init_secret_key :: hpke_secret_key
  kg_leaf_node_secret_key :: hpke_secret_key

record key_package_data =
  kd_key_package_bytes :: "byte list"
  kd_init_key :: hpke_secret_key
  kd_leaf_node_key :: hpke_secret_key
  kd_expiration :: u64

definition kg_to_storage :: "key_package_generation \<Rightarrow> (byte list \<times> key_package_data) res" where
  "kg_to_storage g =
     bindR (codecR (c_enc key_package_codec (kg_key_package g))) (\<lambda>bytes.
     bindR (key_package_expiration (kg_key_package g)) (\<lambda>expiration.
       Inr (kg_reference g, \<lparr>kd_key_package_bytes = bytes, kd_init_key = kg_init_secret_key g,
         kd_leaf_node_key = kg_leaf_node_secret_key g, kd_expiration = expiration\<rparr>)))"

definition kg_from_storage :: "byte list \<Rightarrow> key_package_data \<Rightarrow> key_package_generation res" where
  "kg_from_storage reference data =
     bindR (codecR (c_dec key_package_codec (kd_key_package_bytes data))) (\<lambda>(package, _).
       Inr \<lparr>kg_reference = reference, kg_key_package = package, kg_init_secret_key = kd_init_key data,
            kg_leaf_node_secret_key = kd_leaf_node_key data\<rparr>)"

definition key_package_sign :: "cipher_suite_provider \<Rightarrow> key_package \<Rightarrow> signature_secret_key \<Rightarrow> key_package res" where
  "key_package_sign csp package signing_key =
     bindR (key_package_signed_bytes package) (\<lambda>bytes.
     bindR (crypto (csp_sign csp signing_key bytes)) (\<lambda>sig. Inr (package\<lparr>kp_signature := sig\<rparr>)))"

definition key_package_generate ::
    "protocol_version \<Rightarrow> cipher_suite_provider \<Rightarrow> signing_identity \<Rightarrow> signature_secret_key \<Rightarrow>
     any_error + hpke_secret_key \<times> hpke_public_key \<Rightarrow> any_error + hpke_secret_key \<times> hpke_public_key \<Rightarrow>
     lifetime \<Rightarrow> capabilities \<Rightarrow> extension_list \<Rightarrow> extension_list \<Rightarrow> key_package_generation res" where
  "key_package_generate version csp identity signing_key generated_init generated_leaf lt caps kp_exts leaf_exts =
     bindR (crypto generated_init) (\<lambda>(init_secret_key, public_init).
     bindR (leaf_node_generate csp generated_leaf \<lparr>cp_capabilities = caps, cp_extensions = leaf_exts\<rparr> identity
              signing_key lt) (\<lambda>(leaf, leaf_node_secret).
     bindR (key_package_sign csp \<lparr>kp_version = version, kp_cipher_suite = csp_cipher_suite csp,
              kp_hpke_init_key = public_init, kp_leaf_node = leaf, kp_extensions = kp_exts, kp_signature = []\<rparr>
              signing_key) (\<lambda>package.
     bindR (key_package_to_reference package csp) (\<lambda>reference.
       Inr \<lparr>kg_reference = reference, kg_key_package = package, kg_init_secret_key = init_secret_key,
            kg_leaf_node_secret_key = leaf_node_secret\<rparr>))))"

end
