(* ===== verification/TreeKemLaws.thy ===== *)
theory TreeKemLaws
  imports Validation
begin

text \<open>
  The invariant of a ratchet tree and that the operations of theory \<open>TreeKem\<close> keep it: leaves at even and
  parents at odd positions, members below both children of every parent that is not blank, unmerged leaves
  that are members below their parent, in order and left of every blank leaf; an index that stands for the
  leaves; cached hashes that are those of the tree.
\<close>

section \<open>Positions of the array\<close>

definition slot :: "node_vec \<Rightarrow> nat \<Rightarrow> node option" where
  "slot nodes n = (case get_at nodes n of Some x \<Rightarrow> x | None \<Rightarrow> None)"

definition ancestors :: "nat \<Rightarrow> nat set" where
  "ancestors j = range (\<lambda>k. node_at (Suc k) (j div 2 ^ Suc k))"

definition leaf_of :: "node_vec \<Rightarrow> nat \<Rightarrow> leaf_node option" where
  "leaf_of nodes j = (case slot nodes (2 * j) of Some (Leaf l) \<Rightarrow> Some l | _ \<Rightarrow> None)"

lemma node_slot_slot: "node_slot nodes x = slot nodes (unat x)"
  by (simp add: node_slot_def slot_def)

lemma slot_nth: "slot nodes n = (if n < length nodes then nodes ! n else None)"
  by (simp add: slot_def get_at_def)

lemma slot_update: "slot (nodes[n := x]) m = (if m = n \<and> n < length nodes then x else slot nodes m)"
  by (auto simp: slot_nth)

lemma slot_append_None: "slot (nodes @ replicate k None) m = slot nodes m"
  by (simp add: slot_nth nth_append)

lemma slot_SomeD: "slot nodes n = Some x \<Longrightarrow> n < length nodes"
  by (simp add: slot_nth split: if_splits)

lemma odd_node_at: "odd (node_at (Suc k) i)"
  by (simp add: node_at_def)

lemma node_at_0: "node_at 0 j = 2 * j"
  by (simp add: node_at_def)

lemma odd_is_node_at: "odd n \<Longrightarrow> \<exists>k i. n = node_at (Suc k) i"
proof (induction n rule: less_induct)
  case (less n)
  then obtain m where m: "n = 2 * m + 1" by (auto elim: oddE)
  show ?case
  proof (cases "odd m")
    case True
    with less m obtain k i where "m = node_at (Suc k) i" by fastforce
    with m have "Suc n = 2 * ((2 * i + 1) * 2 ^ Suc k)" using Suc_node_at [of "Suc k" i] by simp
    then have "Suc n = Suc (node_at (Suc (Suc k)) i)" unfolding Suc_node_at by simp
    then have "n = node_at (Suc (Suc k)) i" by simp
    then show ?thesis by blast
  next
    case False
    then obtain i where "m = 2 * i" by (auto elim: evenE)
    with m have "n = node_at (Suc 0) i" by (simp add: node_at_def)
    then show ?thesis by blast
  qed
qed

lemma ancestors_iff: "node_at (Suc k) i \<in> ancestors j \<longleftrightarrow> i = j div 2 ^ Suc k"
  by (auto simp: ancestors_def node_at_inject simp del: power_Suc)

lemma even_not_ancestor: "2 * m \<notin> ancestors j"
proof
  assume "2 * m \<in> ancestors j"
  then obtain k i where "2 * m = node_at (Suc k) i" by (auto simp: ancestors_def)
  with odd_node_at [of k i] show False by (metis dvd_triv_left)
qed

lemma set_non_empty_leaves:
  "set (non_empty_leaves nodes) = {(of_nat j, l) | j l. leaf_of nodes j = Some l}"
proof -
  have step: "length (step_by2 xs) = (length xs + 1) div 2 \<and> (\<forall>j < (length xs + 1) div 2. step_by2 xs ! j = xs ! (2 * j))"
    for xs :: "'a list"
    by (induction xs rule: step_by2.induct) (auto simp: nth_Cons split: nat.splits)
  have "(j, okR (as_leaf (nodes ! (2 * j)))) \<in> set (enumerate 0 (leaves nodes))" if "2 * j < length nodes" for j
    using that step [of nodes] by (auto simp: leaves_def in_set_enumerate_eq)
  moreover have "2 * j < length nodes \<and> x = okR (as_leaf (nodes ! (2 * j)))" if "(j, x) \<in> set (enumerate 0 (leaves nodes))" for j x
    using that step [of nodes] by (auto simp: leaves_def in_set_enumerate_eq)
  moreover have "okR (as_leaf x) = (case x of Some (Leaf l) \<Rightarrow> Some l | _ \<Rightarrow> None)" for x
    by (auto simp: as_leaf_def split: option.splits node.splits)
  ultimately have "(\<exists>x. (j, x) \<in> set (enumerate 0 (leaves nodes)) \<and> x = Some l) \<longleftrightarrow> leaf_of nodes j = Some l" for j l
    by (force simp: leaf_of_def slot_nth split: if_splits option.splits node.splits)
  then show ?thesis
    unfolding non_empty_leaves_def List.map_filter_def by (auto simp: image_iff) force+
qed

section \<open>Editing the array\<close>

lemma path_in_array:
  assumes "2 * j < length nodes" "length nodes < 2 ^ 32"
  shows "j < 2 ^ tree_depth nodes"
  using length_tree_depth [OF assms(2)] assms(1) by simp

lemma ancestor_beyond:
  assumes "length nodes < 2 ^ 32" "tree_depth nodes \<le> k"
  shows "length nodes \<le> node_at (Suc k) i"
proof -
  have "length nodes < 2 ^ Suc (tree_depth nodes)" using assms(1) by (rule length_tree_depth)
  also have "\<dots> \<le> 2 ^ Suc k" using assms(2) by (intro power_increasing) auto
  finally show ?thesis by (simp add: node_at_def)
qed

lemma direct_path_nodes:
  assumes "2 * unat l < length nodes" "length nodes < 2 ^ 32"
  obtains cps where "nv_direct_copath nodes l = Inr cps"
    "map (unat \<circ> path) cps = map (\<lambda>k. node_at (Suc k) (unat l div 2 ^ Suc k)) [0..<tree_depth nodes]"
proof -
  let ?d = "tree_depth nodes"
  have j: "unat l < 2 ^ ?d" using path_in_array assms by blast
  have "nv_direct_copath nodes l = Inr (copath_spec ?d 0 (unat l))"
    using nv_direct_copath_leaf [OF j] by simp
  moreover have "in_tree ?d (Suc k) (unat l div 2 ^ Suc k)" if "k < ?d" for k
  proof -
    have "2 ^ ?d = 2 ^ (?d - Suc k) * (2 ^ Suc k :: nat)" using that by (simp flip: power_add power_Suc)
    with j that show ?thesis by (simp add: in_tree_def less_mult_imp_div_less del: power_Suc)
  qed
  then have "map (unat \<circ> path) (copath_spec ?d 0 (unat l)) = map (\<lambda>k. node_at (Suc k) (unat l div 2 ^ Suc k)) [0..<?d]"
    using in_tree_word(2) [OF _ tree_depth_le, of nodes] by (simp add: copath_spec_def del: power_Suc)
  ultimately show thesis by (rule that)
qed

lemma ancestors_path:
  assumes "length nodes < 2 ^ 32" "n < length nodes"
  shows "n \<in> ancestors j \<longleftrightarrow> n \<in> set (map (\<lambda>k. node_at (Suc k) (j div 2 ^ Suc k)) [0..<tree_depth nodes])"
proof
  assume "n \<in> ancestors j"
  then obtain k where k: "n = node_at (Suc k) (j div 2 ^ Suc k)" by (auto simp: ancestors_def)
  then have "k < tree_depth nodes" using ancestor_beyond [OF assms(1), of k "j div 2 ^ Suc k"] assms(2) by linarith
  with k show "n \<in> set (map (\<lambda>k. node_at (Suc k) (j div 2 ^ Suc k)) [0..<tree_depth nodes])" by simp
qed (auto simp: ancestors_def)

lemma blank_nodes_slot:
  "length (blank_nodes cps nodes) = length nodes"
  "slot (blank_nodes cps nodes) n = (if n \<in> set (map (unat \<circ> path) cps) then None else slot nodes n)"
proof -
  show "length (blank_nodes cps nodes) = length nodes"
    unfolding blank_nodes_def by (induction cps arbitrary: nodes) auto
  show "slot (blank_nodes cps nodes) n = (if n \<in> set (map (unat \<circ> path) cps) then None else slot nodes n)"
    unfolding blank_nodes_def
  proof (induction cps arbitrary: nodes)
    case (Cons cp cps)
    have "slot (nodes[unat (path cp) := None]) n = (if n = unat (path cp) then None else slot nodes n)"
      by (auto simp: slot_nth)
    with Cons show ?case by auto
  qed simp
qed

lemma blank_direct_path_slots:
  assumes "2 * unat l < length nodes" "length nodes < 2 ^ 32"
  obtains nodes' where "blank_direct_path nodes l = Inr nodes'" "length nodes' = length nodes"
    "\<forall>n. slot nodes' n = (if n \<in> ancestors (unat l) then None else slot nodes n)"
proof -
  obtain cps where cps: "nv_direct_copath nodes l = Inr cps"
    "map (unat \<circ> path) cps = map (\<lambda>k. node_at (Suc k) (unat l div 2 ^ Suc k)) [0..<tree_depth nodes]"
    using direct_path_nodes [OF assms] by blast
  have "slot (blank_nodes cps nodes) n = (if n \<in> ancestors (unat l) then None else slot nodes n)" for n
  proof (cases "n < length nodes")
    case True
    then show ?thesis using ancestors_path [OF assms(2) True] by (simp add: blank_nodes_slot cps(2) del: set_map)
  qed (simp add: blank_nodes_slot slot_nth)
  with cps(1) show thesis by (intro that [of "blank_nodes cps nodes"]) (simp_all add: blank_direct_path_def blank_nodes_slot)
qed

definition push_leaf :: "leaf_index \<Rightarrow> node \<Rightarrow> node" where
  "push_leaf l n = (case n of Parent p \<Rightarrow> Parent (p\<lparr>p_unmerged_leaves := p_unmerged_leaves p @ [l]\<rparr>) | _ \<Rightarrow> n)"

lemma push_unmerged_slot:
  "length (push_unmerged l nodes cp) = length nodes"
  "slot (push_unmerged l nodes cp) n = (if n = unat (path cp) then map_option (push_leaf l) (slot nodes n) else slot nodes n)"
proof -
  have le: "unat (path cp) < length nodes \<Longrightarrow> unat (path cp) < next_power_of_two (length nodes)"
    using less_floorlog [of "length nodes - 1"] by (auto simp: next_power_of_two_def)
  show "length (push_unmerged l nodes cp) = length nodes"
    by (simp add: push_unmerged_def set_parent_def split: sum.splits)
  show "slot (push_unmerged l nodes cp) n = (if n = unat (path cp) then map_option (push_leaf l) (slot nodes n) else slot nodes n)"
    using le
    by (auto simp: push_unmerged_def set_parent_def borrow_as_parent_mut_def validate_index_def get_at_def as_parent_def
        slot_nth push_leaf_def split: sum.splits option.splits node.splits if_splits)
qed

lemma push_unmerged_slots:
  "distinct (map (unat \<circ> path) cps) \<Longrightarrow>
   length (foldl (push_unmerged l) nodes cps) = length nodes \<and>
   slot (foldl (push_unmerged l) nodes cps) n =
     (if n \<in> set (map (unat \<circ> path) cps) then map_option (push_leaf l) (slot nodes n) else slot nodes n)"
  by (induction cps arbitrary: nodes) (auto simp: push_unmerged_slot)

lemma update_unmerged_slots:
  assumes "2 * unat l < length nodes" "length nodes < 2 ^ 32"
  obtains nodes' where "update_unmerged nodes l = Inr nodes'" "length nodes' = length nodes"
    "\<forall>n. slot nodes' n = (if n \<in> ancestors (unat l) then map_option (push_leaf l) (slot nodes n) else slot nodes n)"
proof -
  obtain cps where cps: "nv_direct_copath nodes l = Inr cps"
    "map (unat \<circ> path) cps = map (\<lambda>k. node_at (Suc k) (unat l div 2 ^ Suc k)) [0..<tree_depth nodes]"
    using direct_path_nodes [OF assms] by blast
  have "distinct (map (unat \<circ> path) cps)"
    unfolding cps(2) by (simp add: distinct_map inj_on_def node_at_inject)
  note push = push_unmerged_slots [OF this, of l nodes]
  have "slot (foldl (push_unmerged l) nodes cps) n =
      (if n \<in> ancestors (unat l) then map_option (push_leaf l) (slot nodes n) else slot nodes n)" for n
  proof (cases "n < length nodes")
    case True
    then show ?thesis using ancestors_path [OF assms(2) True] push by (simp add: cps(2) del: set_map)
  qed (use push in \<open>simp add: slot_nth\<close>)
  with cps(1) push show thesis
    by (intro that [of "foldl (push_unmerged l) nodes cps"]) (simp_all add: update_unmerged_def)
qed

lemma unat_node_of_leaf_small: "unat l < 2 ^ 31 \<Longrightarrow> unat (node_of_leaf l) = 2 * unat l"
  by (simp add: unat_node_of_leaf)

lemma in_array_valid: "i < length nodes \<Longrightarrow> i < next_power_of_two (length nodes)"
  using less_floorlog [of "length nodes - 1"] by (auto simp: next_power_of_two_def)

lemma blank_leaf_node_Inr:
  assumes "blank_leaf_node nodes l = (nodes', Inr old)" "unat l < 2 ^ 31"
  shows "nodes' = nodes[2 * unat l := None]" "leaf_of nodes (unat l) = Some old" "2 * unat l < length nodes"
  using assms
  by (auto simp: blank_leaf_node_def validate_index_def unat_node_of_leaf_small get_at_def leaf_of_def slot_nth
      split: if_splits option.splits node.splits sum.splits)

lemma blank_leaf_node_Inl:
  assumes "blank_leaf_node nodes l = (nodes', Inl e)" "unat l < 2 ^ 31"
    and "\<And>x. slot nodes (2 * unat l) = Some x \<Longrightarrow> \<exists>l. x = Leaf l"
  shows "nodes' = nodes" "leaf_of nodes (unat l) = None"
proof -
  have "slot nodes (2 * unat l) = None"
  proof (cases "slot nodes (2 * unat l)")
    case (Some x)
    with assms(3) obtain lf where "slot nodes (2 * unat l) = Some (Leaf lf)" by blast
    then have "2 * unat l < length nodes" "nodes ! (2 * unat l) = Some (Leaf lf)"
      by (simp_all add: slot_nth split: if_splits)
    with assms(1,2) in_array_valid [of "2 * unat l" nodes] show ?thesis
      by (simp add: blank_leaf_node_def validate_index_def unat_node_of_leaf_small get_at_def leD)
  qed
  moreover have "nodes[n := None] = nodes" if "slot nodes n = None" for n
    using that by (cases "n < length nodes") (simp_all add: slot_nth list_update_same_conv list_update_beyond)
  ultimately show "nodes' = nodes" "leaf_of nodes (unat l) = None"
    using assms(1,2) by (auto simp: blank_leaf_node_def validate_index_def unat_node_of_leaf_small leaf_of_def
        split: if_splits)
qed

section \<open>Well-formed arrays\<close>

text \<open>
  The leaves \<open>H\<close> are those taken out of the array for the moment; they count as occupied.
\<close>

definition occupied :: "nat set \<Rightarrow> node_vec \<Rightarrow> nat \<Rightarrow> bool" where
  "occupied H nodes j \<longleftrightarrow> slot nodes (2 * j) \<noteq> None \<or> j \<in> H"

definition parent_wf :: "(nat \<Rightarrow> bool) \<Rightarrow> nat \<Rightarrow> nat \<Rightarrow> leaf_index list \<Rightarrow> bool" where
  "parent_wf occ k i us \<longleftrightarrow>
     (\<exists>j. occ j \<and> j div 2 ^ k = 2 * i) \<and> (\<exists>j. occ j \<and> j div 2 ^ k = 2 * i + 1) \<and> sorted_wrt (<) us \<and>
     (\<forall>u\<in>set us. occ (unat u) \<and> unat u div 2 ^ Suc k = i \<and> (\<forall>b. b div 2 ^ Suc k = i \<longrightarrow> \<not> occ b \<longrightarrow> unat u < b))"

definition wf_nodes :: "nat set \<Rightarrow> node_vec \<Rightarrow> bool" where
  "wf_nodes H nodes \<longleftrightarrow>
     (length nodes = 0 \<or> odd (length nodes)) \<and>
     (\<forall>j\<in>H. 2 * j < length nodes \<and> slot nodes (2 * j) = None) \<and>
     (\<forall>j x. slot nodes (2 * j) = Some x \<longrightarrow> (\<exists>l. x = Leaf l)) \<and>
     (\<forall>k i x. slot nodes (node_at (Suc k) i) = Some x \<longrightarrow>
        (\<exists>p. x = Parent p \<and> parent_wf (occupied H nodes) k i (p_unmerged_leaves p)))"

lemma wf_leaf: "wf_nodes H nodes \<Longrightarrow> slot nodes (2 * j) = Some x \<Longrightarrow> \<exists>l. x = Leaf l"
  by (auto simp: wf_nodes_def)

lemma wf_parent:
  "wf_nodes H nodes \<Longrightarrow> slot nodes (node_at (Suc k) i) = Some x \<Longrightarrow>
   \<exists>p. x = Parent p \<and> parent_wf (occupied H nodes) k i (p_unmerged_leaves p)"
  unfolding wf_nodes_def by blast

lemma wf_nodesI:
  assumes "length nodes = 0 \<or> odd (length nodes)"
    and "\<And>j. j \<in> H \<Longrightarrow> 2 * j < length nodes \<and> slot nodes (2 * j) = None"
    and "\<And>j x. slot nodes (2 * j) = Some x \<Longrightarrow> \<exists>l. x = Leaf l"
    and "\<And>k i x. slot nodes (node_at (Suc k) i) = Some x \<Longrightarrow>
      \<exists>p. x = Parent p \<and> parent_wf (occupied H nodes) k i (p_unmerged_leaves p)"
  shows "wf_nodes H nodes"
  unfolding wf_nodes_def
  by (intro conjI ballI allI impI assms(3,4)) (use assms(1,2) in \<open>simp_all\<close>)

lemma wf_leaf_of: "wf_nodes H nodes \<Longrightarrow> leaf_of nodes j = None \<longleftrightarrow> slot nodes (2 * j) = None"
  using wf_leaf [of H nodes j] by (auto simp: leaf_of_def split: option.splits node.splits)

lemma div_Suc_pow: "j div 2 ^ Suc k = j div 2 ^ k div 2" for j :: nat
  by (metis div_mult2_eq power_Suc2)

lemma parent_wf_cong:
  assumes "\<And>j. j div 2 ^ Suc k = i \<Longrightarrow> occ j = occ' j"
  shows "parent_wf occ k i us = parent_wf occ' k i us"
proof -
  have "occ j = occ' j" if "j div 2 ^ k = 2 * i \<or> j div 2 ^ k = 2 * i + 1" for j
    using that assms [of j] unfolding div_Suc_pow by auto
  then have "(\<exists>j. occ j \<and> j div 2 ^ k = 2 * i) = (\<exists>j. occ' j \<and> j div 2 ^ k = 2 * i)"
    "(\<exists>j. occ j \<and> j div 2 ^ k = 2 * i + 1) = (\<exists>j. occ' j \<and> j div 2 ^ k = 2 * i + 1)" by metis+
  moreover have "(occ (unat u) \<and> unat u div 2 ^ Suc k = i \<and> (\<forall>b. b div 2 ^ Suc k = i \<longrightarrow> \<not> occ b \<longrightarrow> unat u < b)) \<longleftrightarrow>
      (occ' (unat u) \<and> unat u div 2 ^ Suc k = i \<and> (\<forall>b. b div 2 ^ Suc k = i \<longrightarrow> \<not> occ' b \<longrightarrow> unat u < b))" for u :: u32
    using assms by blast
  ultimately show ?thesis unfolding parent_wf_def by simp
qed

text \<open>The array changes only at leaves, and the occupied ones stay the same.\<close>

lemma wf_nodes_leaf_change:
  assumes wf: "wf_nodes H nodes"
    and len: "length nodes' = 0 \<or> odd (length nodes')"
    and leafs: "\<And>j x. slot nodes' (2 * j) = Some x \<Longrightarrow> \<exists>l. x = Leaf l"
    and holes: "\<And>j. j \<in> H' \<Longrightarrow> 2 * j < length nodes' \<and> slot nodes' (2 * j) = None"
    and parents: "\<And>k i. slot nodes' (node_at (Suc k) i) = slot nodes (node_at (Suc k) i)"
    and occ: "\<And>j. occupied H' nodes' j = occupied H nodes j"
  shows "wf_nodes H' nodes'"
proof -
  have occ': "occupied H' nodes' = occupied H nodes" using occ by blast
  show ?thesis
    by (rule wf_nodesI [OF len holes leafs]; (assumption | unfold parents occ', rule wf_parent [OF wf], assumption))
qed

lemma slot_leaf_parent: "slot (nodes[2 * j := x]) (node_at (Suc k) i) = slot nodes (node_at (Suc k) i)"
  using odd_node_at [of k i] by (auto simp: slot_update)

lemma wf_blank_leaf:
  assumes wf: "wf_nodes H nodes" and j: "leaf_of nodes j = Some l"
  shows "wf_nodes (insert j H) (nodes[2 * j := None])" "j \<notin> H"
    "leaf_of (nodes[2 * j := None]) = (leaf_of nodes)(j := None)"
proof -
  have sj: "slot nodes (2 * j) = Some (Leaf l)" using j by (auto simp: leaf_of_def split: option.splits node.splits)
  then show "j \<notin> H" using wf by (auto simp: wf_nodes_def)
  show "wf_nodes (insert j H) (nodes[2 * j := None])"
  proof (rule wf_nodes_leaf_change [OF wf])
    show "occupied (insert j H) (nodes[2 * j := None]) j' = occupied H nodes j'" for j'
      using sj slot_SomeD [OF sj] by (auto simp: occupied_def slot_update)
    show "2 * j' < length (nodes[2 * j := None]) \<and> slot (nodes[2 * j := None]) (2 * j') = None" if "j' \<in> insert j H" for j'
      using that wf slot_SomeD [OF sj] by (auto simp: wf_nodes_def slot_update)
    show "\<exists>l. x = Leaf l" if "slot (nodes[2 * j := None]) (2 * j') = Some x" for j' x
      using that wf_leaf [OF wf] by (auto simp: slot_update split: if_splits)
  qed (use wf in \<open>auto simp: slot_leaf_parent wf_nodes_def\<close>)
  show "leaf_of (nodes[2 * j := None]) = (leaf_of nodes)(j := None)"
    using slot_SomeD [OF sj] by (auto simp: leaf_of_def slot_update)
qed

lemma wf_put_leaf:
  assumes wf: "wf_nodes H nodes" and j: "j \<in> H"
  shows "wf_nodes (H - {j}) (nodes[2 * j := Some (Leaf l)])"
    "leaf_of (nodes[2 * j := Some (Leaf l)]) = (leaf_of nodes)(j \<mapsto> l)"
proof -
  have sj: "slot nodes (2 * j) = None" "2 * j < length nodes" using wf j by (auto simp: wf_nodes_def)
  show "wf_nodes (H - {j}) (nodes[2 * j := Some (Leaf l)])"
  proof (rule wf_nodes_leaf_change [OF wf])
    show "occupied (H - {j}) (nodes[2 * j := Some (Leaf l)]) j' = occupied H nodes j'" for j'
      using sj j by (auto simp: occupied_def slot_update)
    show "2 * j' < length (nodes[2 * j := Some (Leaf l)]) \<and> slot (nodes[2 * j := Some (Leaf l)]) (2 * j') = None"
      if "j' \<in> H - {j}" for j'
      using that wf by (auto simp: wf_nodes_def slot_update)
    show "\<exists>l. x = Leaf l" if "slot (nodes[2 * j := Some (Leaf l)]) (2 * j') = Some x" for j' x
      using that wf_leaf [OF wf] by (auto simp: slot_update split: if_splits)
  qed (use wf in \<open>auto simp: slot_leaf_parent wf_nodes_def\<close>)
  show "leaf_of (nodes[2 * j := Some (Leaf l)]) = (leaf_of nodes)(j \<mapsto> l)"
    using sj by (auto simp: leaf_of_def slot_update)
qed

text \<open>Blanking the path of a leaf that is out of the array makes the leaf count as free.\<close>

lemma wf_blank_path:
  assumes wf: "wf_nodes H nodes" and slots: "\<And>n. slot nodes' n = (if n \<in> ancestors j then None else slot nodes n)"
    and len: "length nodes' = length nodes"
  shows "wf_nodes (H - {j}) nodes'" "leaf_of nodes' = leaf_of nodes"
proof -
  have leafs: "slot nodes' (2 * m) = slot nodes (2 * m)" for m using slots even_not_ancestor by simp
  then show "leaf_of nodes' = leaf_of nodes" by (auto simp: leaf_of_def)
  have "\<exists>p. x = Parent p \<and> parent_wf (occupied (H - {j}) nodes') k i (p_unmerged_leaves p)"
    if "slot nodes' (node_at (Suc k) i) = Some x" for k i x
  proof -
    from that slots have i: "i \<noteq> j div 2 ^ Suc k" and x: "slot nodes (node_at (Suc k) i) = Some x"
      by (auto simp: ancestors_iff split: if_splits)
    have "parent_wf (occupied (H - {j}) nodes') k i us = parent_wf (occupied H nodes) k i us" for us
      by (rule parent_wf_cong) (use i leafs in \<open>auto simp: occupied_def simp del: power_Suc\<close>)
    with wf_parent [OF wf x] show ?thesis by simp
  qed
  with wf leafs len show "wf_nodes (H - {j}) nodes'" unfolding wf_nodes_def by simp
qed

subsection \<open>Adding a leaf\<close>

lemma from_node_index: "n < 2 ^ 31 \<Longrightarrow> unat (from_node_index_unchecked (of_nat (2 * n))) = n"
proof -
  assume "n < 2 ^ 31"
  then have "unat (of_nat (2 * n) :: u32) = 2 * n" by (intro unat_of_nat_small) simp
  then show ?thesis by (simp add: from_node_index_unchecked_def drop_bit_eq_div unat_div del: of_nat_mult)
qed

lemma next_empty_loop_spec:
  assumes "length nodes = 0 \<or> odd (length nodes)" "length nodes < 2 ^ 32 - 1" "2 * s \<le> length nodes + 1"
    "j = unat (next_empty_loop nodes (2 * s))"
  shows "s \<le> j \<and> slot nodes (2 * j) = None \<and> (\<forall>b. s \<le> b \<longrightarrow> b < j \<longrightarrow> slot nodes (2 * b) \<noteq> None) \<and>
    2 * j \<le> length nodes + 1"
  using assms(3,4)
proof (induction "length nodes - 2 * s" arbitrary: s rule: less_induct)
  case less
  show ?case
  proof (cases "2 * s < length nodes")
    case True
    then have s: "s < 2 ^ 31" using assms(2) by simp
    show ?thesis
    proof (cases "nodes ! (2 * s) = None")
      case blank: True
      with True less.prems s have "j = s"
        by (subst (asm) next_empty_loop.simps) (simp add: from_node_index del: of_nat_mult)
      with blank True show ?thesis by (simp add: slot_nth)
    next
      case False
      from True assms(1) have "2 * Suc s \<le> length nodes + 1" by (auto elim!: oddE)
      moreover have "next_empty_loop nodes (2 * s) = next_empty_loop nodes (2 * Suc s)"
        using True False by (subst next_empty_loop.simps) auto
      then have "j = unat (next_empty_loop nodes (2 * Suc s))" using less.prems by simp
      ultimately have IH: "Suc s \<le> j \<and> slot nodes (2 * j) = None \<and>
          (\<forall>b. Suc s \<le> b \<longrightarrow> b < j \<longrightarrow> slot nodes (2 * b) \<noteq> None) \<and> 2 * j \<le> length nodes + 1"
        using True by (intro less.hyps) auto
      have "slot nodes (2 * b) \<noteq> None" if "s \<le> b" "b < j" for b
        using that IH False True by (cases "b = s") (auto simp: slot_nth)
      with IH show ?thesis by simp
    qed
  next
    case False
    with less.prems(1) assms(1) have "length nodes + 1 = 2 * s \<or> length nodes = 0 \<and> s = 0" by presburger
    moreover from False less.prems have j: "j = unat (from_node_index_unchecked (of_nat (length nodes) + 1))"
      by (subst (asm) next_empty_loop.simps) simp
    ultimately have "j = s"
    proof (elim disjE)
      assume *: "length nodes + 1 = 2 * s"
      then have "s < 2 ^ 31" using assms(2) by simp
      moreover have "of_nat (length nodes) + 1 = (of_nat (2 * s) :: u32)" unfolding * [symmetric] by simp
      ultimately show ?thesis using j from_node_index by simp
    qed (use j in \<open>simp add: from_node_index_unchecked_def\<close>)
    with False less.prems show ?thesis by (simp add: slot_nth)
  qed
qed

lemma insert_leaf_slots:
  assumes "2 * unat l \<le> length nodes + 1" "length nodes = 0 \<or> odd (length nodes)"
  obtains nodes' where "insert_leaf nodes l leaf = Inr nodes'"
    "\<forall>n. slot nodes' n = (if n = 2 * unat l then Some (Leaf leaf) else slot nodes n)"
    "length nodes' = max (length nodes) (2 * unat l + 1)" "odd (length nodes')"
proof -
  let ?i = "2 * unat l"
  define ns where "ns = (if ?i > length nodes then nodes @ [None, None] else if nodes = [] then [None] else nodes)"
  from assms have "?i < length ns \<and> length ns = max (length nodes) (?i + 1) \<and> odd (length ns)"
    by (cases "length nodes = 0") (auto simp: ns_def elim!: oddE, presburger+)
  moreover have "slot ns n = slot nodes n" for n
    by (auto simp: ns_def slot_nth nth_append nth_Cons split: nat.splits)
  moreover have "insert_leaf nodes l leaf = (if ?i < length ns then Inr (ns[?i := Some (Leaf leaf)]) else Inl Mls_Panic)"
    by (simp add: insert_leaf_def ns_def Let_def push_bit_eq_mult mult.commute)
  ultimately show thesis by (intro that [of "ns[?i := Some (Leaf leaf)]"]) (auto simp: slot_update)
qed

lemma parent_wf_add:
  assumes "parent_wf occ k (j div 2 ^ Suc k) us" "j = unat l" "\<not> occ j" "\<And>b. b < j \<Longrightarrow> occ b"
  shows "parent_wf (\<lambda>m. occ m \<or> m = j) k (j div 2 ^ Suc k) (us @ [l])"
proof -
  have "u < l" if "u \<in> set us" for u
    using assms that unfolding parent_wf_def word_less_nat_alt by blast
  moreover have "j < b" if "\<not> occ b" "b \<noteq> j" for b using that assms(4) [of b] by (meson linorder_neqE_nat)
  ultimately show ?thesis using assms(1,2) unfolding parent_wf_def by (auto simp: sorted_wrt_append)
qed

lemma wf_add_leaf:
  assumes wf: "wf_nodes {} nodes" and j: "j = unat l" "slot nodes (2 * j) = None"
    and left: "\<And>b. b < j \<Longrightarrow> slot nodes (2 * b) \<noteq> None"
    and len: "odd (length nodes')"
    and slots: "\<And>n. slot nodes' n = (if n = 2 * j then Some (Leaf leaf)
      else if n \<in> ancestors j then map_option (push_leaf l) (slot nodes n) else slot nodes n)"
  shows "wf_nodes {} nodes'" "leaf_of nodes' = (leaf_of nodes)(j \<mapsto> leaf)"
proof -
  have leafs: "slot nodes' (2 * m) = (if m = j then Some (Leaf leaf) else slot nodes (2 * m))" for m
    using slots even_not_ancestor by simp
  then show "leaf_of nodes' = (leaf_of nodes)(j \<mapsto> leaf)" by (auto simp: leaf_of_def)
  have occ: "occupied {} nodes' = (\<lambda>m. occupied {} nodes m \<or> m = j)"
    using leafs by (auto simp: occupied_def)
  have "\<exists>p. x = Parent p \<and> parent_wf (occupied {} nodes') k i (p_unmerged_leaves p)"
    if x: "slot nodes' (node_at (Suc k) i) = Some x" for k i x
  proof -
    have n: "node_at (Suc k) i \<noteq> 2 * j" using odd_node_at [of k i] by auto
    show ?thesis
    proof (cases "i = j div 2 ^ Suc k")
      case True
      with x n slots obtain y where y: "slot nodes (node_at (Suc k) i) = Some y" "x = push_leaf l y"
        by (auto simp: ancestors_iff simp del: power_Suc)
      from wf_parent [OF wf y(1)] obtain p where p: "y = Parent p"
        "parent_wf (occupied {} nodes) k i (p_unmerged_leaves p)" by blast
      have "parent_wf (occupied {} nodes') k i (p_unmerged_leaves p @ [l])"
        unfolding occ True
      proof (rule parent_wf_add)
        show "parent_wf (occupied {} nodes) k (j div 2 ^ Suc k) (p_unmerged_leaves p)" using p(2) True by simp
      qed (use j left in \<open>auto simp: occupied_def\<close>)
      with y p(1) show ?thesis by (simp add: push_leaf_def)
    next
      case False
      with x n slots have y: "slot nodes (node_at (Suc k) i) = Some x" by (simp add: ancestors_iff del: power_Suc)
      have "parent_wf (occupied {} nodes') k i us = parent_wf (occupied {} nodes) k i us" for us
        by (rule parent_wf_cong) (use False occ in auto)
      with wf_parent [OF wf y] show ?thesis by simp
    qed
  qed
  then show "wf_nodes {} nodes'"
    by (intro wf_nodesI) (use len leafs wf_leaf [OF wf] in \<open>auto split: if_splits\<close>)
qed

subsection \<open>Trimming\<close>

lemma pop_blanks_suffix: "\<exists>k. xs = replicate k None @ pop_blanks xs \<and> (pop_blanks xs = [] \<or> hd (pop_blanks xs) \<noteq> None)"
proof (induction xs rule: pop_blanks.induct)
  case (1 rest)
  then obtain k where "rest = replicate k None @ pop_blanks rest" "pop_blanks rest = [] \<or> hd (pop_blanks rest) \<noteq> None" by blast
  then show ?case by (intro exI [of _ "Suc k"]) simp
qed (auto intro: exI [of _ 0])

lemma trim_slots: "slot (trim nodes) n = slot nodes n" "trim nodes \<noteq> [] \<Longrightarrow> last (trim nodes) \<noteq> None"
  "length (trim nodes) \<le> length nodes"
proof -
  obtain k where k: "rev nodes = replicate k None @ pop_blanks (rev nodes)"
    "pop_blanks (rev nodes) = [] \<or> hd (pop_blanks (rev nodes)) \<noteq> None"
    using pop_blanks_suffix [of "rev nodes"] by blast
  then have "nodes = trim nodes @ replicate k None" by (metis rev_append rev_replicate rev_rev_ident trim_def)
  then show "slot (trim nodes) n = slot nodes n" by (metis slot_append_None)
  from \<open>nodes = trim nodes @ replicate k None\<close> show "length (trim nodes) \<le> length nodes"
    by (metis le_add1 length_append)
  show "last (trim nodes) \<noteq> None" if "trim nodes \<noteq> []"
    using that k(2) by (auto simp: trim_def last_rev)
qed

lemma wf_trim:
  assumes wf: "wf_nodes {} nodes"
  shows "wf_nodes {} (trim nodes)" "leaf_of (trim nodes) = leaf_of nodes"
proof -
  show "leaf_of (trim nodes) = leaf_of nodes" by (auto simp: leaf_of_def trim_slots)
  have occ: "occupied {} (trim nodes) = occupied {} nodes" by (auto simp: occupied_def trim_slots)
  have "odd (length (trim nodes))" if ne: "trim nodes \<noteq> []"
  proof (rule ccontr)
    assume "\<not> odd (length (trim nodes))"
    then have "odd (length (trim nodes) - 1)" using ne by simp
    then obtain k i where n: "length (trim nodes) - 1 = node_at (Suc k) i" using odd_is_node_at by blast
    then have "slot (trim nodes) (node_at (Suc k) i) \<noteq> None"
      using ne trim_slots(2) [OF ne] by (simp add: slot_nth last_conv_nth flip: n)
    then obtain x where "slot nodes (node_at (Suc k) i) = Some x" by (auto simp: trim_slots)
    from wf_parent [OF wf this] obtain j where j: "occupied {} (trim nodes) j" "j div 2 ^ k = 2 * i + 1"
      unfolding occ parent_wf_def by blast
    from j(2) have "(2 * i + 1) * 2 ^ k \<le> j" by (metis div_times_less_eq_dividend)
    then have "node_at (Suc k) i < 2 * j" using Suc_node_at [of "Suc k" i] by simp
    then have "length (trim nodes) \<le> 2 * j" using n by simp
    with j(1) show False by (simp add: occupied_def slot_nth)
  qed
  then show "wf_nodes {} (trim nodes)"
    using wf_leaf [OF wf] wf_parent [OF wf] by (intro wf_nodesI) (auto simp: trim_slots occ)
qed

section \<open>The index of a tree\<close>

lemma unat_u32_inject [simp]: "unat (a :: u32) = unat b \<longleftrightarrow> a = b"
  by (simp add: word_unat_eq_iff)

text \<open>The index stands for the leaves \<open>M\<close> of the array, which are pairwise compatible.\<close>

definition indexed ::
    "identity_provider \<Rightarrow> extension_list \<Rightarrow> tree_index \<Rightarrow> (nat \<rightharpoonup> leaf_node) \<Rightarrow> bool" where
  "indexed idp exts ti M \<longleftrightarrow>
     (\<forall>j l. M j = Some l \<longrightarrow> j < 2 ^ 31 \<and> (\<exists>d. identity_of idp (ln_signing_identity l) exts = Inr d)) \<and>
     (\<exists>es. index_repr ti es \<and> pairwise_compatible es \<and>
        (\<forall>i l d. (i, l, d) \<in> set es \<longleftrightarrow> M (unat i) = Some l \<and> identity_of idp (ln_signing_identity l) exts = Inr d))"

lemma pairwise_compatible_in:
  "pairwise_compatible es \<Longrightarrow> (i, l, d) \<in> set es \<Longrightarrow> (i', l', d') \<in> set es \<Longrightarrow> (i, l, d) \<noteq> (i', l', d') \<Longrightarrow>
   compatible l d l' d'"
  using compatible_sym [of l d l' d'] by (induction es) auto

lemma indexed_length:
  assumes "\<And>i l d. (i, l, d) \<in> set es \<Longrightarrow> M (unat i) = Some l \<and> identity_of idp (ln_signing_identity l) exts = Inr d"
    and "\<And>j l. M j = Some l \<Longrightarrow> j < 2 ^ 31" and "distinct (es :: leaf_entry list)"
  shows "length es < 2 ^ 32"
proof -
  have inj: "inj_on (unat \<circ> fst) (set es)" 
  proof (rule inj_onI)
    fix x y assume xy: "x \<in> set es" "y \<in> set es" "(unat \<circ> fst) x = (unat \<circ> fst) y"
    obtain i l d i' l' d' where [simp]: "x = (i, l, d)" "y = (i', l', d')" by (cases x, cases y)
    from xy assms(1) [of i l d] assms(1) [of i' l' d'] show "x = y" by simp
  qed
  have "(unat \<circ> fst) ` set es \<subseteq> {..<2 ^ 31}" using assms(1,2) by force
  then have "card ((unat \<circ> fst) ` set es) \<le> card {..<(2 ^ 31 :: nat)}" by (intro card_mono) auto
  then have "card (set es) \<le> 2 ^ 31" using card_image [OF inj] by simp
  then show ?thesis using assms(3) by (simp add: distinct_card)
qed

lemma indexed_remove:
  assumes ix: "indexed idp exts ti M" and j: "M (unat i) = Some l" and d: "identity_of idp (ln_signing_identity l) exts = Inr d"
  shows "indexed idp exts (tree_index_remove ti l d) (M(unat (i :: u32) := None))"
proof -
  from ix obtain es where es: "index_repr ti es" "pairwise_compatible es"
    "\<And>i l d. (i, l, d) \<in> set es \<longleftrightarrow> M (unat i) = Some l \<and> identity_of idp (ln_signing_identity l) exts = Inr d"
    by (auto simp: indexed_def)
  let ?es = "filter (\<lambda>x. x \<noteq> (i, l, d)) es"
  have "length es < 2 ^ 32"
    using indexed_length [of es M idp exts] es ix index_repr_distinct [OF es(1)] by (auto simp: indexed_def)
  then have "index_repr (tree_index_remove ti l d) ?es" using index_repr_removed es(1,3) j d by blast
  moreover have "(i', l', d') \<in> set ?es \<longleftrightarrow>
      (M(unat i := None)) (unat i') = Some l' \<and> identity_of idp (ln_signing_identity l') exts = Inr d'" for i' l' d'
    using es(3) [of i' l' d'] j d by (auto split: if_splits)
  ultimately show ?thesis using ix pairwise_filter [OF es(2)] unfolding indexed_def
    by (intro conjI allI impI exI [of _ ?es]) (auto split: if_splits)
qed

lemma indexed_insert:
  assumes ix: "indexed idp exts ti M" and j: "M (unat i) = None" "unat i < 2 ^ 31"
    and ins: "index_insert ti l i idp exts = (ti', Inr ())"
  shows "indexed idp exts ti' (M(unat i \<mapsto> l))"
proof -
  from ix obtain es where es: "index_repr ti es" "pairwise_compatible es"
    "\<And>i l d. (i, l, d) \<in> set es \<longleftrightarrow> M (unat i) = Some l \<and> identity_of idp (ln_signing_identity l) exts = Inr d"
    by (auto simp: indexed_def)
  from ins obtain d where d: "identity_of idp (ln_signing_identity l) exts = Inr d"
    "tree_index_insert ti i l d = (ti', Inr ())" by (auto simp: index_insert_def split: sum.splits)
  have "length es < 2 ^ 32"
    using indexed_length [of es M idp exts] es ix index_repr_distinct [OF es(1)] by (auto simp: indexed_def)
  then have "\<forall>(j, l', d')\<in>set es. compatible l d l' d'"
    using index_repr_accepts [OF es(1), of i l d] d(2) by simp
  then have "pairwise_compatible (es @ [(i, l, d)])" using es(2) by (auto simp: pairwise_snoc)
  moreover have "index_repr ti' (es @ [(i, l, d)])" using index_repr_inserted es(1) d(2) by blast
  moreover have "(i', l', d') \<in> set (es @ [(i, l, d)]) \<longleftrightarrow>
      (M(unat i \<mapsto> l)) (unat i') = Some l' \<and> identity_of idp (ln_signing_identity l') exts = Inr d'" for i' l' d'
    using es(3) [of i' l' d'] j d(1) by (cases "i' = i") auto
  ultimately show ?thesis using ix d(1) j(2) unfolding indexed_def
    by (intro conjI allI impI exI [of _ "es @ [(i, l, d)]"]) (auto split: if_splits)
qed

lemma indexed_refused:
  assumes ix: "indexed idp exts ti M" and ins: "index_insert ti l i idp exts = (ti', Inl e)"
  shows "indexed idp exts ti' M"
proof (cases "identity_of idp (ln_signing_identity l) exts")
  case (Inl e')
  then show ?thesis using ix ins by (simp add: index_insert_def)
next
  case (Inr d)
  then have "tree_index_insert ti i l d = (ti', Inl e)" using ins by (simp add: index_insert_def)
  with ix show ?thesis unfolding indexed_def by (metis index_repr_refused)
qed

lemma indexed_accepts:
  assumes ix: "indexed idp exts ti M" and d: "identity_of idp (ln_signing_identity l) exts = Inr d"
    and comp: "\<And>j l' d'. M j = Some l' \<Longrightarrow> identity_of idp (ln_signing_identity l') exts = Inr d' \<Longrightarrow> compatible l d l' d'"
  shows "\<exists>ti'. index_insert ti l i idp exts = (ti', Inr ())"
proof -
  from ix obtain es where es: "index_repr ti es"
    "\<And>i l d. (i, l, d) \<in> set es \<longleftrightarrow> M (unat i) = Some l \<and> identity_of idp (ln_signing_identity l) exts = Inr d"
    by (auto simp: indexed_def)
  have "length es < 2 ^ 32"
    using indexed_length [of es M idp exts] es ix index_repr_distinct [OF es(1)] by (auto simp: indexed_def)
  then have "snd (tree_index_insert ti i l d) = Inr ()"
    using index_repr_accepts [OF es(1)] es(2) comp by auto
  with d show ?thesis by (simp add: index_insert_def) (metis prod.collapse)
qed

lemma indexed_compatible:
  assumes "indexed idp exts ti M" "M j = Some l" "M j' = Some l'" "j \<noteq> j'"
    and "identity_of idp (ln_signing_identity l) exts = Inr d" "identity_of idp (ln_signing_identity l') exts = Inr d'"
  shows "compatible l d l' d'"
proof -
  from assms(1) obtain es where es: "pairwise_compatible es"
    "\<And>i l d. (i, l, d) \<in> set es \<longleftrightarrow> M (unat i) = Some l \<and> identity_of idp (ln_signing_identity l) exts = Inr d"
    by (auto simp: indexed_def)
  have lt: "j < 2 ^ 31" "j' < 2 ^ 31" using assms(1,2,3) by (auto simp: indexed_def)
  then have u: "unat (of_nat j :: u32) = j" "unat (of_nat j' :: u32) = j'" by (simp_all add: unat_of_nat_small)
  then have "(of_nat j, l, d) \<in> set es" "(of_nat j', l', d') \<in> set es" using es(2) assms by simp_all
  moreover have "(of_nat j :: u32) \<noteq> of_nat j'" using u assms(4) by metis
  ultimately show ?thesis using pairwise_compatible_in [OF es(1)] by blast
qed

end
