(* ===== verification/BatchEdit.thy ===== *)
theory BatchEdit
  imports TreeKemLaws
begin

text \<open>
  Editing a ratchet tree in a batch (\<^verbatim>\<open>batch_edit\<close> of \<^verbatim>\<open>mls-rs/src/tree_kem/mod.rs\<close>): what the edit does to the leaves,
  that it keeps the invariant of the tree and the cached hashes, and the case in which it does not, the reverting of
  updates.
\<close>

section \<open>The invariant of a tree\<close>

definition tree_inv ::
    "identity_provider \<Rightarrow> extension_list \<Rightarrow> nat set \<Rightarrow> tree_kem_public \<Rightarrow> bool" where
  "tree_inv idp exts H tree \<longleftrightarrow>
     wf_nodes H (tk_nodes tree) \<and> length (tk_nodes tree) < 2 ^ 31 \<and>
     indexed idp exts (tk_index tree) (leaf_of (tk_nodes tree))"

text \<open>Only the leaves \<open>ls\<close> and nodes above them differ.\<close>

definition edits :: "leaf_index list \<Rightarrow> node_vec \<Rightarrow> node_vec \<Rightarrow> bool" where
  "edits ls nodes nodes' \<longleftrightarrow>
     (\<forall>k i. slot nodes' (node_at k i) \<noteq> slot nodes (node_at k i) \<longrightarrow> over_leaf (map unat ls) k i)"

definition same_parents :: "node_vec \<Rightarrow> node_vec \<Rightarrow> bool" where
  "same_parents nodes nodes' \<longleftrightarrow> (\<forall>k i. slot nodes' (node_at (Suc k) i) = slot nodes (node_at (Suc k) i))"

lemma edits_iff:
  "edits ls nodes nodes' \<longleftrightarrow>
     (\<forall>k i. slot nodes' (node_at k i) = slot nodes (node_at k i) \<or> (\<exists>l\<in>set ls. i = unat l div 2 ^ k))"
  unfolding edits_def over_leaf_def by (simp add: image_image) blast

lemma edits_refl: "edits ls nodes nodes"
  by (simp add: edits_def)

lemma edits_trans: "edits ls a b \<Longrightarrow> edits ls' b c \<Longrightarrow> set ls \<union> set ls' \<subseteq> set ls'' \<Longrightarrow> edits ls'' a c"
  unfolding edits_iff
proof (intro allI)
  fix k i
  assume ab: "\<forall>k i. slot b (node_at k i) = slot a (node_at k i) \<or> (\<exists>l\<in>set ls. i = unat l div 2 ^ k)"
    and bc: "\<forall>k i. slot c (node_at k i) = slot b (node_at k i) \<or> (\<exists>l\<in>set ls'. i = unat l div 2 ^ k)"
    and sub: "set ls \<union> set ls' \<subseteq> set ls''"
  from ab [rule_format, of k i] bc [rule_format, of k i] sub
  show "slot c (node_at k i) = slot a (node_at k i) \<or> (\<exists>l\<in>set ls''. i = unat l div 2 ^ k)" by auto
qed

lemma edits_mono: "edits ls a b \<Longrightarrow> set ls \<subseteq> set ls' \<Longrightarrow> edits ls' a b"
  using edits_trans [OF _ edits_refl, of ls a b "[]" ls'] by simp

lemma edits_leafs:
  assumes "wf_nodes H nodes" "wf_nodes H' nodes'" "same_parents nodes nodes'"
    and "\<And>j. j \<notin> unat ` set ls \<Longrightarrow> leaf_of nodes' j = leaf_of nodes j"
  shows "edits ls nodes nodes'"
proof -
  have "slot ns (2 * j) = map_option Leaf (leaf_of ns j)" if "wf_nodes H ns" for H ns j
    using wf_leaf [OF that, of j] by (cases "slot ns (2 * j)") (auto simp: leaf_of_def)
  then have "slot nodes' (2 * j) = slot nodes (2 * j)" if "j \<notin> unat ` set ls" for j
    using assms that by metis
  then have "slot nodes' (node_at k i) = slot nodes (node_at k i) \<or> (\<exists>l\<in>set ls. i = unat l div 2 ^ k)" for k i
    using assms(3) by (cases k) (auto simp: same_parents_def node_at_0)
  then show ?thesis by (simp add: edits_iff)
qed

lemma over_leaf_path: "over_leaf [unat l] k (unat l div 2 ^ k)"
  by (simp add: over_leaf_def)

lemma edits_path:
  assumes "\<And>n. n \<noteq> 2 * unat l \<Longrightarrow> n \<notin> ancestors (unat l) \<Longrightarrow> slot nodes' n = slot nodes n"
  shows "edits [l] nodes nodes'"
  unfolding edits_def
proof (intro allI impI)
  fix k i assume "slot nodes' (node_at k i) \<noteq> slot nodes (node_at k i)"
  then have "node_at k i = 2 * unat l \<or> node_at k i \<in> ancestors (unat l)" using assms by blast
  then have "i = unat l div 2 ^ k"
  proof (cases k)
    case 0
    with \<open>node_at k i = 2 * unat l \<or> node_at k i \<in> ancestors (unat l)\<close> show ?thesis
      using even_not_ancestor by (auto simp: node_at_0)
  next
    case (Suc k')
    with \<open>node_at k i = 2 * unat l \<or> node_at k i \<in> ancestors (unat l)\<close> odd_node_at [of k' i] show ?thesis
      by (auto simp: ancestors_iff simp del: power_Suc)
  qed
  then show "over_leaf (map unat [l]) k i" by (simp add: over_leaf_def)
qed

section \<open>Removing\<close>

lemma blank_leaf_inv:
  assumes inv: "tree_inv idp exts H tree" and l: "unat l < 2 ^ 31"
    and blank: "blank_leaf_node (tk_nodes tree) l = (nodes, Inr old)"
    and d: "identity_of idp (ln_signing_identity old) exts = Inr d"
    and tree': "tree' = tree\<lparr>tk_nodes := nodes, tk_index := tree_index_remove (tk_index tree) old d\<rparr>"
  shows "tree_inv idp exts (insert (unat l) H) tree'" "unat l \<notin> H" "leaf_of (tk_nodes tree) (unat l) = Some old"
    "leaf_of nodes = (leaf_of (tk_nodes tree))(unat l := None)" "2 * unat l < length nodes"
    "same_parents (tk_nodes tree) nodes" "length nodes = length (tk_nodes tree)"
proof -
  note b = blank_leaf_node_Inr [OF blank l]
  from inv have wf: "wf_nodes H (tk_nodes tree)" by (simp add: tree_inv_def)
  show "leaf_of (tk_nodes tree) (unat l) = Some old" by (rule b)
  show "unat l \<notin> H" "leaf_of nodes = (leaf_of (tk_nodes tree))(unat l := None)"
    using wf_blank_leaf [OF wf b(2)] b(1) by simp_all
  then have "indexed idp exts (tree_index_remove (tk_index tree) old d) (leaf_of nodes)"
    using indexed_remove [of idp exts "tk_index tree" "leaf_of (tk_nodes tree)" l old d] b(2) d inv
    by (simp add: tree_inv_def)
  then show "tree_inv idp exts (insert (unat l) H) tree'"
    using wf_blank_leaf(1) [OF wf b(2)] b(1) inv by (simp add: tree_inv_def tree')
  show "same_parents (tk_nodes tree) nodes" by (simp add: same_parents_def b(1) slot_leaf_parent)
qed (use blank_leaf_node_Inr [OF blank l] in simp_all)

lemma blank_path_inv:
  assumes inv: "tree_inv idp exts H tree" and l: "2 * unat l < length (tk_nodes tree)"
    and blank: "blank_direct_path (tk_nodes tree) l = Inr nodes"
  shows "tree_inv idp exts (H - {unat l}) (tree\<lparr>tk_nodes := nodes\<rparr>)" "edits [l] (tk_nodes tree) nodes"
    "leaf_of nodes = leaf_of (tk_nodes tree)" "length nodes = length (tk_nodes tree)"
proof -
  from inv have wf: "wf_nodes H (tk_nodes tree)" and len: "length (tk_nodes tree) < 2 ^ 32"
    by (simp_all add: tree_inv_def)
  obtain nodes' where "blank_direct_path (tk_nodes tree) l = Inr nodes'" "length nodes' = length (tk_nodes tree)"
    "\<forall>n. slot nodes' n = (if n \<in> ancestors (unat l) then None else slot (tk_nodes tree) n)"
    by (rule blank_direct_path_slots [OF l len])
  moreover from this blank have "nodes' = nodes" by simp
  ultimately have nodes: "length nodes = length (tk_nodes tree)"
    "\<And>n. slot nodes n = (if n \<in> ancestors (unat l) then None else slot (tk_nodes tree) n)" by blast+
  note w = wf_blank_path [OF wf nodes(2,1)]
  show "tree_inv idp exts (H - {unat l}) (tree\<lparr>tk_nodes := nodes\<rparr>)" using inv w nodes(1) by (simp add: tree_inv_def)
  show "edits [l] (tk_nodes tree) nodes" by (rule edits_path) (simp add: nodes(2))
  show "leaf_of nodes = leaf_of (tk_nodes tree)" by (rule w)
  show "length nodes = length (tk_nodes tree)" by (rule nodes)
qed

lemma apply_remove_inv:
  assumes inv: "tree_inv idp exts {} tree" and l: "unat l < 2 ^ 31"
    and run: "apply_remove tree l p by_val bundle exts idp filtering = Inr (tree', bundle')"
  shows "tree_inv idp exts {} tree' \<and> length (tk_nodes tree') = length (tk_nodes tree) \<and>
    (leaf_of (tk_nodes tree) (unat l) \<noteq> None \<and> bundle' = bundle \<and> edits [l] (tk_nodes tree) (tk_nodes tree') \<and>
       leaf_of (tk_nodes tree') = (leaf_of (tk_nodes tree))(unat l := None) \<or>
     filtering \<and> tree' = tree \<and> bundle' = bundle\<lparr>removals := remove_at p (removals bundle)\<rparr>)"
proof -
  obtain nodes r where b: "blank_leaf_node (tk_nodes tree) l = (nodes, r)" by (cases "blank_leaf_node (tk_nodes tree) l")
  show ?thesis
  proof (cases r)
    case (Inl e)
    have "nodes = tk_nodes tree"
      using blank_leaf_node_Inl [OF b [unfolded Inl] l] inv by (auto simp: tree_inv_def intro: wf_leaf)
    with run b Inl inv show ?thesis by (auto simp: apply_remove_def split: if_splits)
  next
    case (Inr old)
    with run b obtain nodes' d where n: "blank_direct_path nodes l = Inr nodes'"
      "identity_of idp (ln_signing_identity old) exts = Inr d" "bundle' = bundle"
      "tree' = tree\<lparr>tk_nodes := nodes', tk_index := tree_index_remove (tk_index tree) old d\<rparr>"
      by (auto simp: apply_remove_def bindR_def split: sum.splits)
    define t where "t = tree\<lparr>tk_nodes := nodes, tk_index := tree_index_remove (tk_index tree) old d\<rparr>"
    note 1 = blank_leaf_inv [OF inv l b [unfolded Inr] n(2) t_def]
    have "2 * unat l < length (tk_nodes t)" "blank_direct_path (tk_nodes t) l = Inr nodes'" using 1(5) n(1) by (simp_all add: t_def)
    note 2 = blank_path_inv [OF 1(1) this]
    have t': "tree' = t\<lparr>tk_nodes := nodes'\<rparr>" by (simp add: n(4) t_def)
    have "edits [l] (tk_nodes tree) nodes"
      using inv 1 by (intro edits_leafs [of "{}" _ "{unat l}"]) (auto simp: tree_inv_def t_def)
    moreover have "edits [l] nodes nodes'" using 2(2) by (simp add: t_def)
    ultimately have "edits [l] (tk_nodes tree) nodes'" by (rule edits_trans) simp
    moreover have "tree_inv idp exts {} tree'" "length nodes' = length (tk_nodes tree)"
      "leaf_of nodes' = (leaf_of (tk_nodes tree))(unat l := None)"
      using 2 1(4,7) by (simp_all add: t') (simp_all add: t_def)
    ultimately show ?thesis using 1(3) n(3) by (simp add: n(4))
  qed
qed

definition remove_step ::
    "extension_list \<Rightarrow> identity_provider \<Rightarrow> bool \<Rightarrow> tree_kem_public \<times> proposal_bundle \<Rightarrow> nat \<Rightarrow>
     (tree_kem_public \<times> proposal_bundle) res" where
  "remove_step exts idp filtering = (\<lambda>(tree, bundle) i.
     bindR (index_or_panic (removals bundle) i) (\<lambda>p.
       apply_remove tree (pi_proposal p) i (is_by_value p) bundle exts idp filtering))"

definition removed_leafs :: "leaf_index proposal_info list \<Rightarrow> nat set" where
  "removed_leafs ps = unat ` pi_proposal ` set ps"

lemma apply_removes_inv:
  assumes "tree_inv idp exts {} tree" "\<forall>p\<in>set (removals bundle). unat (pi_proposal p) < 2 ^ 31" "n \<le> length (removals bundle)"
    and "foldR (remove_step exts idp filtering) (tree, bundle) (rev [0..<n]) = Inr (tree', bundle')"
  shows "\<exists>kept. bundle' = bundle\<lparr>removals := kept @ drop n (removals bundle)\<rparr> \<and> set kept \<subseteq> set (take n (removals bundle)) \<and>
    tree_inv idp exts {} tree' \<and> length (tk_nodes tree') = length (tk_nodes tree) \<and>
    edits (map pi_proposal kept) (tk_nodes tree) (tk_nodes tree') \<and>
    leaf_of (tk_nodes tree') = leaf_of (tk_nodes tree) |` (- removed_leafs kept) \<and>
    (\<not> filtering \<longrightarrow> kept = take n (removals bundle))"
  using assms
proof (induction n arbitrary: tree "bundle")
  case 0
  then show ?case by (simp add: edits_refl removed_leafs_def restrict_map_def)
next
  case (Suc n)
  define p where "p = removals bundle ! n"
  from Suc.prems have n: "n < length (removals bundle)" by simp
  then have bound: "unat (pi_proposal p) < 2 ^ 31" using Suc.prems(2) by (simp add: p_def)
  from Suc.prems(4) n obtain t b where step:
    "apply_remove tree (pi_proposal p) n (is_by_value p) bundle exts idp filtering = Inr (t, b)"
    and rest: "foldR (remove_step exts idp filtering) (t, b) (rev [0..<n]) = Inr (tree', bundle')"
    by (auto simp: remove_step_def index_or_panic_def get_at_def p_def)
  note inv = apply_remove_inv [OF Suc.prems(1) bound step]
  show ?case
  proof (cases "leaf_of (tk_nodes tree) (unat (pi_proposal p)) \<noteq> None \<and> b = bundle \<and>
      edits [pi_proposal p] (tk_nodes tree) (tk_nodes t) \<and>
      leaf_of (tk_nodes t) = (leaf_of (tk_nodes tree))(unat (pi_proposal p) := None)")
    case True
    then have b: "b = bundle" by blast
    from Suc.IH [OF _ Suc.prems(2) _ rest [unfolded b]] inv n obtain kept where k: "bundle' = bundle\<lparr>removals := kept @ drop n (removals bundle)\<rparr>"
      "set kept \<subseteq> set (take n (removals bundle))" "tree_inv idp exts {} tree'" "length (tk_nodes tree') = length (tk_nodes t)"
      "edits (map pi_proposal kept) (tk_nodes t) (tk_nodes tree')"
      "leaf_of (tk_nodes tree') = leaf_of (tk_nodes t) |` (- removed_leafs kept)" "\<not> filtering \<longrightarrow> kept = take n (removals bundle)"
      using less_imp_le by blast
    have d: "drop n (removals bundle) = p # drop (Suc n) (removals bundle)" using n by (simp add: p_def Cons_nth_drop_Suc)
    have t: "take (Suc n) (removals bundle) = take n (removals bundle) @ [p]" using n by (simp add: p_def take_Suc_conv_app_nth)
    have "edits (map pi_proposal (kept @ [p])) (tk_nodes tree) (tk_nodes tree')"
      using True k(5) by (elim conjE) (rule edits_trans, assumption+, auto)
    moreover have "leaf_of (tk_nodes tree') = leaf_of (tk_nodes tree) |` (- removed_leafs (kept @ [p]))"
      using True k(6) by (auto simp: removed_leafs_def restrict_map_def)
    moreover have "set (kept @ [p]) \<subseteq> set (take (Suc n) (removals bundle))" using k(2) t by auto
    ultimately show ?thesis using k inv d t by (intro exI [of _ "kept @ [p]"]) simp
  next
    case False
    with inv have f: "filtering" "t = tree" "b = bundle\<lparr>removals := remove_at n (removals bundle)\<rparr>" by blast+
    have r: "removals b = take n (removals bundle) @ drop (Suc n) (removals bundle)"
      using n by (simp add: f(3) remove_at_def)
    have "\<forall>p\<in>set (removals b). unat (pi_proposal p) < 2 ^ 31"
      using Suc.prems(2) by (auto simp: r dest: in_set_takeD in_set_dropD)
    moreover have "n \<le> length (removals b)" using n by (simp add: r)
    ultimately obtain kept where k:
      "bundle' = b\<lparr>removals := kept @ drop n (removals b)\<rparr>"
      "set kept \<subseteq> set (take n (removals b))" "tree_inv idp exts {} tree'" "length (tk_nodes tree') = length (tk_nodes tree)"
      "edits (map pi_proposal kept) (tk_nodes tree) (tk_nodes tree')"
      "leaf_of (tk_nodes tree') = leaf_of (tk_nodes tree) |` (- removed_leafs kept)"
      using Suc.IH [OF Suc.prems(1) _ _ rest [unfolded f(2)]] by blast
    then have "set kept \<subseteq> set (take (Suc n) (removals bundle))"
      using n set_take_subset_set_take [of n "Suc n" "removals bundle"] by (auto simp: r)
    moreover have "drop n (remove_at n (removals bundle)) = drop (Suc n) (removals bundle)" using n by (simp add: remove_at_def)
    ultimately show ?thesis using k f by (intro exI [of _ kept]) simp
  qed
qed

section \<open>Updating\<close>

definition hole_set :: "partial_update list \<Rightarrow> nat set" where
  "hole_set us = unat ` pu_index ` set us"

lemma blank_updated_inv:
  assumes "tree_inv idp exts (hole_set part) tree" "\<forall>x\<in>set xs. unat (snd (snd x)) < 2 ^ 31" "distinct (map pu_index part)"
    and "foldR (blank_updated exts idp filtering) (tree, part) xs = Inr (tree', part')"
  shows "\<exists>us. part' = part @ us \<and> tree_inv idp exts (hole_set part') tree' \<and> distinct (map pu_index part') \<and>
    same_parents (tk_nodes tree) (tk_nodes tree') \<and> length (tk_nodes tree') = length (tk_nodes tree) \<and>
    leaf_of (tk_nodes tree') = leaf_of (tk_nodes tree) |` (- hole_set us) \<and> length us \<le> length xs \<and>
    (\<forall>u\<in>set us. leaf_of (tk_nodes tree) (unat (pu_index u)) = Some (pu_old u) \<and> unat (pu_index u) < 2 ^ 31) \<and>
    (\<not> filtering \<longrightarrow> map (\<lambda>u. (pu_index u, pu_new u)) us = map (\<lambda>(i, p, l). (l, pi_proposal p)) xs)"
  using assms
proof (induction xs arbitrary: tree part)
  case Nil
  then show ?case by (simp add: same_parents_def hole_set_def restrict_map_def)
next
  case (Cons x xs)
  obtain i p l where x: "x = (i, p, l)" by (cases x)
  obtain nodes r where b: "blank_leaf_node (tk_nodes tree) l = (nodes, r)" by (cases "blank_leaf_node (tk_nodes tree) l")
  from Cons.prems(4) obtain s where step: "blank_updated exts idp filtering (tree, part) x = Inr s"
    and rest: "foldR (blank_updated exts idp filtering) s xs = Inr (tree', part')" by auto
  have l: "unat l < 2 ^ 31" and xs: "\<forall>x\<in>set xs. unat (snd (snd x)) < 2 ^ 31" using Cons.prems(2) x by auto
  show ?case
  proof (cases r)
    case (Inl e)
    have same: "nodes = tk_nodes tree"
      using blank_leaf_node_Inl [OF b [unfolded Inl] l] Cons.prems(1) by (auto simp: tree_inv_def intro: wf_leaf)
    from step b Inl have f: "filtering" and s: "s = (tree, part)"
      by (auto simp: x blank_updated_def same split: if_splits)
    from Cons.IH [OF Cons.prems(1) xs Cons.prems(3) rest [unfolded s]] obtain us where
      "part' = part @ us" "tree_inv idp exts (hole_set part') tree'" "distinct (map pu_index part')"
      "same_parents (tk_nodes tree) (tk_nodes tree')" "length (tk_nodes tree') = length (tk_nodes tree)"
      "leaf_of (tk_nodes tree') = leaf_of (tk_nodes tree) |` (- hole_set us)" "length us \<le> length xs"
      "\<forall>u\<in>set us. leaf_of (tk_nodes tree) (unat (pu_index u)) = Some (pu_old u) \<and> unat (pu_index u) < 2 ^ 31"
      by blast
    with f show ?thesis by (intro exI [of _ us]) simp
  next
    case (Inr old)
    define u where "u = \<lparr>pu_index = l, pu_old = old, pu_new = pi_proposal p, pu_pos = i\<rparr>"
    from step b Inr obtain d where d: "identity_of idp (ln_signing_identity old) exts = Inr d"
      and s: "s = (tree\<lparr>tk_nodes := nodes, tk_index := tree_index_remove (tk_index tree) old d\<rparr>, part @ [u])"
      by (auto simp: x blank_updated_def u_def)
    define t where "t = tree\<lparr>tk_nodes := nodes, tk_index := tree_index_remove (tk_index tree) old d\<rparr>"
    note 1 = blank_leaf_inv [OF Cons.prems(1) l b [unfolded Inr] d t_def]
    have "tree_inv idp exts (hole_set (part @ [u])) t" using 1(1) by (simp add: hole_set_def u_def)
    moreover have "distinct (map pu_index (part @ [u]))" using Cons.prems(3) 1(2) by (auto simp: hole_set_def u_def)
    ultimately obtain us where us: "part' = (part @ [u]) @ us" "tree_inv idp exts (hole_set part') tree'"
      "distinct (map pu_index part')" "same_parents (tk_nodes t) (tk_nodes tree')" "length (tk_nodes tree') = length (tk_nodes t)"
      "leaf_of (tk_nodes tree') = leaf_of (tk_nodes t) |` (- hole_set us)" "length us \<le> length xs"
      "\<forall>u\<in>set us. leaf_of (tk_nodes t) (unat (pu_index u)) = Some (pu_old u) \<and> unat (pu_index u) < 2 ^ 31"
      "\<not> filtering \<longrightarrow> map (\<lambda>u. (pu_index u, pu_new u)) us = map (\<lambda>(i, p, l). (l, pi_proposal p)) xs"
      using Cons.IH [OF _ xs _ rest [unfolded s, folded t_def]] by blast
    have nodes: "tk_nodes t = nodes" by (simp add: t_def)
    have "same_parents (tk_nodes tree) (tk_nodes tree')" using 1(6) us(4) by (simp add: same_parents_def nodes)
    moreover have "leaf_of (tk_nodes tree') = leaf_of (tk_nodes tree) |` (- hole_set (u # us))"
      unfolding us(6) nodes 1(4) by (auto simp: hole_set_def u_def restrict_map_def)
    moreover have "leaf_of (tk_nodes tree) (unat (pu_index v)) = Some (pu_old v) \<and> unat (pu_index v) < 2 ^ 31" if "v \<in> set (u # us)" for v
      using that us(8) 1(3,4) l by (auto simp: nodes u_def split: if_splits)
    ultimately show ?thesis using us 1(7) by (intro exI [of _ "u # us"]) (simp add: x nodes u_def)
  qed
qed

lemma put_leaf_inv:
  assumes inv: "tree_inv idp exts H tree" and l: "unat l \<in> H"
    and ins: "index_insert (tk_index tree) leaf l idp exts = (ti, Inr ())"
  obtains tree' where "put_leaf (tree\<lparr>tk_index := ti\<rparr>) l leaf = Inr tree'" "tree_inv idp exts (H - {unat l}) tree'"
    "leaf_of (tk_nodes tree') = (leaf_of (tk_nodes tree))(unat l \<mapsto> leaf)" "same_parents (tk_nodes tree) (tk_nodes tree')"
    "length (tk_nodes tree') = length (tk_nodes tree)"
proof -
  from inv have wf: "wf_nodes H (tk_nodes tree)" by (simp add: tree_inv_def)
  then have lt: "2 * unat l < length (tk_nodes tree)" and free: "leaf_of (tk_nodes tree) (unat l) = None"
    using l by (auto simp: wf_nodes_def leaf_of_def)
  define nodes where "nodes = (tk_nodes tree)[2 * unat l := Some (Leaf leaf)]"
  have "insert_leaf (tk_nodes tree) l leaf = Inr nodes"
    using lt by (auto simp: insert_leaf_def Let_def push_bit_eq_mult mult.commute nodes_def)
  moreover note w = wf_put_leaf [OF wf l, of leaf, folded nodes_def]
  moreover have "indexed idp exts ti (leaf_of nodes)"
    using indexed_insert [of idp exts "tk_index tree" "leaf_of (tk_nodes tree)" l leaf ti] free ins inv lt
    by (simp add: tree_inv_def w(2))
  moreover have "same_parents (tk_nodes tree) nodes" by (simp add: same_parents_def nodes_def slot_leaf_parent)
  ultimately show thesis using inv
    by (intro that [of "tree\<lparr>tk_index := ti, tk_nodes := nodes\<rparr>"]) (simp_all add: put_leaf_def tree_inv_def, simp_all add: nodes_def)
qed

text \<open>Leaves put at the given positions.\<close>

definition put_leafs :: "(leaf_index \<times> leaf_node) list \<Rightarrow> (nat \<rightharpoonup> leaf_node) \<Rightarrow> nat \<rightharpoonup> leaf_node" where
  "put_leafs ls M = foldl (\<lambda>M (i, l). M(unat i \<mapsto> l)) M ls"

definition put_updates :: "partial_update list \<Rightarrow> (nat \<rightharpoonup> leaf_node) \<Rightarrow> nat \<rightharpoonup> leaf_node" where
  "put_updates us M = put_leafs (map (\<lambda>u. (pu_index u, pu_new u)) us) M"

lemma put_updates_fold: "put_updates us M = foldl (\<lambda>M u. M(unat (pu_index u) \<mapsto> pu_new u)) M us"
  unfolding put_updates_def put_leafs_def by (induction us arbitrary: M) simp_all

lemma put_updates_add: "put_updates us M = M ++ put_updates us Map.empty"
proof (induction us arbitrary: M)
  case (Cons u us)
  have *: "put_updates (u # us) M = put_updates us (M(unat (pu_index u) \<mapsto> pu_new u))" for M by (simp add: put_updates_fold)
  have "M(j \<mapsto> x) ++ N = M ++ ([j \<mapsto> x] ++ N)" for M N :: "nat \<rightharpoonup> leaf_node" and j x
    by (rule HOL.ext) (simp add: map_add_def split: option.splits)
  then show ?case unfolding * using Cons.IH by metis
qed (simp add: put_updates_fold)

lemma dom_put_updates: "dom (put_updates us Map.empty) = hole_set us"
proof (induction us rule: rev_induct)
  case (snoc u us)
  have "put_updates (us @ [u]) Map.empty = (put_updates us Map.empty)(unat (pu_index u) \<mapsto> pu_new u)"
    by (simp add: put_updates_fold)
  then have "dom (put_updates (us @ [u]) Map.empty) = insert (unat (pu_index u)) (dom (put_updates us Map.empty))"
    by (simp only: dom_fun_upd) simp
  with snoc show ?case by (simp add: hole_set_def)
qed (simp add: put_updates_fold hole_set_def)

lemma put_updates_restrict: "put_updates us (M |` (- hole_set us)) = put_updates us M"
  unfolding put_updates_add [of us M] put_updates_add [of us "M |` _"] dom_put_updates [symmetric]
  by (rule HOL.ext) (simp add: map_add_def restrict_map_def domIff split: option.splits)

lemma put_updates_other: "j \<notin> hole_set us \<Longrightarrow> put_updates us M j = M j"
  unfolding put_updates_add [of us M] by (simp add: map_add_dom_app_simps dom_put_updates)

lemma apply_updates_strict:
  assumes "tree_inv idp exts (hole_set us) tree" "distinct (map pu_index us)"
    and "apply_updates exts idp False ic us tree replaced bad = Inr (tree', updated, bad')"
  shows "tree_inv idp exts {} tree' \<and> updated = map fst replaced @ map pu_index us \<and>
    leaf_of (tk_nodes tree') = put_updates us (leaf_of (tk_nodes tree)) \<and>
    same_parents (tk_nodes tree) (tk_nodes tree') \<and> length (tk_nodes tree') = length (tk_nodes tree)"
  using assms
proof (induction us arbitrary: tree replaced)
  case Nil
  then show ?case by (simp add: hole_set_def same_parents_def put_updates_fold)
next
  case (Cons u us)
  let ?l = "pu_index u"
  obtain ti r where ins: "index_insert (tk_index tree) (pu_new u) ?l idp exts = (ti, r)"
    by (cases "index_insert (tk_index tree) (pu_new u) ?l idp exts")
  with Cons.prems(3) have r: "r = Inr ()" by (cases r) auto
  obtain t where t: "put_leaf (tree\<lparr>tk_index := ti\<rparr>) ?l (pu_new u) = Inr t" "tree_inv idp exts (hole_set (u # us) - {unat ?l}) t"
    "leaf_of (tk_nodes t) = (leaf_of (tk_nodes tree))(unat ?l \<mapsto> pu_new u)" "same_parents (tk_nodes tree) (tk_nodes t)"
    "length (tk_nodes t) = length (tk_nodes tree)"
    by (rule put_leaf_inv [OF Cons.prems(1) _ ins [unfolded r]]) (simp add: hole_set_def)
  have "hole_set (u # us) - {unat ?l} = hole_set us" using Cons.prems(2) by (auto simp: hole_set_def rev_image_eqI)
  with Cons.IH [of t "replaced @ [(?l, pu_old u)]"] Cons.prems(2,3) ins r t
  show ?case by (simp add: same_parents_def put_updates_fold fun_upd_def)
qed

lemma apply_updates_one:
  assumes inv: "tree_inv idp exts (hole_set [u]) tree"
    and old: "identity_of idp (ln_signing_identity (pu_old u)) exts = Inr d"
      "\<And>j l' d'. leaf_of (tk_nodes tree) j = Some l' \<Longrightarrow> identity_of idp (ln_signing_identity l') exts = Inr d' \<Longrightarrow>
         compatible (pu_old u) d l' d'"
    and run: "apply_updates exts idp filtering ic [u] tree [] [] = Inr (tree', updated, bad')"
  shows "tree_inv idp exts {} tree' \<and> same_parents (tk_nodes tree) (tk_nodes tree') \<and> length (tk_nodes tree') = length (tk_nodes tree) \<and>
    (updated = [pu_index u] \<and> leaf_of (tk_nodes tree') = (leaf_of (tk_nodes tree))(unat (pu_index u) \<mapsto> pu_new u) \<or>
     updated = [] \<and> leaf_of (tk_nodes tree') = (leaf_of (tk_nodes tree))(unat (pu_index u) \<mapsto> pu_old u))"
proof -
  let ?l = "pu_index u"
  have hole: "unat ?l \<in> hole_set [u]" "hole_set [u] - {unat ?l} = {}" by (auto simp: hole_set_def)
  obtain ti r where ins: "index_insert (tk_index tree) (pu_new u) ?l idp exts = (ti, r)"
    by (cases "index_insert (tk_index tree) (pu_new u) ?l idp exts")
  show ?thesis
  proof (cases r)
    case (Inr x)
    show ?thesis
      by (rule put_leaf_inv [OF inv hole(1), of "pu_new u" ti]) (use run ins Inr hole in auto)
  next
    case (Inl e)
    have inv': "tree_inv idp exts (hole_set [u]) (tree\<lparr>tk_index := ti\<rparr>)"
      using inv indexed_refused ins Inl by (auto simp: tree_inv_def)
    then obtain ti' where ins': "index_insert ti (pu_old u) ?l idp exts = (ti', Inr ())"
      using indexed_accepts [of idp exts ti "leaf_of (tk_nodes tree)" "pu_old u" d ?l] old
      by (simp add: tree_inv_def) blast
    show ?thesis
      by (rule put_leaf_inv [OF inv' hole(1), of "pu_old u" ti']) (use run ins ins' Inl hole in \<open>auto split: if_splits\<close>)
  qed
qed

lemma blank_paths_inv:
  assumes "tree_inv idp exts {} tree" "\<forall>l\<in>set ls. 2 * unat l < length (tk_nodes tree)" "blank_paths tree ls = Inr tree'"
  shows "tree_inv idp exts {} tree' \<and> edits ls (tk_nodes tree) (tk_nodes tree') \<and>
    leaf_of (tk_nodes tree') = leaf_of (tk_nodes tree) \<and> length (tk_nodes tree') = length (tk_nodes tree)"
  using assms unfolding blank_paths_def
proof (induction ls arbitrary: tree)
  case (Cons l ls)
  from Cons.prems(3) obtain nodes where b: "blank_direct_path (tk_nodes tree) l = Inr nodes"
    and rest: "foldR (\<lambda>tree index. bindR (blank_direct_path (tk_nodes tree) index) (\<lambda>nodes. Inr (tree\<lparr>tk_nodes := nodes\<rparr>)))
      (tree\<lparr>tk_nodes := nodes\<rparr>) ls = Inr tree'" by auto
  have l: "2 * unat l < length (tk_nodes tree)" using Cons.prems(2) by simp
  note 1 = blank_path_inv [OF Cons.prems(1) l b]
  have "tree_inv idp exts {} (tree\<lparr>tk_nodes := nodes\<rparr>)" "\<forall>l\<in>set ls. 2 * unat l < length (tk_nodes (tree\<lparr>tk_nodes := nodes\<rparr>))"
    using 1 Cons.prems(2) by simp_all
  note 2 = Cons.IH [OF this rest]
  then have "edits ls nodes (tk_nodes tree')" by simp
  with 1(2) have "edits (l # ls) (tk_nodes tree) (tk_nodes tree')" by (rule edits_trans) simp
  with 1 2 show ?case by simp
qed (simp add: edits_refl)

section \<open>Adding\<close>

lemma place_leaf:
  assumes wf: "wf_nodes {} nodes" and len: "length nodes + 2 < 2 ^ 31"
    and start: "\<And>b. b < unat s \<Longrightarrow> leaf_of nodes b \<noteq> None" "2 * unat s \<le> length nodes + 1"
    and l: "l = next_empty_leaf nodes s"
  obtains nodes' where "bindR (insert_leaf nodes l leaf) (\<lambda>nodes. update_unmerged nodes l) = Inr nodes'"
    "wf_nodes {} nodes'" "edits [l] nodes nodes'" "leaf_of nodes' = (leaf_of nodes)(unat l \<mapsto> leaf)"
    "leaf_of nodes (unat l) = None" "\<forall>b < unat l. leaf_of nodes b \<noteq> None"
    "length nodes' \<le> length nodes + 2" "2 * unat l < length nodes'"
proof -
  from wf have parity: "length nodes = 0 \<or> odd (length nodes)" by (simp add: wf_nodes_def)
  have s31: "unat s < 2 ^ 31" using start(2) len by simp
  have "unat l = unat (next_empty_loop nodes (2 * unat s))" using s31 by (simp add: l next_empty_leaf_def unat_node_of_leaf_small)
  from next_empty_loop_spec [OF parity _ start(2) this] len
  have spec: "unat s \<le> unat l" "slot nodes (2 * unat l) = None" "2 * unat l \<le> length nodes + 1"
    and full: "\<And>b. unat s \<le> b \<Longrightarrow> b < unat l \<Longrightarrow> slot nodes (2 * b) \<noteq> None" by auto
  have left: "leaf_of nodes b \<noteq> None" if "b < unat l" for b
    using that start(1) [of b] full [of b] wf_leaf_of [OF wf, of b] by (cases "b < unat s") auto
  obtain n1 where n1: "insert_leaf nodes l leaf = Inr n1" "\<forall>n. slot n1 n = (if n = 2 * unat l then Some (Leaf leaf) else slot nodes n)"
    "length n1 = max (length nodes) (2 * unat l + 1)" "odd (length n1)"
    by (rule insert_leaf_slots [OF spec(3) parity])
  have len1: "2 * unat l < length n1" "length n1 < 2 ^ 32" "length n1 \<le> length nodes + 2" using n1(3) spec(3) len by auto
  obtain n2 where n2: "update_unmerged n1 l = Inr n2" "length n2 = length n1"
    "\<forall>n. slot n2 n = (if n \<in> ancestors (unat l) then map_option (push_leaf l) (slot n1 n) else slot n1 n)"
    by (rule update_unmerged_slots [OF len1(1,2)])
  have slots: "slot n2 n = (if n = 2 * unat l then Some (Leaf leaf)
      else if n \<in> ancestors (unat l) then map_option (push_leaf l) (slot nodes n) else slot nodes n)" for n
    using n1(2) n2(3) even_not_ancestor by auto
  have "slot nodes (2 * b) \<noteq> None" if "b < unat l" for b using left [OF that] wf_leaf_of [OF wf] by simp
  note w = wf_add_leaf [OF wf refl spec(2) this _ slots, unfolded n2(2), OF _ n1(4)]
  show thesis
  proof (rule that [of n2])
    show "edits [l] nodes n2" by (rule edits_path) (simp add: slots)
  qed (use n1 n2 w spec(2) left len1 in \<open>simp_all add: leaf_of_def [of nodes "unat l"]\<close>)
qed

lemma add_leaf_inv:
  assumes inv: "tree_inv idp exts {} tree" and len: "length (tk_nodes tree) + 2 < 2 ^ 31"
    and start: "\<And>b. b < unat s \<Longrightarrow> leaf_of (tk_nodes tree) b \<noteq> None" "2 * unat s \<le> length (tk_nodes tree) + 1"
    and add: "add_leaf tree leaf idp exts (Some s) = (tree', r)"
  shows "tree_inv idp exts {} tree' \<and>
    (case r of
       Inl e \<Rightarrow> tk_nodes tree' = tk_nodes tree
     | Inr l \<Rightarrow> edits [l] (tk_nodes tree) (tk_nodes tree') \<and> leaf_of (tk_nodes tree) (unat l) = None \<and>
         leaf_of (tk_nodes tree') = (leaf_of (tk_nodes tree))(unat l \<mapsto> leaf) \<and>
         (\<forall>b < unat l. leaf_of (tk_nodes tree) b \<noteq> None) \<and>
         length (tk_nodes tree') \<le> length (tk_nodes tree) + 2 \<and> 2 * unat l < length (tk_nodes tree'))"
proof -
  let ?l = "next_empty_leaf (tk_nodes tree) s"
  have wf: "wf_nodes {} (tk_nodes tree)" using inv by (simp add: tree_inv_def)
  obtain nodes' where n: "bindR (insert_leaf (tk_nodes tree) ?l leaf) (\<lambda>nodes. update_unmerged nodes ?l) = Inr nodes'"
    "wf_nodes {} nodes'" "edits [?l] (tk_nodes tree) nodes'" "leaf_of nodes' = (leaf_of (tk_nodes tree))(unat ?l \<mapsto> leaf)"
    "leaf_of (tk_nodes tree) (unat ?l) = None" "\<forall>b < unat ?l. leaf_of (tk_nodes tree) b \<noteq> None"
    "length nodes' \<le> length (tk_nodes tree) + 2" "2 * unat ?l < length nodes'"
    by (rule place_leaf [OF wf len start refl, of leaf]) auto
  obtain ti q where ins: "index_insert (tk_index tree) leaf ?l idp exts = (ti, q)"
    by (cases "index_insert (tk_index tree) leaf ?l idp exts")
  show ?thesis
  proof (cases q)
    case (Inl e)
    with add ins have "tree' = tree\<lparr>tk_index := ti\<rparr>" "r = Inl e" by (simp_all add: add_leaf_def Let_def)
    moreover have "indexed idp exts ti (leaf_of (tk_nodes tree))"
      using indexed_refused ins Inl inv by (auto simp: tree_inv_def)
    ultimately show ?thesis using inv by (simp add: tree_inv_def)
  next
    case (Inr x)
    with add ins n(1) have "tree' = tree\<lparr>tk_index := ti, tk_nodes := nodes'\<rparr>" "r = Inr ?l" by (simp_all add: add_leaf_def Let_def)
    moreover have "indexed idp exts ti (leaf_of nodes')"
      using indexed_insert [of idp exts "tk_index tree" "leaf_of (tk_nodes tree)" ?l leaf ti] n(4,5,7,8) ins Inr inv len
      by (simp add: tree_inv_def)
    ultimately show ?thesis using n len by (simp add: tree_inv_def)
  qed
qed

lemma apply_add_inv:
  assumes "tree_inv idp exts {} tree" "length (tk_nodes tree) + 2 * length xs < 2 ^ 31"
    and "\<forall>b < unat s. leaf_of (tk_nodes tree) b \<noteq> None" "2 * unat s \<le> length (tk_nodes tree) + 1"
    and "foldR (apply_add exts idp filtering) (tree, s, added, bad) xs = Inr (tree', s', added', bad')"
  shows "\<exists>new. added' = added @ map fst new \<and> tree_inv idp exts {} tree' \<and>
    edits (map fst new) (tk_nodes tree) (tk_nodes tree') \<and> leaf_of (tk_nodes tree') = put_leafs new (leaf_of (tk_nodes tree)) \<and>
    (\<not> filtering \<longrightarrow> map snd new = map (\<lambda>(i, p). kp_leaf_node (pi_proposal p)) xs)"
  using assms
proof (induction xs arbitrary: tree s added bad)
  case Nil
  then show ?case by (simp add: edits_refl put_leafs_def)
next
  case (Cons x xs)
  obtain i p where x: "x = (i, p)" by (cases x)
  let ?leaf = "kp_leaf_node (pi_proposal p)"
  from Cons.prems(5) obtain st where step: "apply_add exts idp filtering (tree, s, added, bad) x = Inr st"
    and rest: "foldR (apply_add exts idp filtering) st xs = Inr (tree', s', added', bad')" by auto
  obtain t r where add: "add_leaf tree ?leaf idp exts (Some s) = (t, r)" by (cases "add_leaf tree ?leaf idp exts (Some s)")
  have len: "length (tk_nodes tree) + 2 < 2 ^ 31" using Cons.prems(2) by simp
  note inv = add_leaf_inv [OF Cons.prems(1) len Cons.prems(3) [rule_format] Cons.prems(4) add]
  show ?case
  proof (cases r)
    case (Inl e)
    with step add have st: "st = (t, s, added, bad @ [i])" and f: "filtering" by (auto simp: x apply_add_def split: if_splits)
    have "tk_nodes t = tk_nodes tree" using inv Inl by simp
    with Cons.IH [OF _ _ _ _ rest [unfolded st]] Cons.prems(2-4) inv show ?thesis using f by simp
  next
    case (Inr l)
    with step add have st: "st = (t, l, added @ [l], bad)" by (auto simp: x apply_add_def)
    from inv Inr have t: "tree_inv idp exts {} t" "edits [l] (tk_nodes tree) (tk_nodes t)"
      "leaf_of (tk_nodes t) = (leaf_of (tk_nodes tree))(unat l \<mapsto> ?leaf)"
      "\<forall>b < unat l. leaf_of (tk_nodes tree) b \<noteq> None" "length (tk_nodes t) \<le> length (tk_nodes tree) + 2" "2 * unat l < length (tk_nodes t)"
      by simp_all
    have "\<forall>b < unat l. leaf_of (tk_nodes t) b \<noteq> None" using t(3,4) by simp
    moreover have "length (tk_nodes t) + 2 * length xs < 2 ^ 31" "2 * unat l \<le> length (tk_nodes t) + 1" using Cons.prems(2) t(5,6) by simp_all
    ultimately obtain new where new: "added' = (added @ [l]) @ map fst new"
      "tree_inv idp exts {} tree'" "edits (map fst new) (tk_nodes t) (tk_nodes tree')"
      "leaf_of (tk_nodes tree') = put_leafs new (leaf_of (tk_nodes t))"
      "\<not> filtering \<longrightarrow> map snd new = map (\<lambda>(i, p). kp_leaf_node (pi_proposal p)) xs"
      using Cons.IH [OF t(1) _ _ _ rest [unfolded st]] by blast
    have "edits (map fst ((l, ?leaf) # new)) (tk_nodes tree) (tk_nodes tree')" using t(2) new(3) by (rule edits_trans) simp
    then show ?thesis using new t(3) by (intro exI [of _ "(l, ?leaf) # new"]) (simp add: x put_leafs_def fun_upd_def)
  qed
qed

section \<open>The whole batch\<close>

lemma updates_phase:
  assumes inv: "tree_inv idp exts {} tree" and bound: "\<forall>x\<in>set xs. unat (snd (snd x)) < 2 ^ 31"
    and one: "filtering \<longrightarrow> length xs \<le> 1"
    and blank: "foldR (blank_updated exts idp filtering) (tree, []) xs = Inr (t, part)"
    and upd: "apply_updates exts idp filtering (tk_index t) part t [] [] = Inr (tree', updated, bad)"
  shows "tree_inv idp exts {} tree' \<and> edits updated (tk_nodes tree) (tk_nodes tree') \<and>
    length (tk_nodes tree') = length (tk_nodes tree) \<and> (\<forall>l\<in>set updated. 2 * unat l < length (tk_nodes tree)) \<and>
    (\<not> filtering \<longrightarrow> leaf_of (tk_nodes tree') = put_leafs (map (\<lambda>(i, p, l). (l, pi_proposal p)) xs) (leaf_of (tk_nodes tree)))"
proof -
  have "tree_inv idp exts (hole_set []) tree" using inv by (simp add: hole_set_def)
  from blank_updated_inv [OF this bound _ blank]
  have p: "tree_inv idp exts (hole_set part) t" "distinct (map pu_index part)" "same_parents (tk_nodes tree) (tk_nodes t)"
    "length (tk_nodes t) = length (tk_nodes tree)" "leaf_of (tk_nodes t) = leaf_of (tk_nodes tree) |` (- hole_set part)"
    "length part \<le> length xs" "\<forall>u\<in>set part. leaf_of (tk_nodes tree) (unat (pu_index u)) = Some (pu_old u)"
    "\<not> filtering \<longrightarrow> map (\<lambda>u. (pu_index u, pu_new u)) part = map (\<lambda>(i, p, l). (l, pi_proposal p)) xs" by auto
  have "tree_inv idp exts {} tree' \<and> same_parents (tk_nodes t) (tk_nodes tree') \<and> length (tk_nodes tree') = length (tk_nodes t) \<and>
      set updated \<subseteq> pu_index ` set part \<and>
      (\<forall>j. j \<notin> unat ` set updated \<longrightarrow> leaf_of (tk_nodes tree') j = leaf_of (tk_nodes tree) j) \<and>
      (\<not> filtering \<longrightarrow> leaf_of (tk_nodes tree') = put_updates part (leaf_of (tk_nodes tree)))"
  proof (cases filtering)
    case False
    with upd have "apply_updates exts idp False (tk_index t) part t [] [] = Inr (tree', updated, bad)" by simp
    from apply_updates_strict [OF p(1,2) this] False show ?thesis
      by (simp add: p(5) put_updates_restrict) (simp add: put_updates_other hole_set_def image_image)
  next
    case True
    with one p(6) have "length part \<le> 1" by simp
    then consider "part = []" | u where "part = [u]" by (cases part) auto
    then show ?thesis
    proof cases
      case 1
      then show ?thesis using upd p(1,5) True by (simp add: hole_set_def same_parents_def restrict_map_def)
    next
      case (2 u)
      have old: "leaf_of (tk_nodes tree) (unat (pu_index u)) = Some (pu_old u)" using p(7) 2 by simp
      have ix: "indexed idp exts (tk_index tree) (leaf_of (tk_nodes tree))" using inv by (simp add: tree_inv_def)
      then obtain d where d: "identity_of idp (ln_signing_identity (pu_old u)) exts = Inr d" using old unfolding indexed_def by blast
      have comp: "compatible (pu_old u) d l' d'"
        if "leaf_of (tk_nodes t) j = Some l'" "identity_of idp (ln_signing_identity l') exts = Inr d'" for j l' d'
        using that indexed_compatible [OF ix old _ _ d, of j l' d'] p(5) 2 by (auto simp: hole_set_def restrict_map_def split: if_splits)
      have "tree_inv idp exts {} tree' \<and> same_parents (tk_nodes t) (tk_nodes tree') \<and> length (tk_nodes tree') = length (tk_nodes t) \<and>
          (updated = [pu_index u] \<and> leaf_of (tk_nodes tree') = (leaf_of (tk_nodes t))(unat (pu_index u) \<mapsto> pu_new u) \<or>
           updated = [] \<and> leaf_of (tk_nodes tree') = (leaf_of (tk_nodes t))(unat (pu_index u) \<mapsto> pu_old u))"
        by (rule apply_updates_one [OF p(1) [unfolded 2] d _ upd [unfolded 2]]) (rule comp)
      with True 2 old show ?thesis by (auto simp: p(5) hole_set_def restrict_map_def)
    qed
  qed
  moreover from this have "edits updated (tk_nodes tree) (tk_nodes tree')"
    using inv p(3) by (intro edits_leafs [of "{}" _ "{}"]) (auto simp: tree_inv_def same_parents_def)
  moreover have "2 * unat (pu_index u) < length (tk_nodes tree)" if "u \<in> set part" for u
    using p(7) that slot_SomeD [of "tk_nodes tree" "2 * unat (pu_index u)"] by (auto simp: leaf_of_def split: option.splits)
  ultimately show ?thesis using p(4,8) by (auto simp: put_updates_def)
qed

text \<open>The leaf indices a proposal bundle names are within the bound of \<^verbatim>\<open>LeafIndex\<close>.\<close>

definition bundle_bounded :: "proposal_bundle \<Rightarrow> bool" where
  "bundle_bounded bundle \<longleftrightarrow>
     (\<forall>p\<in>set (removals bundle). pi_proposal p \<le> MAX_LEAF_INDEX) \<and> (\<forall>l\<in>set (update_senders bundle). l \<le> MAX_LEAF_INDEX)"

text \<open>The leaves after a batch: removed, updated, added.\<close>

definition edited_leafs :: "proposal_bundle \<Rightarrow> leaf_index list \<Rightarrow> (nat \<rightharpoonup> leaf_node) \<Rightarrow> nat \<rightharpoonup> leaf_node" where
  "edited_leafs bundle added M =
     put_leafs (zip added (map (kp_leaf_node \<circ> pi_proposal) (additions bundle)))
       (put_leafs (map (\<lambda>(p, l). (l, pi_proposal p)) (zip (updates bundle) (update_senders bundle)))
         (M |` (- removed_leafs (removals bundle))))"

lemma le_MAX: "l \<le> MAX_LEAF_INDEX \<Longrightarrow> unat l < 2 ^ 31"
  by (simp add: MAX_LEAF_INDEX_def word_le_nat_alt)

lemma update_hashes_nodes: "update_hashes tree ls csp = Inr tree' \<Longrightarrow> tk_nodes tree' = tk_nodes tree \<and> tk_index tree' = tk_index tree"
  by (auto simp: update_hashes_def Let_def)

text \<open>No phase touches the cached hashes.\<close>

lemma reject_updates_fields:
  assumes "reject_updates updated bad bundle = Inr bundle'"
  shows "removals bundle' = removals bundle \<and> additions bundle' = additions bundle"
proof -
  have "foldR (\<lambda>bundle i. bindR (vec_remove i (update_senders bundle)) (\<lambda>senders.
      Inr (bundle\<lparr>updates := remove_at i (updates bundle), update_senders := senders\<rparr>))) b ns = Inr b' \<Longrightarrow>
      removals b' = removals b \<and> additions b' = additions b" for b ns b'
    by (induction ns arbitrary: b) force+
  with assms show ?thesis by (auto simp: reject_updates_def split: if_splits)
qed

lemma phases_keep_hashes:
  "apply_removes tree bundle exts idp filtering = Inr (t1, b1) \<Longrightarrow> tk_hashes t1 = tk_hashes tree"
  "foldR (blank_updated exts idp filtering) (tree, part) xs = Inr (t2, part') \<Longrightarrow> tk_hashes t2 = tk_hashes tree"
  "apply_updates exts idp filtering ic us tree replaced bad = Inr (t3, upd, bad') \<Longrightarrow> tk_hashes t3 = tk_hashes tree"
  "blank_paths tree ls = Inr t4 \<Longrightarrow> tk_hashes t4 = tk_hashes tree"
  "apply_adds exts idp filtering tree bundle = Inr (t5, b5, added) \<Longrightarrow> tk_hashes t5 = tk_hashes tree"
proof -
  show "tk_hashes t1 = tk_hashes tree" if "apply_removes tree bundle exts idp filtering = Inr (t1, b1)"
    using foldR_invariant [OF that [unfolded apply_removes_def], where P = "\<lambda>s. tk_hashes (fst s) = tk_hashes tree"]
    by (force simp: apply_remove_def split: prod.splits sum.splits if_splits)
  show "tk_hashes t2 = tk_hashes tree" if "foldR (blank_updated exts idp filtering) (tree, part) xs = Inr (t2, part')"
    using foldR_invariant [OF that, where P = "\<lambda>s. tk_hashes (fst s) = tk_hashes tree"]
    by (force simp: blank_updated_def split: prod.splits sum.splits if_splits)
  have put: "put_leaf t i l = Inr t' \<Longrightarrow> tk_hashes t' = tk_hashes t" for t i l t' by (auto simp: put_leaf_def)
  have puts: "foldR (\<lambda>tree (index, leaf). put_leaf tree index leaf) t ls = Inr t' \<Longrightarrow> tk_hashes t' = tk_hashes t" for t ls t'
    by (induction ls arbitrary: t) (auto dest: put)
  show "tk_hashes t3 = tk_hashes tree" if "apply_updates exts idp filtering ic us tree replaced bad = Inr (t3, upd, bad')"
    using that
    by (induction us arbitrary: tree replaced bad) (force split: prod.splits sum.splits if_splits dest: put puts)+
  show "tk_hashes t4 = tk_hashes tree" if "blank_paths tree ls = Inr t4"
    using that unfolding blank_paths_def by (induction ls arbitrary: tree) force+
  have "apply_add exts idp filtering s x = Inr s' \<Longrightarrow> tk_hashes (fst s') = tk_hashes (fst s)" for s x s'
    by (auto simp: apply_add_def add_leaf_def Let_def split: prod.splits sum.splits if_splits)
  then have "foldR (apply_add exts idp filtering) s xs = Inr s' \<Longrightarrow> tk_hashes (fst s') = tk_hashes (fst s)" for s xs s'
    by (induction xs arbitrary: s) fastforce+
  then show "tk_hashes t5 = tk_hashes tree" if "apply_adds exts idp filtering tree bundle = Inr (t5, b5, added)"
    using that by (fastforce simp: apply_adds_def)
qed

lemma zip_map_fst_snd_eq: "ys = map snd xs \<Longrightarrow> xs = zip (map fst xs) ys"
  by (simp add: zip_map_fst_snd)

lemma map_enumerate_snd: "map (\<lambda>(i, x). f x) (enumerate n xs) = map f xs"
  by (induction xs arbitrary: n) simp_all

lemma batch_edit_steps:
  assumes inv: "tree_inv idp exts {} tree" and bound: "bundle_bounded bundle"
    and size: "length (tk_nodes tree) + 2 * length (additions bundle) < 2 ^ 31"
    and one: "filtering \<longrightarrow> length (updates bundle) \<le> 1"
    and run: "batch_edit tree bundle exts idp csp filtering = Inr (tree', bundle', added)"
  obtains nodes ti ls where "update_hashes (tree\<lparr>tk_index := ti, tk_nodes := nodes\<rparr>) ls csp = Inr tree'"
    "tree_inv idp exts {} (tree\<lparr>tk_index := ti, tk_nodes := nodes\<rparr>)" "edits ls (tk_nodes tree) nodes"
    "nodes = [] \<or> last nodes \<noteq> None" "\<not> filtering \<longrightarrow> leaf_of nodes = edited_leafs bundle added (leaf_of (tk_nodes tree))"
proof -
  define xs where "xs b = enumerate 0 (zip (updates b) (update_senders b))" for b :: proposal_bundle
  from run obtain t1 b1 t2 part t3 upd bad t4 b2 t5 where
    1: "apply_removes tree bundle exts idp filtering = Inr (t1, b1)" and
    2: "foldR (blank_updated exts idp filtering) (t1, []) (xs b1) = Inr (t2, part)" and
    3: "apply_updates exts idp filtering (tk_index t2) part t2 [] [] = Inr (t3, upd, bad)" and
    4: "blank_paths t3 upd = Inr t4" and b2: "reject_updates upd bad b1 = Inr b2" and
    adds: "apply_adds exts idp filtering t4 b2 = Inr (t5, bundle', added)" and
    6: "update_hashes (t5\<lparr>tk_nodes := trim (tk_nodes t5)\<rparr>) (map pi_proposal (removals bundle') @ upd @ added) csp = Inr tree'"
    unfolding batch_edit_def xs_def by (auto simp: Let_def)
  have r1: "foldR (remove_step exts idp filtering) (tree, bundle) (rev [0..<length (removals bundle)]) = Inr (t1, b1)"
    using 1 by (simp add: apply_removes_def remove_step_def case_prod_beta')
  have "\<forall>p\<in>set (removals bundle). unat (pi_proposal p) < 2 ^ 31" using bound le_MAX unfolding bundle_bounded_def by blast
  from apply_removes_inv [OF inv this order_refl r1] obtain kept where k: "b1 = bundle\<lparr>removals := kept\<rparr>"
    "tree_inv idp exts {} t1" "length (tk_nodes t1) = length (tk_nodes tree)" "edits (map pi_proposal kept) (tk_nodes tree) (tk_nodes t1)"
    "leaf_of (tk_nodes t1) = leaf_of (tk_nodes tree) |` (- removed_leafs kept)" "\<not> filtering \<longrightarrow> kept = removals bundle" by auto
  have "\<forall>x\<in>set (xs b1). unat (snd (snd x)) < 2 ^ 31"
  proof
    fix x assume "x \<in> set (xs b1)"
    then have "snd x \<in> set (map snd (xs b1))" by simp
    then have "snd x \<in> set (zip (updates bundle) (update_senders bundle))" using k(1) by (simp add: xs_def del: set_map)
    then have "snd (snd x) \<in> set (update_senders bundle)" by (metis prod.collapse set_zip_rightD)
    then show "unat (snd (snd x)) < 2 ^ 31" using bound le_MAX unfolding bundle_bounded_def by blast
  qed
  moreover have "filtering \<longrightarrow> length (xs b1) \<le> 1" using one k(1) by (auto simp: xs_def)
  ultimately have u: "tree_inv idp exts {} t3" "edits upd (tk_nodes t1) (tk_nodes t3)" "length (tk_nodes t3) = length (tk_nodes t1)"
    "\<forall>l\<in>set upd. 2 * unat l < length (tk_nodes t1)"
    "\<not> filtering \<longrightarrow> leaf_of (tk_nodes t3) = put_leafs (map (\<lambda>(i, p, l). (l, pi_proposal p)) (xs b1)) (leaf_of (tk_nodes t1))"
    using updates_phase [OF k(2) _ _ 2 3] by blast+
  have "\<forall>l\<in>set upd. 2 * unat l < length (tk_nodes t3)" using u(3,4) by simp
  note p = blank_paths_inv [OF u(1) this 4]
  have b2': "removals b2 = kept" "additions b2 = additions bundle" using b2 k(1) reject_updates_fields by auto
  from adds obtain s bad5 where 5: "foldR (apply_add exts idp filtering) (t4, 0, [], []) (enumerate 0 (additions b2)) = Inr (t5, s, added, bad5)"
    "removals bundle' = removals b2" by (auto simp: apply_adds_def)
  from apply_add_inv [OF _ _ _ _ 5(1)] p u(3) k(3) size b2' obtain new where a: "added = map fst new" "tree_inv idp exts {} t5"
    "edits (map fst new) (tk_nodes t4) (tk_nodes t5)" "leaf_of (tk_nodes t5) = put_leafs new (leaf_of (tk_nodes t4))"
    "\<not> filtering \<longrightarrow> map snd new = map (\<lambda>(i, p). kp_leaf_node (pi_proposal p)) (enumerate 0 (additions bundle))" by auto
  let ?ns = "trim (tk_nodes t5)"
  let ?ls = "map pi_proposal kept @ upd @ added"
  have "edits (map pi_proposal kept @ upd) (tk_nodes tree) (tk_nodes t4)"
    using edits_trans [OF k(4) edits_trans [OF u(2), of upd "tk_nodes t4" upd]] p by simp
  then have "edits ?ls (tk_nodes tree) (tk_nodes t5)" using a(1,3) by (auto intro: edits_trans)
  then have e: "edits ?ls (tk_nodes tree) ?ns" by (simp add: edits_def trim_slots)
  have wf: "wf_nodes {} (tk_nodes t5)" using a(2) by (simp add: tree_inv_def)
  have "tk_hashes t5 = tk_hashes tree"
    using phases_keep_hashes(1) [OF 1] phases_keep_hashes(2) [OF 2] phases_keep_hashes(3) [OF 3] phases_keep_hashes(4) [OF 4]
      phases_keep_hashes(5) [OF adds] by simp
  then have t: "t5\<lparr>tk_nodes := ?ns\<rparr> = tree\<lparr>tk_index := tk_index t5, tk_nodes := ?ns\<rparr>" by simp
  have "leaf_of ?ns = edited_leafs bundle added (leaf_of (tk_nodes tree))" if "\<not> filtering"
  proof -
    have "map snd new = map (kp_leaf_node \<circ> pi_proposal) (additions bundle)"
      using that a(5) map_enumerate_snd [of "kp_leaf_node \<circ> pi_proposal" 0 "additions bundle"] by (simp add: case_prod_beta')
    then have "new = zip added (map (kp_leaf_node \<circ> pi_proposal) (additions bundle))"
      unfolding a(1) by (intro zip_map_fst_snd_eq) simp
    moreover have "map (\<lambda>(i, p, l). (l, pi_proposal p)) (xs b1) = map (\<lambda>(p, l). (l, pi_proposal p)) (zip (updates bundle) (update_senders bundle))"
      using k(1) by (simp add: xs_def map_enumerate_snd)
    ultimately show ?thesis using that k(5,6) u(5) p a(4) wf_trim(2) [OF wf] by (simp add: edited_leafs_def)
  qed
  moreover have "tree_inv idp exts {} (t5\<lparr>tk_nodes := ?ns\<rparr>)"
    using a(2) wf_trim [OF wf] trim_slots(3) [of "tk_nodes t5"] by (simp add: tree_inv_def)
  moreover have "?ns = [] \<or> last ?ns \<noteq> None" using trim_slots(2) by blast
  moreover have "update_hashes (t5\<lparr>tk_nodes := ?ns\<rparr>) ?ls csp = Inr tree'" using 6 5(2) b2' by simp
  ultimately show thesis using e by (intro that [of ?ns "tk_index t5" ?ls, folded t]) blast+
qed

section \<open>Properties\<close>

lemma batch_edit_inv:
  assumes "tree_inv idp exts {} tree" "bundle_bounded bundle"
    and "length (tk_nodes tree) + 2 * length (additions bundle) < 2 ^ 31"
    and "filtering \<longrightarrow> length (updates bundle) \<le> 1"
    and "batch_edit tree bundle exts idp csp filtering = Inr (tree', bundle', added)"
  shows "tree_inv idp exts {} tree' \<and> (tk_nodes tree' = [] \<or> last (tk_nodes tree') \<noteq> None) \<and>
    (\<not> filtering \<longrightarrow> leaf_of (tk_nodes tree') = edited_leafs bundle added (leaf_of (tk_nodes tree)))"
proof -
  obtain nodes ti ls where b: "update_hashes (tree\<lparr>tk_index := ti, tk_nodes := nodes\<rparr>) ls csp = Inr tree'"
    "tree_inv idp exts {} (tree\<lparr>tk_index := ti, tk_nodes := nodes\<rparr>)"
    "nodes = [] \<or> last nodes \<noteq> None" "\<not> filtering \<longrightarrow> leaf_of nodes = edited_leafs bundle added (leaf_of (tk_nodes tree))"
    by (rule batch_edit_steps [OF assms])
  with update_hashes_nodes [OF b(1)] show ?thesis by (simp add: tree_inv_def)
qed

lemma edits_node_slot:
  assumes "edits ls nodes nodes'" "in_tree d j m" "d \<le> 31" "\<not> over_leaf (map unat ls) j m"
  shows "node_slot nodes (word_node j m) = node_slot nodes' (word_node j m)"
  using assms in_tree_word(2) [OF assms(2,3)] unfolding edits_def node_slot_slot by metis


lemma tree_inv_new: "tree_inv idp exts {} tree_kem_new"
proof -
  have "index_repr tree_index_new [] \<and> pairwise_compatible []" using index_repr_new by simp
  then have "indexed idp exts tree_index_new Map.empty" unfolding indexed_def by (auto intro!: exI [of _ "[]"])
  moreover have "leaf_of [] = Map.empty" by (auto simp: leaf_of_def slot_nth)
  ultimately show ?thesis by (simp add: tree_inv_def tree_kem_new_def wf_nodes_def slot_nth)
qed

definition sample_kp :: "u8 \<Rightarrow> key_package" where
  "sample_kp b = \<lparr>kp_version = 1, kp_cipher_suite = 1, kp_hpke_init_key = [b + 100], kp_leaf_node = sample_leaf b,
     kp_extensions = [], kp_signature = [b]\<rparr>"

definition sample_adds :: "u8 list \<Rightarrow> proposal_bundle" where
  "sample_adds bs = empty_bundle\<lparr>additions :=
     map (\<lambda>b. \<lparr>pi_proposal = sample_kp b, pi_sender = Sender_Member 0, pi_source = ByValue\<rparr>) bs\<rparr>"



definition stolen_key :: "u8 \<Rightarrow> leaf_node" where
  "stolen_key b = (sample_leaf b)\<lparr>ln_public_key := [2]\<rparr>"

definition sample_updates :: "leaf_node list \<Rightarrow> proposal_bundle" where
  "sample_updates ls = empty_bundle\<lparr>
     updates := map (\<lambda>l. \<lparr>pi_proposal = l, pi_sender = Sender_NewMemberCommit, pi_source = ByReference []\<rparr>) ls,
     update_senders := map of_nat [0..<length ls]\<rparr>"

definition sample_single :: tree_kem_public where
  "sample_single = (case batch_edit tree_kem_new (sample_adds [1]) [] sample_idp sample_csp False of
     Inr (tree, _) \<Rightarrow> tree | Inl _ \<Rightarrow> tree_kem_new)"

lemma sample_single_is:
  "bindR (batch_edit tree_kem_new (sample_adds [1]) [] sample_idp sample_csp False) (\<lambda>(t, b, ls). Inr (tk_nodes t, tk_hashes t, b, ls)) =
     Inr ([Some (Leaf (sample_leaf 1))], [sample_hash [Some (Leaf (sample_leaf 1))] 0 0], sample_adds [1], [0])"
  by code_simp

lemma in_tree_0: "in_tree 0 k i \<longleftrightarrow> k = 0 \<and> i = 0"
  by (auto simp: in_tree_def)

lemma single_hashes_are:
  assumes "\<not> isl (node_hash [Some (Leaf l)] [] sample_csp 0 0)"
  shows "hashes_are [Some (Leaf l)] [] sample_csp 0 (sample_hash [Some (Leaf l)])"
  using assms unfolding hashes_are_def in_tree_0 by (auto simp: sample_hash_def split: sum.splits)

lemma tree_depth_single: "tree_depth [x] = 0"
  by (simp add: tree_depth_def floorlog_def)



end
