(* ===== verification/ValidationLaws.thy ===== *)
theory ValidationLaws
  imports BatchEdit
begin

text \<open>
  What the validation of theory \<open>Validation\<close> establishes about a tree, a leaf and an update path that it accepts, and two
  inputs it should not accept: a tree whose parent hashes are never looked at because the root is blank, and an update
  path with too few nodes.
\<close>

section \<open>Reading nodes of the tree\<close>

lemma next_power_of_two_length:
  assumes "odd (length nodes)" "length nodes < 2 ^ 32" "in_tree (tree_depth nodes) k i"
  shows "node_at k i < next_power_of_two (length nodes)"
proof -
  define m where "m = length nodes div 2"
  have len: "length nodes = Suc (2 * m)" using assms(1) by (auto simp: m_def elim!: oddE)
  have d: "tree_depth nodes = floorlog 2 m" using assms(2) by (simp add: tree_depth_def unat_of_nat_small m_def)
  show ?thesis
  proof (cases "m = 0")
    case True
    with assms(3) d show ?thesis by (auto simp: in_tree_def floorlog_def node_at_def len next_power_of_two_def)
  next
    case False
    then have "floorlog 2 (2 * m) = Suc (floorlog 2 m)" using compute_floorlog [of 2 "2 * m"] by simp
    then have "next_power_of_two (length nodes) = 2 * 2 ^ tree_depth nodes"
      using False by (simp add: len next_power_of_two_Suc d)
    with in_tree_less [OF assms(3)] show ?thesis by simp
  qed
qed

lemma borrow_node_at:
  assumes "odd (length nodes)" "length nodes < 2 ^ 32" "in_tree (tree_depth nodes) k i"
  shows "borrow_node nodes (word_node k i) = Inr (slot nodes (node_at k i))"
  using next_power_of_two_length [OF assms] in_tree_word(2) [OF assms(3) tree_depth_le]
  by (simp add: borrow_node_def validate_index_def slot_def leD)

lemma is_blank_at:
  assumes "odd (length nodes)" "length nodes < 2 ^ 32" "in_tree (tree_depth nodes) k i"
  shows "is_blank nodes (word_node k i) = Inr (slot nodes (node_at k i) = None)"
  by (simp add: is_blank_def borrow_node_at [OF assms])

lemma borrow_node_SomeD: "borrow_node nodes x = Inr n \<Longrightarrow> n = slot nodes (unat x)"
  by (auto simp: borrow_node_def validate_index_def slot_def split: if_splits)

lemma is_blank_SomeD: "is_blank nodes x = Inr b \<Longrightarrow> b = (slot nodes (unat x) = None)"
  by (auto simp: is_blank_def dest: borrow_node_SomeD)

lemma borrow_as_parent_at:
  assumes "odd (length nodes)" "length nodes < 2 ^ 32" "in_tree (tree_depth nodes) k i"
    and "slot nodes (node_at k i) = Some (Parent p)"
  shows "borrow_as_parent nodes (word_node k i) = Inr p"
  using assms(4) by (simp add: borrow_as_parent_def borrow_node_at [OF assms(1-3)] as_parent_def)

lemma in_tree_path: "n < 2 ^ d \<Longrightarrow> k \<le> d \<Longrightarrow> in_tree d k (n div 2 ^ k)"
proof -
  assume "n < 2 ^ d" "k \<le> d"
  then have "(2::nat) ^ d = 2 ^ (d - k) * 2 ^ k" by (simp flip: power_add)
  with \<open>n < 2 ^ d\<close> \<open>k \<le> d\<close> show ?thesis by (simp add: in_tree_def less_mult_imp_div_less)
qed

section \<open>Unmerged leaves\<close>

text \<open>Leaves at the even positions and parents at the odd ones.\<close>

definition kinded :: "node_vec \<Rightarrow> bool" where
  "kinded nodes \<longleftrightarrow> list_all (\<lambda>(n, x). case x of None \<Rightarrow> True | Some (Leaf _) \<Rightarrow> even n | Some (Parent _) \<Rightarrow> odd n) (enumerate 0 nodes)"

lemma kinded_slot: "kinded nodes \<Longrightarrow> slot nodes n = Some x \<Longrightarrow> (case x of Leaf _ \<Rightarrow> even n | Parent _ \<Rightarrow> odd n)"
proof -
  assume k: "kinded nodes" and x: "slot nodes n = Some x"
  then have "(n, Some x) \<in> set (enumerate 0 nodes)"
    by (auto simp: in_set_enumerate_eq slot_nth split: if_splits)
  with k show ?thesis by (auto simp: kinded_def list_all_iff split: node.splits)
qed

lemma kinded_parent: "kinded nodes \<Longrightarrow> slot nodes (node_at (Suc k) i) = Some x \<Longrightarrow> \<exists>p. x = Parent p"
  using kinded_slot [of nodes "node_at (Suc k) i" x] odd_node_at [of k i] by (auto split: node.splits)

lemma wf_nodes_kinded: "wf_nodes H nodes \<Longrightarrow> kinded nodes"
proof -
  assume wf: "wf_nodes H nodes"
  have "case x of None \<Rightarrow> True | Some (Leaf _) \<Rightarrow> even n | Some (Parent _) \<Rightarrow> odd n" if "n < length nodes" "x = nodes ! n" for n x
  proof (cases "even n")
    case True
    then show ?thesis using wf_leaf [OF wf, of "n div 2"] that by (auto simp: slot_nth split: option.splits node.splits)
  next
    case False
    then obtain k i where "n = node_at (Suc k) i" using odd_is_node_at by blast
    with False show ?thesis using wf_parent [OF wf, of k i] that by (auto simp: slot_nth split: option.splits node.splits)
  qed
  then show ?thesis unfolding kinded_def list_all_iff by (fastforce simp: in_set_enumerate_eq)
qed

definition lists_leaf :: "node_vec \<Rightarrow> leaf_index \<Rightarrow> nat \<Rightarrow> bool" where
  "lists_leaf nodes u n \<longleftrightarrow> (\<exists>p. slot nodes n = Some (Parent p) \<and> u \<in> set (p_unmerged_leaves p))"

text \<open>The first \<open>k\<close> nodes of the direct path of \<open>u\<close> are blank or have \<open>u\<close> among their unmerged leaves.\<close>

definition unmerged_up :: "node_vec \<Rightarrow> leaf_index \<Rightarrow> nat \<Rightarrow> bool" where
  "unmerged_up nodes u k \<longleftrightarrow>
     (\<forall>j<k. slot nodes (node_at (Suc j) (unat u div 2 ^ Suc j)) = None \<or>
        lists_leaf nodes u (node_at (Suc j) (unat u div 2 ^ Suc j)))"

definition passed :: "node_vec \<Rightarrow> leaf_index \<Rightarrow> nat \<Rightarrow> nat \<Rightarrow> bool" where
  "passed nodes u k n \<longleftrightarrow>
     (\<exists>j. k \<le> j \<and> j < tree_depth nodes \<and> n = node_at (Suc j) (unat u div 2 ^ Suc j) \<and> lists_leaf nodes u n \<and> unmerged_up nodes u j)"

lemma unmerged_up_Suc:
  "unmerged_up nodes u (Suc k) \<longleftrightarrow> unmerged_up nodes u k \<and>
     (slot nodes (node_at (Suc k) (unat u div 2 ^ Suc k)) = None \<or> lists_leaf nodes u (node_at (Suc k) (unat u div 2 ^ Suc k)))"
  unfolding unmerged_up_def by (simp only: All_less_Suc conj_commute)

lemma unmerged_up_mono: "unmerged_up nodes u k \<Longrightarrow> j \<le> k \<Longrightarrow> unmerged_up nodes u j"
  by (auto simp: unmerged_up_def)

lemma passed_step:
  assumes "k < tree_depth nodes" "unmerged_up nodes u k"
  shows "passed nodes u k n \<longleftrightarrow>
    n = node_at (Suc k) (unat u div 2 ^ Suc k) \<and> lists_leaf nodes u n \<or> passed nodes u (Suc k) n"
proof
  assume "passed nodes u k n"
  then obtain j where j: "k \<le> j" "j < tree_depth nodes" "n = node_at (Suc j) (unat u div 2 ^ Suc j)" "lists_leaf nodes u n"
    "unmerged_up nodes u j" unfolding passed_def by blast
  show "n = node_at (Suc k) (unat u div 2 ^ Suc k) \<and> lists_leaf nodes u n \<or> passed nodes u (Suc k) n"
  proof (cases "j = k")
    case False
    with j have "passed nodes u (Suc k) n" unfolding passed_def by (intro exI [of _ j]) simp
    then show ?thesis ..
  qed (use j in simp)
next
  assume "n = node_at (Suc k) (unat u div 2 ^ Suc k) \<and> lists_leaf nodes u n \<or> passed nodes u (Suc k) n"
  then show "passed nodes u k n"
  proof
    assume "n = node_at (Suc k) (unat u div 2 ^ Suc k) \<and> lists_leaf nodes u n"
    with assms show ?thesis unfolding passed_def by blast
  next
    assume "passed nodes u (Suc k) n"
    then show ?thesis unfolding passed_def using Suc_leD by blast
  qed
qed

lemma walk_unmerged_exact:
  assumes nodes: "odd (length nodes)" "length nodes < 2 ^ 32" "kinded nodes" and u: "unat u < 2 ^ tree_depth nodes"
    and "k \<le> tree_depth nodes" "tree_depth nodes - k \<le> fuel" "unmerged_up nodes u k" "length sets = length nodes"
  shows "\<exists>sets'. walk_unmerged fuel nodes (2 ^ tree_depth nodes) u (word_node k (unat u div 2 ^ k)) sets = Inr sets' \<and>
    length sets' = length nodes \<and>
    (\<forall>n<length nodes. set (sets' ! n) = set (sets ! n) - (if passed nodes u k n then {u} else {}))"
  using assms(5-)
proof (induction fuel arbitrary: k sets)
  case 0
  then have k: "k = tree_depth nodes" by simp
  then have "\<not> passed nodes u k n" for n by (auto simp: passed_def)
  with 0 k show ?case
    by (subst walk_unmerged.simps) (simp add: parent_sibling_in_tree [OF in_tree_path [OF u order_refl] tree_depth_le])
next
  case (Suc fuel k sets)
  let ?p = "node_at (Suc k) (unat u div 2 ^ Suc k)"
  show ?case
  proof (cases "k = tree_depth nodes")
    case True
    then have "\<not> passed nodes u k n" for n by (auto simp: passed_def)
    with Suc.prems True show ?thesis
      by (subst walk_unmerged.simps) (simp add: parent_sibling_in_tree [OF in_tree_path [OF u order_refl] tree_depth_le])
  next
    case False
    with Suc.prems have k: "k < tree_depth nodes" and fuel: "tree_depth nodes - Suc k \<le> fuel" by simp_all
    note in_p = in_tree_path [OF u Suc_leI [OF k]]
    have "parent_sibling_of (word_node k (unat u div 2 ^ k)) (2 ^ tree_depth nodes) =
        Some \<lparr>parent = word_node (Suc k) (unat u div 2 ^ Suc k), sibling = word_node k (sibling_at (unat u div 2 ^ k))\<rparr>"
      using parent_sibling_in_tree [OF in_tree_path [OF u Suc.prems(1)] tree_depth_le] k by (simp add: div_Suc_pow del: power_Suc)
    then have walk: "walk_unmerged (Suc fuel) nodes (2 ^ tree_depth nodes) u (word_node k (unat u div 2 ^ k)) sets =
        (if slot nodes ?p = None then walk_unmerged fuel nodes (2 ^ tree_depth nodes) u (word_node (Suc k) (unat u div 2 ^ Suc k)) sets
         else bindR (borrow_as_parent nodes (word_node (Suc k) (unat u div 2 ^ Suc k))) (\<lambda>parent_node.
           if u \<in> set (p_unmerged_leaves parent_node) then
             bindR (index_or_panic sets ?p) (\<lambda>s. walk_unmerged fuel nodes (2 ^ tree_depth nodes) u
               (word_node (Suc k) (unat u div 2 ^ Suc k)) (sets[?p := removeAll u s]))
           else Inr sets))"
      by (subst walk_unmerged.simps)
        (simp add: is_blank_at [OF nodes(1,2) in_p] in_tree_word(2) [OF in_p tree_depth_le] Let_def del: power_Suc cong: if_cong)
    show ?thesis
    proof (cases "slot nodes ?p")
      case None
      then have "unmerged_up nodes u (Suc k)" "\<not> lists_leaf nodes u ?p"
        using Suc.prems(3) unfolding unmerged_up_Suc by (auto simp: lists_leaf_def)
      then have "passed nodes u k n = passed nodes u (Suc k) n" for n
        unfolding passed_step [OF k Suc.prems(3)] by blast
      with Suc.IH [of "Suc k" sets] \<open>unmerged_up nodes u (Suc k)\<close> Suc.prems k None walk show ?thesis
        by (simp del: power_Suc)
    next
      case (Some x)
      with kinded_parent [OF nodes(3)] obtain p where p: "slot nodes ?p = Some (Parent p)" by blast
      note parent = borrow_as_parent_at [OF nodes(1,2) in_p p] and inside = slot_SomeD [OF p]
      show ?thesis
      proof (cases "u \<in> set (p_unmerged_leaves p)")
        case True
        then have l: "lists_leaf nodes u ?p" using p by (simp add: lists_leaf_def del: power_Suc)
        then have "unmerged_up nodes u (Suc k)" using Suc.prems(3) unfolding unmerged_up_Suc by simp
        with Suc.IH [of "Suc k" "sets[?p := removeAll u (sets ! ?p)]"] Suc.prems(4) k fuel obtain sets' where
          "walk_unmerged fuel nodes (2 ^ tree_depth nodes) u (word_node (Suc k) (unat u div 2 ^ Suc k))
             (sets[?p := removeAll u (sets ! ?p)]) = Inr sets'" "length sets' = length nodes"
          "\<forall>n<length nodes. set (sets' ! n) =
             set (sets[?p := removeAll u (sets ! ?p)] ! n) - (if passed nodes u (Suc k) n then {u} else {})"
          by (metis Suc_leI length_list_update)
        with True walk p parent inside l Suc.prems(4) show ?thesis
          by (auto simp: passed_step [OF k Suc.prems(3)] index_or_panic_def get_at_nth nth_list_update simp del: power_Suc)
      next
        case False
        then have l: "\<not> lists_leaf nodes u ?p" using p by (simp add: lists_leaf_def del: power_Suc)
        then have "\<not> passed nodes u (Suc k) n" for n
          using p unfolding passed_def unmerged_up_def by (metis Suc_le_eq option.distinct(1))
        with l False walk p parent Suc.prems show ?thesis
          by (auto simp: passed_step [OF k Suc.prems(3)] simp del: power_Suc)
      qed
    qed
  qed
qed

lemma walk_all_unmerged:
  assumes nodes: "odd (length nodes)" "length nodes < 2 ^ 32" "kinded nodes"
    and xs: "\<forall>x\<in>set xs. unat (fst x) < 2 ^ tree_depth nodes" and len: "length sets = length nodes"
  shows "\<exists>sets'. foldR (\<lambda>sets (index, _). walk_unmerged 32 nodes (total_leaf_count nodes) index (node_of_leaf index) sets) sets xs =
      Inr sets' \<and> length sets' = length nodes \<and>
    (\<forall>n<length nodes. set (sets' ! n) = set (sets ! n) - {u \<in> fst ` set xs. passed nodes u 0 n})"
  using xs len
proof (induction xs arbitrary: sets)
  case (Cons x xs)
  obtain u l where x: "x = (u, l)" by (cases x)
  have u: "unat u < 2 ^ tree_depth nodes" using Cons.prems(1) x by simp
  have leaf: "node_of_leaf u = word_node 0 (unat u div 2 ^ 0)" by (simp add: word_node_def node_at_0 node_of_leaf_def mult.commute)
  obtain sets1 where s1: "walk_unmerged 32 nodes (total_leaf_count nodes) u (node_of_leaf u) sets = Inr sets1"
    "length sets1 = length nodes" "\<forall>n<length nodes. set (sets1 ! n) = set (sets ! n) - (if passed nodes u 0 n then {u} else {})"
    unfolding leaf total_leaf_count_pow
    using walk_unmerged_exact [OF nodes u, of 0 32 sets] tree_depth_le [of nodes] Cons.prems(2) by (auto simp: unmerged_up_def)
  obtain sets' where "foldR (\<lambda>sets (index, _). walk_unmerged 32 nodes (total_leaf_count nodes) index (node_of_leaf index) sets) sets1 xs =
      Inr sets'" "length sets' = length nodes"
    "\<forall>n<length nodes. set (sets' ! n) = set (sets1 ! n) - {u \<in> fst ` set xs. passed nodes u 0 n}"
    using Cons.IH [of sets1] Cons.prems(1) s1(2) by auto
  with s1 show ?case by (auto simp: x)
qed simp

lemma leaf_of_bound:
  assumes "leaf_of nodes j = Some l" "length nodes < 2 ^ 32"
  shows "2 * j < length nodes" "j < 2 ^ tree_depth nodes" "unat (of_nat j :: u32) = j"
proof -
  show len: "2 * j < length nodes"
    using assms(1) by (auto simp: leaf_of_def split: option.splits dest: slot_SomeD)
  then show "j < 2 ^ tree_depth nodes" using assms(2) by (rule path_in_array)
  show "unat (of_nat j :: u32) = j" using len assms(2) by (intro unat_of_nat_small) simp
qed

lemma length_unmerged_sets: "length (unmerged_sets_of nodes) = length nodes"
  by (simp add: unmerged_sets_of_def)

lemma validate_unmerged_iff:
  assumes nodes: "odd (length nodes)" "length nodes < 2 ^ 32" "kinded nodes"
  shows "validate_unmerged nodes = Inr () \<longleftrightarrow>
    (\<forall>n p u. slot nodes n = Some (Parent p) \<longrightarrow> u \<in> set (p_unmerged_leaves p) \<longrightarrow>
       leaf_of nodes (unat u) \<noteq> None \<and>
       (\<exists>k. n = node_at (Suc k) (unat u div 2 ^ Suc k) \<and> unmerged_up nodes u k))" (is "_ \<longleftrightarrow> (\<forall>n p u. ?P n p u)")
proof -
  let ?step = "\<lambda>sets (index, _). walk_unmerged 32 nodes (total_leaf_count nodes) index (node_of_leaf index) sets"
  have bound: "\<forall>x\<in>set (non_empty_leaves nodes). unat (fst x) < 2 ^ tree_depth nodes"
    using nodes(2) by (auto simp: set_non_empty_leaves leaf_of_bound)
  obtain sets' where sets': "foldR ?step (unmerged_sets_of nodes) (non_empty_leaves nodes) = Inr sets'" "length sets' = length nodes"
    "\<forall>n<length nodes. set (sets' ! n) = set (unmerged_sets_of nodes ! n) - {u \<in> fst ` set (non_empty_leaves nodes). passed nodes u 0 n}"
    using walk_all_unmerged [OF nodes bound length_unmerged_sets] by blast
  have leaves: "u \<in> fst ` set (non_empty_leaves nodes) \<longleftrightarrow> leaf_of nodes (unat u) \<noteq> None" for u
    using nodes(2) by (force simp: set_non_empty_leaves leaf_of_bound image_iff)
  have pass: "passed nodes u 0 n \<longleftrightarrow> (\<exists>k. n = node_at (Suc k) (unat u div 2 ^ Suc k) \<and> unmerged_up nodes u k)"
    if "lists_leaf nodes u n" for u n
  proof -
    have "k < tree_depth nodes" if "n = node_at (Suc k) (unat u div 2 ^ Suc k)" for k
      using that \<open>lists_leaf nodes u n\<close> ancestor_beyond [OF nodes(2), of k "unat u div 2 ^ Suc k"]
      by (auto simp: lists_leaf_def dest: slot_SomeD leD simp del: power_Suc intro: leI ccontr)
    with that show ?thesis unfolding passed_def by blast
  qed
  have member: "u \<in> set (unmerged_sets_of nodes ! n) \<longleftrightarrow> lists_leaf nodes u n" if "n < length nodes" for n u
    using that by (cases "nodes ! n") (auto simp: unmerged_sets_of_def lists_leaf_def slot_nth split: node.splits)
  have left: "u \<in> set (sets' ! n) \<longleftrightarrow> lists_leaf nodes u n \<and> \<not> (leaf_of nodes (unat u) \<noteq> None \<and> passed nodes u 0 n)"
    if "n < length nodes" for n u
    using that sets'(3) leaves by (simp add: member [OF that])
  have inside: "n < length nodes" if "lists_leaf nodes u n" for n u
    using that by (auto simp: lists_leaf_def dest: slot_SomeD)
  have "validate_unmerged nodes = Inr () \<longleftrightarrow> (\<forall>n<length nodes. \<forall>u. u \<notin> set (sets' ! n))"
    unfolding validate_unmerged_def sets'(1) by (simp add: list_all_length sets'(2) flip: set_empty ex_in_conv)
  also have "\<dots> \<longleftrightarrow> (\<forall>n u. lists_leaf nodes u n \<longrightarrow> leaf_of nodes (unat u) \<noteq> None \<and> passed nodes u 0 n)"
    using left inside by blast
  also have "\<dots> \<longleftrightarrow> (\<forall>n p u. ?P n p u)" using pass unfolding lists_leaf_def by blast
  finally show ?thesis .
qed

section \<open>Blank roots and parent hashes\<close>

lemma nonblank_ancestor_blank:
  assumes nodes: "odd (length nodes)" "length nodes < 2 ^ 32" and u: "u < 2 ^ tree_depth nodes"
    and blank: "\<forall>j<tree_depth nodes. slot nodes (node_at (Suc j) (u div 2 ^ Suc j)) = None"
    and "k < tree_depth nodes" "tree_depth nodes - Suc k \<le> fuel"
  shows "nonblank_ancestor fuel nodes (2 ^ tree_depth nodes) \<lparr>parent = word_node (Suc k) (u div 2 ^ Suc k), sibling = s\<rparr> = Inr None"
  using assms(5-)
proof (induction fuel arbitrary: k s)
  case (0 k s)
  then have k: "Suc k = tree_depth nodes" by simp
  note in_p = in_tree_path [OF u, of "Suc k"]
  show ?case
    using 0 blank [rule_format, of k] is_blank_at [OF nodes in_p] parent_sibling_in_tree [OF in_p tree_depth_le]
    by (subst nonblank_ancestor.simps) (simp add: k del: power_Suc)
next
  case (Suc fuel k s)
  note in_p = in_tree_path [OF u Suc_leI [OF Suc.prems(1)]]
  have ps: "parent_sibling_of (word_node (Suc k) (u div 2 ^ Suc k)) (2 ^ tree_depth nodes) =
     (if Suc k < tree_depth nodes then Some \<lparr>parent = word_node (Suc (Suc k)) (u div 2 ^ Suc (Suc k)),
        sibling = word_node (Suc k) (sibling_at (u div 2 ^ Suc k))\<rparr> else None)"
    using parent_sibling_in_tree [OF in_p tree_depth_le] by (simp add: div_Suc_pow [of _ "Suc k"] del: power_Suc)
  have "nonblank_ancestor fuel nodes (2 ^ tree_depth nodes) \<lparr>parent = word_node (Suc (Suc k)) (u div 2 ^ Suc (Suc k)),
        sibling = word_node (Suc k) (sibling_at (u div 2 ^ Suc k))\<rparr> = Inr None" if "Suc k < tree_depth nodes"
    using that Suc.prems by (intro Suc.IH) auto
  with ps Suc.prems blank is_blank_at [OF nodes in_p] show ?case
    by (subst nonblank_ancestor.simps) (simp del: power_Suc)
qed

lemma validate_parent_hashes_blank_path:
  assumes nodes: "odd (length (tk_nodes tree))" "length (tk_nodes tree) < 2 ^ 32"
    and hashes: "compute_original_hashes tree csp = Inr hashes"
    and first: "non_empty_leaves (tk_nodes tree) = (l, leaf) # rest" "0 < tree_depth (tk_nodes tree)"
    and blank: "\<forall>k<tree_depth (tk_nodes tree). slot (tk_nodes tree) (node_at (Suc k) (unat l div 2 ^ Suc k)) = None"
  shows "validate_parent_hashes tree csp = Inr ()"
proof -
  let ?nodes = "tk_nodes tree"
  have "(l, leaf) \<in> set (non_empty_leaves ?nodes)" by (simp add: first(1))
  then obtain j where j: "l = of_nat j" "leaf_of ?nodes j = Some leaf" by (auto simp: set_non_empty_leaves)
  then have l: "unat l < 2 ^ tree_depth ?nodes" using leaf_of_bound [OF j(2) nodes(2)] by simp
  have "node_of_leaf l = word_node 0 (unat l)" by (simp add: word_node_def node_at_0 node_of_leaf_def mult.commute)
  then have "parent_sibling_of (node_of_leaf l) (2 ^ tree_depth ?nodes) =
      Some \<lparr>parent = word_node (Suc 0) (unat l div 2 ^ Suc 0), sibling = word_node 0 (sibling_at (unat l))\<rparr>"
    using parent_sibling_in_tree [OF in_tree_leaf [OF l] tree_depth_le] first(2) by simp
  then have "validate_chain 32 csp ?nodes (2 ^ tree_depth ?nodes) hashes (node_of_leaf l) ps = Inr Chain_BlankRoot" for ps
    using nonblank_ancestor_blank [OF nodes l blank, of 0 32] first(2) tree_depth_le [of ?nodes]
    by (subst validate_chain.simps) (simp del: power_Suc)
  then show ?thesis by (simp add: validate_parent_hashes_def hashes first(1) total_leaf_count_pow)
qed

section \<open>Accepted trees\<close>

lemma require_all_iff: "require_all required available err = Inr () \<longleftrightarrow> set required \<subseteq> set available"
proof (cases "List.find (\<lambda>t. t \<notin> set available) required")
  case None
  then show ?thesis by (auto simp: require_all_def dest: find_None_iff [THEN iffD1])
next
  case (Some t)
  then have "t \<in> set required" "t \<notin> set available" by (auto simp: find_Some_iff)
  with Some show ?thesis by (auto simp: require_all_def)
qed

text \<open>What is known of a leaf that passed the validator, apart from the opinion of the identity provider.\<close>

definition leaf_supports :: "extension_list \<Rightarrow> leaf_node \<Rightarrow> bool" where
  "leaf_supports exts leaf \<longleftrightarrow>
     set (map ext_type (ln_extensions leaf)) \<subseteq> set (cap_extensions (ln_capabilities leaf)) \<and>
     {t \<in> set (map ext_type exts). \<not> is_default_extension t} \<subseteq> set (cap_extensions (ln_capabilities leaf)) \<and>
     (\<forall>required. ext_get_as REQUIRED_CAPABILITIES required_capabilities_codec exts = Inr (Some required) \<longrightarrow>
        set (rc_extensions required) \<subseteq> set (cap_extensions (ln_capabilities leaf)) \<and>
        set (rc_proposals required) \<subseteq> set (cap_proposals (ln_capabilities leaf)) \<and>
        set (rc_credentials required) \<subseteq> set (cap_credentials (ln_capabilities leaf))) \<and>
     (\<forall>senders. ext_get_as EXTERNAL_SENDERS external_senders_codec exts = Inr (Some senders) \<longrightarrow>
        (\<forall>s\<in>set senders. credential_type_of (si_credential s) \<in> set (cap_credentials (ln_capabilities leaf))))"

lemma validate_required_capabilities_D:
  assumes "validate_required_capabilities mc leaf = Inr ()" "new_extensions mc = Some exts"
    "ext_get_as REQUIRED_CAPABILITIES required_capabilities_codec exts = Inr (Some required)"
  shows "set (rc_extensions required) \<subseteq> set (cap_extensions (ln_capabilities leaf))"
    "set (rc_proposals required) \<subseteq> set (cap_proposals (ln_capabilities leaf))"
    "set (rc_credentials required) \<subseteq> set (cap_credentials (ln_capabilities leaf))"
  using assms by (simp_all add: validate_required_capabilities_def context_extension_def require_all_iff)

lemma validate_external_senders_D:
  assumes "validate_external_senders_ext_credentials mc leaf = Inr ()" "new_extensions mc = Some exts"
    "ext_get_as EXTERNAL_SENDERS external_senders_codec exts = Inr (Some senders)" "s \<in> set senders"
  shows "credential_type_of (si_credential s) \<in> set (cap_credentials (ln_capabilities leaf))"
  using assms
  by (auto simp add: validate_external_senders_ext_credentials_def context_extension_def require_all_iff)

lemma check_if_valid_supports:
  assumes valid: "check_if_valid csp idp mc leaf vc = Inr ()" and exts: "new_extensions mc = Some exts"
  shows "leaf_supports exts leaf"
    "leaf_node_verify csp leaf (signature_key (ln_signing_identity leaf)) (vc_signing_context vc) = Inr ()"
    "idp_validate_member idp (ln_signing_identity leaf) (generation_time vc) mc = Inr ()"
proof -
  from valid have parts: "validate_required_capabilities mc leaf = Inr ()"
    "validate_external_senders_ext_credentials mc leaf = Inr ()"
    "set (map ext_type (ln_extensions leaf)) \<subseteq> set (cap_extensions (ln_capabilities leaf))"
    "set (filter (\<lambda>t. \<not> is_default_extension t) (map ext_type exts)) \<subseteq> set (cap_extensions (ln_capabilities leaf))"
    "leaf_node_verify csp leaf (signature_key (ln_signing_identity leaf)) (vc_signing_context vc) = Inr ()"
    "idp_validate_member idp (ln_signing_identity leaf) (generation_time vc) mc = Inr ()"
    unfolding check_if_valid_def bindR_eq_Inr exts option.case by (simp_all add: require_all_iff)
  then show "leaf_supports exts leaf"
    using validate_required_capabilities_D [OF parts(1) exts] validate_external_senders_D [OF parts(2) exts]
    unfolding leaf_supports_def by simp
qed (use valid in \<open>simp_all add: check_if_valid_def\<close>)

lemma revalidate_supports:
  assumes "revalidate csp idp (ForNewGroup context) leaf group_id i t = Inr ()"
  shows "leaf_supports (gc_extensions context) leaf"
    "\<exists>vc. leaf_node_verify csp leaf (signature_key (ln_signing_identity leaf)) (vc_signing_context vc) = Inr ()
       \<and> vc_signing_context vc \<in> {None, Some (group_id, i)}"
    "idp_validate_member idp (ln_signing_identity leaf) t (ForNewGroup context) = Inr ()"
proof -
  define vc where "vc = (case ln_source leaf of
      KeyPackage _ \<Rightarrow> VC_Add t | Update \<Rightarrow> VC_Update group_id i t | Commit _ \<Rightarrow> VC_Commit group_id i t)"
  have valid: "check_if_valid csp idp (ForNewGroup context) leaf vc = Inr ()" using assms by (simp add: revalidate_def vc_def)
  have vc: "vc_signing_context vc \<in> {None, Some (group_id, i)}" "generation_time vc = t"
    by (simp_all add: vc_def split: leaf_node_source.splits)
  note supports = check_if_valid_supports [OF valid, of "gc_extensions context", simplified]
  from supports(1) show "leaf_supports (gc_extensions context) leaf" .
  from supports(2) vc(1) show "\<exists>vc. leaf_node_verify csp leaf (signature_key (ln_signing_identity leaf)) (vc_signing_context vc) = Inr ()
       \<and> vc_signing_context vc \<in> {None, Some (group_id, i)}" by blast
  from supports(3) vc(2) show "idp_validate_member idp (ln_signing_identity leaf) t (ForNewGroup context) = Inr ()" by simp
qed

lemma validate_leaves_iff:
  "validate_leaves csp idp mc nodes group_id t = Inr () \<longleftrightarrow>
     (\<forall>j leaf. leaf_of nodes j = Some leaf \<longrightarrow> revalidate csp idp mc leaf group_id (of_nat j) t = Inr ())"
  unfolding validate_leaves_def foldR_unit_iff by (fastforce simp: set_non_empty_leaves)

section \<open>The tree hash and misplaced nodes\<close>

lemma tk_tree_hash_root:
  assumes "tk_hashes tree = []" "hashes_are (tk_nodes tree) [] csp (tree_depth (tk_nodes tree)) h"
  shows "\<exists>tree'. tk_tree_hash tree csp = Inr (tree', h (tree_depth (tk_nodes tree)) 0) \<and> tk_nodes tree' = tk_nodes tree"
proof -
  let ?d = "tree_depth (tk_nodes tree)"
  obtain hs where hs: "tree_hash [] (tk_nodes tree) None [] (2 ^ ?d) csp = Inr hs" "cached ?d h (\<lambda>_ _. True) hs"
    using tree_hash_all [OF assms(2) tree_depth_le] by blast
  have root: "in_tree ?d ?d 0" by (simp add: in_tree_def)
  have "root_index (2 ^ ?d) = word_node ?d 0" by (rule root_index_word_node)
  then have "unat (root_index (2 ^ ?d)) = node_at ?d 0" using in_tree_word(2) [OF root tree_depth_le] by simp
  with hs root in_tree_less [OF root] show ?thesis
    by (auto simp: tk_tree_hash_def initialize_hashes_def assms(1) total_leaf_count_pow index_or_panic_def cached_def get_at_nth)
qed

lemma node_hash_misplaced:
  assumes "slot nodes (2 * j) = None"
  shows "node_hash (nodes[2 * j := Some (Parent p)]) fl csp k i = node_hash nodes fl csp k i"
proof (induction k arbitrary: i)
  case 0
  show ?case using assms by (auto simp: okR_borrow_as_leaf node_slot_slot slot_update split: option.splits)
next
  case (Suc k)
  have "odd (unat (word_node (Suc k) i))"
    using odd_node_at [of k i] by (simp add: word_node_def unat_of_nat dvd_mod_iff)
  then have "slot (nodes[2 * j := Some (Parent p)]) (unat (word_node (Suc k) i)) = slot nodes (unat (word_node (Suc k) i))"
    by (auto simp: slot_update)
  with Suc show ?case by (simp add: okR_borrow_as_leaf node_slot_slot)
qed

section \<open>Update paths\<close>

lemma unfilter_nodes_cases:
  "case unfilter_nodes fs ns of
     Inl e \<Rightarrow> e = WrongPathLen \<and> length (filter Not fs) < length ns
   | Inr us \<Rightarrow> length ns \<le> length (filter Not fs) \<and> length us \<le> length fs \<and>
       map Some ns = filter (\<lambda>u. u \<noteq> None) us \<and> map (\<lambda>u. u = None) us = take (length us) fs"
proof (induction fs ns rule: unfilter_nodes.induct)
  case (3 f fs n ns)
  then show ?case
    by (cases f; cases "unfilter_nodes fs ns"; cases "unfilter_nodes fs (n # ns)") auto
qed auto

text \<open>
  C26. \<^verbatim>\<open>validate_update_path\<close> gives the nodes of the path to the direct path positions that are not filtered, in order;
  a path with more nodes than there are such positions is refused with \<open>WrongPathLen\<close>, and no other error occurs here. A path
  with fewer nodes is not refused.
\<close>

theorem update_path_nodes_placed:
  "case unfilter_nodes fs ns of
     Inl e \<Rightarrow> e = WrongPathLen \<and> length (filter Not fs) < length ns
   | Inr us \<Rightarrow> length ns \<le> length (filter Not fs) \<and> length us \<le> length fs \<and>
       map Some ns = filter (\<lambda>u. u \<noteq> None) us \<and> map (\<lambda>u. u = None) us = take (length us) fs"
  by (rule unfilter_nodes_cases)

section \<open>Samples\<close>

definition short_root :: parent where
  "short_root = \<lparr>p_public_key = [9], p_parent_hash = [], p_unmerged_leaves = []\<rparr>"

definition short_tree :: tree_kem_public where
  "short_tree = tree_kem_new\<lparr>tk_nodes := [Some (Leaf (sample_leaf 1)), Some (Parent short_root), Some (Leaf (sample_leaf 2))]\<rparr>"

definition short_path :: update_path where
  "short_path = \<lparr>up_leaf_node = (sample_leaf 2)\<lparr>ln_public_key := [7], ln_source := Commit [1, 9, 0, 8, 1, 0, 0, 0]\<rparr>, up_nodes = []\<rparr>"

definition short_state :: provisional_state where
  "short_state = \<lparr>pv_public_tree = short_tree, pv_applied_proposals = empty_bundle,
     pv_group_context = group_context_new 1 1 [] [] [], pv_external_init_index = None, pv_indexes_of_added_kpkgs = [],
     pv_unused_proposals = []\<rparr>"

lemma short_path_run:
  "bindR (validate_update_path sample_idp sample_csp short_path short_state 1 None (group_context_new 1 1 [] [] [])) (\<lambda>vup.
   bindR (apply_update_path short_tree 1 vup [] sample_idp sample_csp) (\<lambda>tree'.
     Inr (vup_nodes vup, decap tree' (new_self_leaf 0 [1]) 1 vup [] [] sample_csp))) = Inr ([], Inl Mls_Panic)"
  by code_simp


section \<open>Validation of trees\<close>

text \<open>
  C7. The check of the unmerged leaves accepts exactly the trees in which every leaf listed by a parent node is a member below
  that node, and each node between them on the direct path is blank or lists the leaf as well.
\<close>

theorem unmerged_leaves_accepted_iff:
  assumes "odd (length nodes)" "length nodes < 2 ^ 32" "kinded nodes"
  shows "validate_unmerged nodes = Inr () \<longleftrightarrow>
    (\<forall>n p u. slot nodes n = Some (Parent p) \<longrightarrow> u \<in> set (p_unmerged_leaves p) \<longrightarrow>
       leaf_of nodes (unat u) \<noteq> None \<and>
       (\<exists>k. n = node_at (Suc k) (unat u div 2 ^ Suc k) \<and> unmerged_up nodes u k))"
  using assms by (rule validate_unmerged_iff)

definition unmerged_sample :: "leaf_index list \<Rightarrow> node_vec" where
  "unmerged_sample us = [Some (Leaf (sample_leaf 1)), Some (Parent (short_root\<lparr>p_unmerged_leaves := us\<rparr>)), Some (Leaf (sample_leaf 2))]"

theorem unmerged_leaves_accepted_iff_witness:
  "validate_unmerged (unmerged_sample [1]) = Inr () \<and> validate_unmerged (unmerged_sample [2]) \<noteq> Inr () \<and>
   (\<exists>k. 1 = node_at (Suc k) (unat (1 :: leaf_index) div 2 ^ Suc k) \<and> unmerged_up (unmerged_sample [1]) 1 k)"
proof -
  have ok: "odd (length (unmerged_sample us))" "length (unmerged_sample us) < 2 ^ 32" "kinded (unmerged_sample us)" for us
    by (simp_all add: unmerged_sample_def kinded_def)
  have v: "validate_unmerged (unmerged_sample [1]) = Inr ()" by code_simp
  have slot: "slot (unmerged_sample us) 1 = Some (Parent (short_root\<lparr>p_unmerged_leaves := us\<rparr>))" for us
    by (simp add: unmerged_sample_def slot_nth)
  have "leaf_of (unmerged_sample [2]) (unat (2 :: leaf_index)) = None" by (simp add: unmerged_sample_def leaf_of_def slot_nth)
  then have "validate_unmerged (unmerged_sample [2]) \<noteq> Inr ()"
    using unmerged_leaves_accepted_iff [OF ok, of "[2]"] slot [of "[2]"] by fastforce
  moreover have "\<exists>k. 1 = node_at (Suc k) (unat (1 :: leaf_index) div 2 ^ Suc k) \<and> unmerged_up (unmerged_sample [1]) 1 k"
    using unmerged_leaves_accepted_iff [OF ok, of "[1]", THEN iffD1, OF v, rule_format, OF slot, of 1] by simp
  ultimately show ?thesis using v by blast
qed



text \<open>
  C28. When the whole direct path of the first member is blank, \<^verbatim>\<open>validate_parent_hashes\<close> accepts the tree whatever its other
  parent nodes hold: the loop over the leaves returns at the blank root instead of going on with the next leaf.
\<close>

theorem blank_root_ends_parent_hash_validation:
  assumes "odd (length (tk_nodes tree))" "length (tk_nodes tree) < 2 ^ 32"
    and "compute_original_hashes tree csp = Inr hashes"
    and "non_empty_leaves (tk_nodes tree) = (l, leaf) # rest" "0 < tree_depth (tk_nodes tree)"
    and "\<forall>k<tree_depth (tk_nodes tree). slot (tk_nodes tree) (node_at (Suc k) (unat l div 2 ^ Suc k)) = None"
  shows "validate_parent_hashes tree csp = Inr ()"
  using assms by (rule validate_parent_hashes_blank_path)

text \<open>A parent node above a single member, which no update path can have produced, with the cache of tree hashes filled.\<close>

definition forged_tree :: tree_kem_public where
  "forged_tree = tree_kem_new\<lparr>tk_nodes := [Some (Leaf (sample_leaf 1)), None, None, None, None, Some (Parent short_root),
       Some (Leaf (sample_leaf 2))],
     tk_hashes := [[1, 0, 0, 0, 0, 1, 1, 1], [2, 0, 8, 1, 0, 0, 0, 0], [1, 0, 0, 0, 1, 0], [2, 0, 8, 2, 0, 8, 1, 0],
       [1, 0, 0, 0, 2, 0], [2, 1, 1, 9, 0, 0, 6, 1], [1, 0, 0, 0, 3, 1, 1, 2]]\<rparr>"

theorem blank_root_ends_parent_hash_validation_witness:
  "validate_parent_hashes forged_tree sample_csp = Inr () \<and> slot (tk_nodes forged_tree) 5 = Some (Parent short_root)"
proof -
  have "bindR (compute_original_hashes forged_tree sample_csp) (\<lambda>hs. Inr (length hs)) = Inr 7" by code_simp
  then obtain hashes where hashes: "compute_original_hashes forged_tree sample_csp = Inr hashes" by auto
  have leaves: "non_empty_leaves (tk_nodes forged_tree) = [(0, sample_leaf 1), (3, sample_leaf 2)]" by code_simp
  have depth: "tree_depth (tk_nodes forged_tree) = 2" by (simp add: forged_tree_def tree_depth_def compute_floorlog)
  have "\<forall>k<2. slot (tk_nodes forged_tree) (node_at (Suc k) (unat (0 :: leaf_index) div 2 ^ Suc k)) = None"
    by (simp add: forged_tree_def slot_nth node_at_def numeral_2_eq_2 All_less_Suc)
  then have "validate_parent_hashes forged_tree sample_csp = Inr ()"
    by (intro blank_root_ends_parent_hash_validation [OF _ _ hashes leaves]) (simp_all add: depth, simp_all add: forged_tree_def)
  then show ?thesis by (simp add: forged_tree_def slot_nth)
qed


definition misplaced_tree :: "node option \<Rightarrow> tree_kem_public" where
  "misplaced_tree n = tree_kem_new\<lparr>tk_nodes := [Some (Leaf (sample_leaf 1)), None, n]\<rparr>"


end
