(* ===== verification/Padding.thy ===== *)
theory Padding
  imports NodeVec
begin

text \<open>
  The padding of private messages (\<^verbatim>\<open>group/padding.rs\<close>): how many bytes a message of a given length is padded to, with the
  bounds of each mode.
\<close>

datatype padding_mode = Pad_StepFunction | Pad_Padme | Pad_None

fun nat_trailing_zeros :: "nat \<Rightarrow> nat" where
  "nat_trailing_zeros n = (if n = 0 \<or> odd n then 0 else 1 + nat_trailing_zeros (n div 2))"

declare nat_trailing_zeros.simps [simp del]

definition ilog2 :: "nat \<Rightarrow> nat" where
  "ilog2 n = floorlog 2 n - 1"

text \<open>For \<open>x & !m\<close> the model writes \<open>x\<close> without its bits in \<open>m\<close>.\<close>

definition padded_size :: "padding_mode \<Rightarrow> nat \<Rightarrow> nat" where
  "padded_size mode content_size =
     (case mode of
        Pad_StepFunction \<Rightarrow>
          (let blind = 2 ^ (nat_trailing_zeros (max (next_power_of_two (content_size + 1)) 256) - 3)
           in or content_size (blind - 1) + 1)
      | Pad_Padme \<Rightarrow>
          (if content_size < 2 then content_size
           else let e = ilog2 content_size; s = ilog2 e + 1; num_zero_bits = e - s; bitmask = 2 ^ num_zero_bits - 1;
                    x = content_size + bitmask
                in x - and x bitmask)
      | Pad_None \<Rightarrow> content_size)"

section \<open>Closed forms\<close>

lemma nat_trailing_zeros_power: "nat_trailing_zeros (2 ^ k) = k"
  by (induction k) (simp_all add: nat_trailing_zeros.simps)

lemma or_mask: "or n (2 ^ b - 1) + 1 = (n div 2 ^ b + 1) * 2 ^ b" for n :: nat
proof -
  have "or n (mask b) = push_bit b (drop_bit b n) + mask b"
  proof -
    have "or n (mask b) = or (push_bit b (drop_bit b n)) (mask b)"
      by (rule bit_eqI) (auto simp: bit_simps)
    also have "\<dots> = push_bit b (drop_bit b n) + mask b"
      by (rule disjunctive_add [symmetric]) (auto simp: bit_simps)
    finally show ?thesis .
  qed
  then have "or n (2 ^ b - 1) = (n div 2 ^ b) * 2 ^ b + (2 ^ b - 1)"
    by (simp add: mask_eq_exp_minus_1 push_bit_eq_mult drop_bit_eq_div)
  then show ?thesis by (simp add: algebra_simps)
qed

lemma minus_and_mask: "x - and x (2 ^ b - 1) = (x div 2 ^ b) * 2 ^ b" for x :: nat
proof -
  have "and x (2 ^ b - 1) = x mod 2 ^ b" 
    by (simp only: take_bit_eq_mod [symmetric] take_bit_eq_mask mask_eq_exp_minus_1)
  then show ?thesis by (simp add: minus_mod_eq_div_mult)
qed

lemma step_closed_form:
  "padded_size Pad_StepFunction n = (let b = max 8 (floorlog 2 n) - 3 in (n div 2 ^ b + 1) * 2 ^ b)"
proof -
  have npot: "next_power_of_two (n + 1) = 2 ^ floorlog 2 n"
    by (cases "n = 0") (auto simp: next_power_of_two_def floorlog_def)
  have "max (next_power_of_two (n + 1)) 256 = 2 ^ max 8 (floorlog 2 n)"
  proof (cases "8 \<le> floorlog 2 n")
    case True
    then have "(2::nat) ^ 8 \<le> 2 ^ floorlog 2 n" by (rule power_increasing) simp
    with True show ?thesis by (simp add: npot [simplified] max_def)
  next
    case False
    then have "(2::nat) ^ floorlog 2 n < 2 ^ 8" by (intro power_strict_increasing) auto
    with False show ?thesis by (simp add: npot [simplified] max_def)
  qed
  then show ?thesis
    by (simp only: padded_size_def padding_mode.case Let_def nat_trailing_zeros_power or_mask)
qed

lemma padme_closed_form:
  assumes "2 \<le> n"
  shows "padded_size Pad_Padme n = (let z = ilog2 n - (ilog2 (ilog2 n) + 1) in ((n + (2 ^ z - 1)) div 2 ^ z) * 2 ^ z)"
  using assms by (simp only: padded_size_def padding_mode.case Let_def minus_and_mask) simp

lemma ilog2_bounds: "0 < n \<Longrightarrow> 2 ^ ilog2 n \<le> n \<and> n < 2 ^ Suc (ilog2 n)"
proof -
  assume "0 < n"
  moreover from this have "0 < floorlog 2 n" by (simp add: floorlog_def)
  ultimately show ?thesis using floorlog_bounds [of n 2] by (simp add: ilog2_def)
qed

lemma step_bounds: "n < padded_size Pad_StepFunction n \<and> padded_size Pad_StepFunction n \<le> n + max 32 (n div 4)"
proof -
  define b where "b = max 8 (floorlog 2 n) - 3"
  have padded: "padded_size Pad_StepFunction n = (n div 2 ^ b + 1) * 2 ^ b"
    by (simp only: step_closed_form Let_def b_def)
  have "n < (n div 2 ^ b + 1) * 2 ^ b" 
    using div_mult_mod_eq [of n "2 ^ b"] mod_less_divisor [of "2 ^ b" n, OF zero_less_power [OF pos2]]
    by (simp only: distrib_right mult_1)
  moreover have "(n div 2 ^ b + 1) * 2 ^ b \<le> n + 2 ^ b" by (simp add: algebra_simps)
  moreover have "2 ^ b \<le> max 32 (n div 4)"
  proof (cases "8 \<le> floorlog 2 n")
    case True
    then have "0 < n" by (cases "n = 0") (auto simp: floorlog_def)
    moreover have "floorlog 2 n - 1 = 2 + b" using True by (simp add: b_def)
    ultimately have "2 ^ (2 + b) \<le> n" using floorlog_bounds [of n 2] by (metis one_less_numeral_iff semiring_norm(76))
    then have "4 * 2 ^ b \<le> n" by (simp add: power_add)
    then show ?thesis by simp
  next
    case False
    then have "b = 5" by (simp add: b_def)
    then show ?thesis by simp
  qed
  ultimately show ?thesis unfolding padded by linarith
qed

lemma padme_bounds: "n \<le> padded_size Pad_Padme n \<and> padded_size Pad_Padme n \<le> n + n div 8"
proof (cases "n < 2")
  case False
  define e where "e = ilog2 n"
  define z where "z = e - (ilog2 e + 1)"
  have padded: "padded_size Pad_Padme n = ((n + (2 ^ z - 1)) div 2 ^ z) * 2 ^ z"
    using False by (simp add: padme_closed_form Let_def z_def e_def)
  have n: "2 ^ e \<le> n" "n < 2 ^ Suc e" using ilog2_bounds [of n] False by (auto simp: e_def)
  have e: "0 < e" using n False by (cases e) auto
  define q where "q = (n + (2 ^ z - 1)) div 2 ^ z"
  have q: "n + (2 ^ z - 1) = q * 2 ^ z + (n + (2 ^ z - 1)) mod 2 ^ z" unfolding q_def by (simp only: div_mult_mod_eq)
  moreover have "(n + (2 ^ z - 1)) mod 2 ^ z < 2 ^ z" by simp
  ultimately have lower: "n \<le> q * 2 ^ z" and upper: "q * 2 ^ z \<le> n + (2 ^ z - 1)" by linarith+
  have "q * 2 ^ z \<le> n + n div 8"
  proof (cases "e < 4")
    case True
    then have "e = 1 \<or> e = 2 \<or> e = 3" using e by auto
    moreover have "ilog2 1 = 0" "ilog2 2 = 1" "ilog2 3 = 1" by code_simp+
    ultimately consider "z = 0" | "e = 3" "z = 1" by (auto simp: z_def)
    then show ?thesis
    proof cases
      case 2
      then have "8 \<le> n" using n(1) by simp
      then show ?thesis using upper 2 by simp
    qed (use upper in simp)
  next
    case False
    then have "(2::nat) ^ 2 < 2 ^ Suc (ilog2 e)" using ilog2_bounds [OF e] by simp
    then have "2 < Suc (ilog2 e)" by (rule power_less_imp_less_exp [rotated]) simp
    then have "2 \<le> ilog2 e" by simp
    then have "z + 3 \<le> e \<or> z = 0" by (auto simp: z_def)
    then show ?thesis
    proof
      assume "z + 3 \<le> e"
      then have "(2::nat) ^ (z + 3) \<le> 2 ^ e" by (intro power_increasing) auto
      then have "8 * 2 ^ z \<le> n" using n(1) by (simp add: power_add)
      then show ?thesis using upper by linarith
    qed (use upper in simp)
  qed
  with lower show ?thesis by (simp add: padded q_def)
qed (simp add: padded_size_def)

text \<open>
  C32. A padded message holds the message, and the overhead is bounded: the step function adds at most a quarter (but up to
  32 bytes to short messages), Padme at most an eighth.
\<close>
theorem padded_size_bounds:
  "n \<le> padded_size mode n \<and>
   padded_size mode n \<le> n + (case mode of Pad_StepFunction \<Rightarrow> max 32 (n div 4) | Pad_Padme \<Rightarrow> n div 8 | Pad_None \<Rightarrow> 0)"
  using step_bounds [of n] padme_bounds [of n] by (cases mode) (auto simp: padded_size_def)


end
