(* ===== verification/MessageProtection.thy ===== *)
theory MessageProtection
  imports MessageAuth Padding TreeHash
begin

text \<open>
  Private messages (\<^verbatim>\<open>group/ciphertext_processor.rs\<close> with \<^verbatim>\<open>message_key.rs\<close>, \<^verbatim>\<open>reuse_guard.rs\<close> and \<^verbatim>\<open>sender_data_key.rs\<close>):
  sealing takes the next key of the sender from the secret tree, pads and encrypts the content and then the sender data;
  opening goes the other way. The state of an epoch that both use (\<^verbatim>\<open>GroupStateProvider\<close>) is the group context, the own leaf
  index and the secrets of the epoch. The bytes of the reuse guard, drawn at random, are an argument.
\<close>

section \<open>Model\<close>

record epoch_state =
  es_context :: group_context
  es_self_index :: leaf_index
  es_secrets :: epoch_secrets

definition set_secret_tree :: "secret_tree \<Rightarrow> epoch_state \<Rightarrow> epoch_state" where
  "set_secret_tree tree es = es\<lparr>es_secrets := (es_secrets es)\<lparr>epoch_secret_tree := tree\<rparr>\<rparr>"

definition next_encryption_key :: "cipher_suite_provider \<Rightarrow> epoch_state \<Rightarrow> key_type \<Rightarrow> epoch_state \<times> message_key_data res" where
  "next_encryption_key csp es t =
     (let (tree, k) = st_next_message_key csp (epoch_secret_tree (es_secrets es)) (node_of_leaf (es_self_index es)) t
      in (set_secret_tree tree es, k))"

definition decryption_key ::
    "cipher_suite_provider \<Rightarrow> epoch_state \<Rightarrow> leaf_index \<Rightarrow> key_type \<Rightarrow> u32 \<Rightarrow> epoch_state \<times> message_key_data res" where
  "decryption_key csp es s t generation =
     (let (tree, k) = st_message_key_generation csp (epoch_secret_tree (es_secrets es)) (node_of_leaf s) t generation
      in (set_secret_tree tree es, k))"

definition REUSE_GUARD_SIZE :: nat where
  "REUSE_GUARD_SIZE = 4"

fun reuse_guard_apply :: "byte list \<Rightarrow> byte list \<Rightarrow> byte list" where
  "reuse_guard_apply (g # gs) (n # ns) = xor n g # reuse_guard_apply gs ns"
| "reuse_guard_apply _ ns = ns"

definition message_key_encrypt ::
    "message_key_data \<Rightarrow> cipher_suite_provider \<Rightarrow> byte list \<Rightarrow> byte list \<Rightarrow> byte list \<Rightarrow> any_error + byte list" where
  "message_key_encrypt k csp data aad guard = aead_seal csp (mk_key k) data (Some aad) (reuse_guard_apply guard (mk_nonce k))"

definition message_key_decrypt ::
    "message_key_data \<Rightarrow> cipher_suite_provider \<Rightarrow> byte list \<Rightarrow> byte list \<Rightarrow> byte list \<Rightarrow> any_error + byte list" where
  "message_key_decrypt k csp data aad guard = aead_open csp (mk_key k) data (Some aad) (reuse_guard_apply guard (mk_nonce k))"

record sender_data =
  sd_sender :: leaf_index
  sd_generation :: u32
  sd_reuse_guard :: "byte list"

definition sender_data_codec :: "sender_data codec" where
  "sender_data_codec =
     struct_codec (\<lambda>s. (sd_sender s, sd_generation s, sd_reuse_guard s))
       (\<lambda>(s, g, r). \<lparr>sd_sender = s, sd_generation = g, sd_reuse_guard = r\<rparr>)
       (pair_codec leaf_index_codec (pair_codec u32_codec (array_codec REUSE_GUARD_SIZE)))"

record sender_data_aad =
  sda_group_id :: "byte list"
  sda_epoch :: u64
  sda_content_type :: content_type

definition sender_data_aad_codec :: "sender_data_aad codec" where
  "sender_data_aad_codec =
     struct_codec (\<lambda>a. (sda_group_id a, sda_epoch a, sda_content_type a))
       (\<lambda>(g, e, t). \<lparr>sda_group_id = g, sda_epoch = e, sda_content_type = t\<rparr>)
       (pair_codec byte_vec_codec (pair_codec u64_codec content_type_codec))"

record sender_data_key =
  sdk_key :: "byte list"
  sdk_nonce :: "byte list"

definition sender_data_key_new :: "byte list \<Rightarrow> byte list \<Rightarrow> cipher_suite_provider \<Rightarrow> sender_data_key res" where
  "sender_data_key_new secret ct csp =
     (let sample = (if kdf_extract_size csp \<le> length ct then take (kdf_extract_size csp) ct else ct)
      in bindR (kdf_expand_with_label csp secret (bytes_of ''key'') sample (Some (aead_key_size csp))) (\<lambda>key.
         bindR (kdf_expand_with_label csp secret (bytes_of ''nonce'') sample (Some (aead_nonce_size csp))) (\<lambda>nonce.
           Inr \<lparr>sdk_key = key, sdk_nonce = nonce\<rparr>)))"

definition sender_data_seal ::
    "cipher_suite_provider \<Rightarrow> sender_data_key \<Rightarrow> sender_data \<Rightarrow> sender_data_aad \<Rightarrow> byte list res" where
  "sender_data_seal csp k s aad =
     bindR (codecR (c_enc sender_data_codec s)) (\<lambda>data.
     bindR (codecR (c_enc sender_data_aad_codec aad)) (\<lambda>aad.
       crypto (aead_seal csp (sdk_key k) data (Some aad) (sdk_nonce k))))"

definition sender_data_open ::
    "cipher_suite_provider \<Rightarrow> sender_data_key \<Rightarrow> byte list \<Rightarrow> sender_data_aad \<Rightarrow> sender_data res" where
  "sender_data_open csp k s aad =
     bindR (codecR (c_enc sender_data_aad_codec aad)) (\<lambda>aad.
     bindR (crypto (aead_open csp (sdk_key k) s (Some aad) (sdk_nonce k))) (\<lambda>data.
     bindR (codecR (c_dec sender_data_codec data)) (\<lambda>(s, _). Inr s)))"

definition content_key_type :: "content_type \<Rightarrow> key_type" where
  "content_key_type t = (case t of Ct_Application \<Rightarrow> Application | _ \<Rightarrow> Handshake)"

definition sender_aad :: "epoch_state \<Rightarrow> content_type \<Rightarrow> sender_data_aad" where
  "sender_aad es t = \<lparr>sda_group_id = gc_group_id (es_context es), sda_epoch = gc_epoch (es_context es), sda_content_type = t\<rparr>"

text \<open>The part of \<^verbatim>\<open>seal\<close> after the key is drawn: encryption of the content and of the sender data.\<close>

definition seal_with_key ::
    "cipher_suite_provider \<Rightarrow> epoch_state \<Rightarrow> message_key_data \<Rightarrow> byte list \<Rightarrow> byte list \<Rightarrow> private_content_aad \<Rightarrow>
     private_message res" where
  "seal_with_key csp es k guard plain aad =
     bindR (codecR (c_enc private_content_aad_codec aad)) (\<lambda>aad_bytes.
     bindR (crypto (message_key_encrypt k csp plain aad_bytes guard)) (\<lambda>ct.
     bindR (sender_data_key_new (sender_data_secret (es_secrets es)) ct csp) (\<lambda>sdk.
     bindR (sender_data_seal csp sdk
         \<lparr>sd_sender = es_self_index es, sd_generation = mk_generation k, sd_reuse_guard = guard\<rparr>
         (sender_aad es (pca_content_type aad))) (\<lambda>esd.
       Inr \<lparr>prm_group_id = gc_group_id (es_context es), prm_epoch = gc_epoch (es_context es),
         prm_content_type = pca_content_type aad, prm_authenticated_data = pca_authenticated_data aad,
         prm_encrypted_sender_data = esd, prm_ciphertext = ct\<rparr>))))"

definition seal ::
    "cipher_suite_provider \<Rightarrow> any_error + byte list \<Rightarrow> epoch_state \<Rightarrow> authenticated_content \<Rightarrow> padding_mode \<Rightarrow>
     epoch_state \<times> private_message res" where
  "seal csp random es a padding =
     (let fc = ac_content a;
          t = content_type_of (fc_content fc);
          aad = \<lparr>pca_group_id = fc_group_id fc, pca_epoch = fc_epoch fc, pca_content_type = t,
            pca_authenticated_data = fc_authenticated_data fc\<rparr>
      in case bindR (guardR (Sender_Member (es_self_index es) = fc_sender fc) (Message_Error InvalidSender)) (\<lambda>_.
              bindR (crypto random) (\<lambda>guard.
              bindR (codecR (private_content_encode \<lparr>pc_content = fc_content fc, pc_auth = ac_auth a\<rparr>)) (\<lambda>serialized.
                Inr (guard, resize (padded_size padding (length serialized)) 0 serialized)))) of
           Inl e \<Rightarrow> (es, Inl e)
         | Inr (guard, plain) \<Rightarrow>
             (case next_encryption_key csp es (content_key_type t) of
                (es', Inl e) \<Rightarrow> (es', Inl e)
              | (es', Inr k) \<Rightarrow> (es', seal_with_key csp es' k guard plain aad)))"

definition open_message :: "cipher_suite_provider \<Rightarrow> epoch_state \<Rightarrow> private_message \<Rightarrow> epoch_state \<times> authenticated_content res" where
  "open_message csp es m =
     (case bindR (sender_data_key_new (sender_data_secret (es_secrets es)) (prm_ciphertext m) csp) (\<lambda>sdk.
           bindR (sender_data_open csp sdk (prm_encrypted_sender_data m) (sender_aad es (prm_content_type m))) (\<lambda>sd.
           bindR (guardR (es_self_index es \<noteq> sd_sender sd) CantProcessMessageFromSelf) (\<lambda>_. Inr sd))) of
        Inl e \<Rightarrow> (es, Inl e)
      | Inr sd \<Rightarrow>
          (case decryption_key csp es (sd_sender sd) (content_key_type (prm_content_type m)) (sd_generation sd) of
             (es', Inl e) \<Rightarrow> (es', Inl e)
           | (es', Inr k) \<Rightarrow>
               (es', bindR (codecR (c_enc private_content_aad_codec (aad_from_message m))) (\<lambda>aad.
                     bindR (crypto (message_key_decrypt k csp (prm_ciphertext m) aad (sd_reuse_guard sd))) (\<lambda>plain.
                     bindR (codecR (private_content_decode plain (prm_content_type m))) (\<lambda>pc.
                       Inr \<lparr>ac_wire_format = Wf_PrivateMessage,
                         ac_content = \<lparr>fc_group_id = prm_group_id m, fc_epoch = prm_epoch m,
                           fc_sender = Sender_Member (sd_sender sd), fc_authenticated_data = prm_authenticated_data m,
                           fc_content = pc_content pc\<rparr>,
                         ac_auth = pc_auth pc\<rparr>))))))"

section \<open>Keys\<close>

lemma leaf_key_generation: "leaf_key csp enc d l t g = Inr k \<Longrightarrow> mk_generation k = of_nat g"
  by (auto simp: leaf_key_def chain_key_def)

lemma next_encryption_key_sim:
  assumes "tree_sim csp enc d n W (epoch_secret_tree (es_secrets es))" "n + 1025 < 2 ^ 32"
    and "es_self_index es = of_nat l" "l < 2 ^ d" "next_encryption_key csp es t = (es', r)"
  shows "r = leaf_key csp enc d l t (kw_next (W l t)) \<and> (\<exists>tree. es' = set_secret_tree tree es)"
proof -
  obtain tree where step: "secret_tree_step csp (l, t, Op_Next) (epoch_secret_tree (es_secrets es)) = (tree, r)"
    and es': "es' = set_secret_tree tree es"
    using assms(3,5) by (auto simp: next_encryption_key_def split: prod.splits)
  obtain W' b where w: "windows_step (l, t, Op_Next) W = (W', b)" by fastforce
  from secret_tree_step_sim [OF assms(1,2,4) step w] w show ?thesis by (auto simp: es' Let_def)
qed

lemma decryption_key_sim:
  assumes sim: "tree_sim csp enc d n V (epoch_secret_tree (es_secrets es))" and "n + 1025 < 2 ^ 32" "l < 2 ^ d"
    and key: "decryption_key csp es (of_nat l) t generation = (es', r)"
    and w: "window_step (Op_Get generation) (V l t) = (w', a)"
  shows "r = bindR a (leaf_key csp enc d l t) \<and> (\<exists>tree. es' = set_secret_tree tree es \<and>
    tree_sim csp enc d (n + 1025) (V(l := (V l)(t := w'))) tree)"
proof -
  obtain tree where step: "secret_tree_step csp (l, t, Op_Get generation) (epoch_secret_tree (es_secrets es)) = (tree, r)"
    and es': "es' = set_secret_tree tree es"
    using key by (auto simp: decryption_key_def split: prod.splits)
  have "windows_step (l, t, Op_Get generation) V = (V(l := (V l)(t := w')), (l, t, a))" using w by simp
  from secret_tree_step_sim [OF sim assms(2,3) step this] show ?thesis by (auto simp: es')
qed

lemma window_get_fresh:
  assumes "unat generation = g" "g \<notin> set (kw_used w)" "g \<le> kw_next w + 1024"
  shows "\<exists>w'. window_step (Op_Get generation) w = (w', Inr g) \<and>
    window_step (Op_Get generation) w' = (w', Inl (KeyMissing generation))"
  using assms by auto

section \<open>Content\<close>

lemma sender_data_mls:
  "mls_codec sender_data_codec (\<lambda>s. sd_sender s \<le> MAX_LEAF_INDEX \<and> length (sd_reuse_guard s) = REUSE_GUARD_SIZE)"
  unfolding sender_data_codec_def
  by (rule stream_mls, rule stream_codec_cong [OF struct_stream])
    (rule stream_intros pair_mls canonical_mls [OF array_codec_canonical] | auto split: prod.splits)+

text \<open>The AEAD of the cipher suite opens what it sealed under the same key, nonce and associated data.\<close>

definition aead_correct :: "cipher_suite_provider \<Rightarrow> bool" where
  "aead_correct csp \<longleftrightarrow>
     (\<forall>key data aad nonce ct. aead_seal csp key data aad nonce = Inr ct \<longrightarrow> aead_open csp key ct aad nonce = Inr data)"

lemma sender_data_opens:
  assumes "aead_correct csp" "sender_data_seal csp k s aad = Inr esd"
    and "sd_sender s \<le> MAX_LEAF_INDEX" "length (sd_reuse_guard s) = REUSE_GUARD_SIZE"
  shows "sender_data_open csp k esd aad = Inr s"
proof -
  obtain data aad' where parts: "c_enc sender_data_codec s = Inr data" "c_enc sender_data_aad_codec aad = Inr aad'"
    "aead_seal csp (sdk_key k) data (Some aad') (sdk_nonce k) = Inr esd"
    using assms(2) by (auto simp: sender_data_seal_def)
  moreover have "aead_open csp (sdk_key k) esd (Some aad') (sdk_nonce k) = Inr data"
    using assms(1) parts(3) by (simp add: aead_correct_def)
  moreover have "c_dec sender_data_codec data = Inr (s, [])"
    using mls_codec.round_trip [OF sender_data_mls _ parts(1), of "[]"] assms(3,4) by simp
  ultimately show ?thesis by (simp add: sender_data_open_def)
qed

lemma resize_padded: "resize (padded_size mode (length xs)) 0 xs = xs @ replicate (padded_size mode (length xs) - length xs) 0"
  using step_bounds [of "length xs"] padme_bounds [of "length xs"] by (cases mode) (auto simp: resize_def padded_size_def [of Pad_None])

lemma seal_cases:
  assumes "seal csp (Inr guard) es a padding = (es', Inr m)"
  obtains serialized k where
    "fc_sender (ac_content a) = Sender_Member (es_self_index es)"
    "private_content_encode \<lparr>pc_content = fc_content (ac_content a), pc_auth = ac_auth a\<rparr> = Inr serialized"
    "next_encryption_key csp es (content_key_type (content_type_of (fc_content (ac_content a)))) = (es', Inr k)"
    "seal_with_key csp es' k guard (serialized @ replicate (padded_size padding (length serialized) - length serialized) 0)
       \<lparr>pca_group_id = fc_group_id (ac_content a), pca_epoch = fc_epoch (ac_content a),
        pca_content_type = content_type_of (fc_content (ac_content a)),
        pca_authenticated_data = fc_authenticated_data (ac_content a)\<rparr> = Inr m"
proof -
  obtain serialized where ser: "fc_sender (ac_content a) = Sender_Member (es_self_index es)"
    "private_content_encode \<lparr>pc_content = fc_content (ac_content a), pc_auth = ac_auth a\<rparr> = Inr serialized"
    using assms by (cases "private_content_encode \<lparr>pc_content = fc_content (ac_content a), pc_auth = ac_auth a\<rparr>")
      (auto simp: seal_def Let_def guardR_def split: if_splits)
  obtain es1 r where nk: "next_encryption_key csp es (content_key_type (content_type_of (fc_content (ac_content a)))) = (es1, r)"
    by fastforce
  show ?thesis
    using that [OF ser] assms ser nk
    by (cases r) (auto simp: seal_def Let_def guardR_def resize_padded)
qed

lemma seal_with_key_cases:
  assumes "seal_with_key csp es k guard plain aad = Inr m"
  obtains aad_bytes ct sdk esd where
    "c_enc private_content_aad_codec aad = Inr aad_bytes" "message_key_encrypt k csp plain aad_bytes guard = Inr ct"
    "sender_data_key_new (sender_data_secret (es_secrets es)) ct csp = Inr sdk"
    "sender_data_seal csp sdk \<lparr>sd_sender = es_self_index es, sd_generation = mk_generation k, sd_reuse_guard = guard\<rparr>
       (sender_aad es (pca_content_type aad)) = Inr esd"
    "m = \<lparr>prm_group_id = gc_group_id (es_context es), prm_epoch = gc_epoch (es_context es),
       prm_content_type = pca_content_type aad, prm_authenticated_data = pca_authenticated_data aad,
       prm_encrypted_sender_data = esd, prm_ciphertext = ct\<rparr>"
  using assms by (auto simp: seal_with_key_def)

text \<open>What the receiver does with a sealed message, given the answer of its secret tree.\<close>

lemma open_sealed:
  assumes aead: "aead_correct csp" and seal: "seal_with_key csp S k guard plain aad = Inr m"
    and idx: "es_self_index S \<le> MAX_LEAF_INDEX" "length guard = REUSE_GUARD_SIZE"
    and other: "es_self_index R \<noteq> es_self_index S" "es_context R = es_context S"
      "sender_data_secret (es_secrets R) = sender_data_secret (es_secrets S)"
    and aad: "pca_group_id aad = gc_group_id (es_context S)" "pca_epoch aad = gc_epoch (es_context S)"
  shows "decryption_key csp R (es_self_index S) (content_key_type (pca_content_type aad)) (mk_generation k) = (R', Inr k) \<Longrightarrow>
      open_message csp R m =
        (R', bindR (codecR (private_content_decode plain (pca_content_type aad))) (\<lambda>pc.
           Inr \<lparr>ac_wire_format = Wf_PrivateMessage,
             ac_content = \<lparr>fc_group_id = pca_group_id aad, fc_epoch = pca_epoch aad, fc_sender = Sender_Member (es_self_index S),
               fc_authenticated_data = pca_authenticated_data aad, fc_content = pc_content pc\<rparr>, ac_auth = pc_auth pc\<rparr>))"
    and "decryption_key csp R (es_self_index S) (content_key_type (pca_content_type aad)) (mk_generation k) = (R', Inl e) \<Longrightarrow>
      open_message csp R m = (R', Inl e)"
proof -
  obtain aad_bytes ct sdk esd where parts: "c_enc private_content_aad_codec aad = Inr aad_bytes"
    "message_key_encrypt k csp plain aad_bytes guard = Inr ct"
    "sender_data_key_new (sender_data_secret (es_secrets S)) ct csp = Inr sdk"
    "sender_data_seal csp sdk \<lparr>sd_sender = es_self_index S, sd_generation = mk_generation k, sd_reuse_guard = guard\<rparr>
       (sender_aad S (pca_content_type aad)) = Inr esd"
    and m: "m = \<lparr>prm_group_id = gc_group_id (es_context S), prm_epoch = gc_epoch (es_context S),
       prm_content_type = pca_content_type aad, prm_authenticated_data = pca_authenticated_data aad,
       prm_encrypted_sender_data = esd, prm_ciphertext = ct\<rparr>"
    using seal by (rule seal_with_key_cases)
  have sd: "sender_data_open csp sdk esd (sender_aad R (pca_content_type aad)) =
      Inr \<lparr>sd_sender = es_self_index S, sd_generation = mk_generation k, sd_reuse_guard = guard\<rparr>"
    using sender_data_opens [OF aead parts(4)] idx other(2) by (simp add: sender_aad_def)
  have "message_key_decrypt k csp ct aad_bytes guard = Inr plain"
    using aead parts(2) by (simp add: aead_correct_def message_key_encrypt_def message_key_decrypt_def)
  moreover have "aad_from_message m = aad" using aad by (simp add: m aad_from_message_def)
  ultimately show "open_message csp R m =
        (R', bindR (codecR (private_content_decode plain (pca_content_type aad))) (\<lambda>pc.
           Inr \<lparr>ac_wire_format = Wf_PrivateMessage,
             ac_content = \<lparr>fc_group_id = pca_group_id aad, fc_epoch = pca_epoch aad, fc_sender = Sender_Member (es_self_index S),
               fc_authenticated_data = pca_authenticated_data aad, fc_content = pc_content pc\<rparr>, ac_auth = pc_auth pc\<rparr>))"
    if "decryption_key csp R (es_self_index S) (content_key_type (pca_content_type aad)) (mk_generation k) = (R', Inr k)"
    using that parts sd other aad by (simp add: open_message_def m guardR_def)
  show "open_message csp R m = (R', Inl e)"
    if "decryption_key csp R (es_self_index S) (content_key_type (pca_content_type aad)) (mk_generation k) = (R', Inl e)"
    using that parts sd other by (simp add: open_message_def m guardR_def)
qed

text \<open>
  C1. A private message reaches its receivers: what a member seals, every other member of the epoch whose secret tree descends
  from the same encryption secret opens to the very content that was sealed, provided the generation of the key has not been
  used and is not more than 1024 ahead of the receiver's ratchet. The key is then gone: the same message opened again is
  refused.
\<close>
theorem sealed_message_opens_once:
  assumes aead: "aead_correct csp"
    and trees: "tree_sim csp enc d n W (epoch_secret_tree (es_secrets S))" "tree_sim csp enc d n' V (epoch_secret_tree (es_secrets R))"
    and room: "n + 1025 < 2 ^ 32" "n' + 2050 < 2 ^ 32"
    and epoch: "es_context R = es_context S" "sender_data_secret (es_secrets R) = sender_data_secret (es_secrets S)"
    and idx: "es_self_index S = of_nat l" "l < 2 ^ d" "es_self_index S \<le> MAX_LEAF_INDEX" "es_self_index R \<noteq> es_self_index S"
    and a: "auth_content_ok a" "ac_wire_format a = Wf_PrivateMessage"
      "fc_group_id (ac_content a) = gc_group_id (es_context S)" "fc_epoch (ac_content a) = gc_epoch (es_context S)"
    and seal: "seal csp (Inr guard) S a padding = (S', Inr m)" "length guard = REUSE_GUARD_SIZE"
    and t: "t = content_key_type (content_type_of (fc_content (ac_content a)))"
    and fresh: "kw_next (W l t) \<notin> set (kw_used (V l t))" "kw_next (W l t) \<le> kw_next (V l t) + 1024"
  shows "\<exists>R'. open_message csp R m = (R', Inr a) \<and>
    snd (open_message csp R' m) = Inl (KeyMissing (of_nat (kw_next (W l t))))"
proof -
  let ?g = "kw_next (W l t)" and ?fc = "ac_content a"
  let ?aad = "\<lparr>pca_group_id = fc_group_id ?fc, pca_epoch = fc_epoch ?fc, pca_content_type = content_type_of (fc_content ?fc),
    pca_authenticated_data = fc_authenticated_data ?fc\<rparr>"
  obtain bs k where s: "fc_sender ?fc = Sender_Member (es_self_index S)"
    and bs: "private_content_encode \<lparr>pc_content = fc_content ?fc, pc_auth = ac_auth a\<rparr> = Inr bs"
    and key: "next_encryption_key csp S t = (S', Inr k)"
    and sealed: "seal_with_key csp S' k guard (bs @ replicate (padded_size padding (length bs) - length bs) 0) ?aad = Inr m"
    using seal(1) unfolding t by (rule seal_cases)
  obtain tree where S': "S' = set_secret_tree tree S" and k: "leaf_key csp enc d l t ?g = Inr k"
    using next_encryption_key_sim [OF trees(1) room(1) idx(1,2) key] by auto
  have "?g \<le> n" using trees(1) by (simp add: tree_sim_def)
  then have gen: "mk_generation k = of_nat ?g" "unat (of_nat ?g :: u32) = ?g"
    using leaf_key_generation [OF k] room(1) by (simp_all add: unat_of_nat_small)
  obtain w' where w: "window_step (Op_Get (of_nat ?g)) (V l t) = (w', Inr ?g)"
    "window_step (Op_Get (of_nat ?g)) w' = (w', Inl (KeyMissing (of_nat ?g)))"
    using window_get_fresh [OF gen(2) fresh] by blast
  have S'_sel: "es_self_index S' = of_nat l" "es_context S' = es_context S" "sender_data_secret (es_secrets S') = sender_data_secret (es_secrets S)"
    by (simp_all add: S' set_secret_tree_def idx(1))
  obtain R' r where d1: "decryption_key csp R (of_nat l) t (of_nat ?g) = (R', r)" by fastforce
  obtain tree' where r: "r = Inr k" and R': "R' = set_secret_tree tree' R"
    and sim': "tree_sim csp enc d (n' + 1025) (V(l := (V l)(t := w'))) tree'"
    using decryption_key_sim [OF trees(2) _ idx(2) d1 w(1)] room(2) k by auto
  obtain R'' r' where d2: "decryption_key csp R' (of_nat l) t (of_nat ?g) = (R'', r')" by fastforce
  have "r' = Inl (KeyMissing (of_nat ?g))"
    using decryption_key_sim [OF _ _ idx(2) d2, where V = "V(l := (V l)(t := w'))" and w' = w'] sim' w(2) room(2)
    by (fastforce simp: R' set_secret_tree_def)
  with open_sealed(2) [OF aead sealed, of R' R''] d2 idx S'_sel epoch a seal(2) gen(1)
  have again: "open_message csp R' m = (R'', Inl (KeyMissing (of_nat ?g)))"
    by (simp add: R' set_secret_tree_def t)
  have "private_content_decode (bs @ replicate (padded_size padding (length bs) - length bs) 0) (content_type_of (fc_content ?fc)) =
      Inr \<lparr>pc_content = fc_content ?fc, pc_auth = ac_auth a\<rparr>"
    using private_content_round_trip [OF bs] a(1) by (simp add: auth_content_ok_def)
  with open_sealed(1) [OF aead sealed, of R R'] d1 r idx S'_sel epoch a seal(2) gen(1) s
  have "open_message csp R m = (R', Inr a)" by (simp add: t)
  with again show ?thesis by auto
qed

definition sample_epoch :: "leaf_index \<Rightarrow> epoch_state" where
  "sample_epoch i = \<lparr>es_context = sample_context, es_self_index = i, es_secrets = \<lparr>resumption_secret = [],
     sender_data_secret = [3], epoch_secret_tree = secret_tree_new 2 [7]\<rparr>\<rparr>"

definition sample_private :: authenticated_content where
  "sample_private = sample_signed\<lparr>ac_wire_format := Wf_PrivateMessage\<rparr>"

lemma sample_seals: "\<not> isl (snd (seal sample_csp (Inr [1, 2, 3, 4]) (sample_epoch 0) sample_private Pad_Padme))"
  unfolding sample_epoch_def sample_private_def sample_signed_def sample_auth_content_def by code_simp

theorem sealed_message_opens_once_witness:
  "\<exists>S m R. seal sample_csp (Inr [1, 2, 3, 4]) (sample_epoch 0) sample_private Pad_Padme = (S, Inr m) \<and>
     open_message sample_csp (sample_epoch 1) m = (R, Inr sample_private) \<and>
     snd (open_message sample_csp R m) = Inl (KeyMissing 0)"
proof -
  obtain S m where seal: "seal sample_csp (Inr [1, 2, 3, 4]) (sample_epoch 0) sample_private Pad_Padme = (S, Inr m)"
    using sample_seals by (cases "seal sample_csp (Inr [1, 2, 3, 4]) (sample_epoch 0) sample_private Pad_Padme"; cases "snd (seal sample_csp (Inr [1, 2, 3, 4]) (sample_epoch 0) sample_private Pad_Padme)") auto
  have sim: "tree_sim sample_csp [7] 1 0 (\<lambda>_ _. fresh_window) (epoch_secret_tree (es_secrets (sample_epoch i)))" for i
    using tree_sim_new [OF sample_kdf_total sample_requests_ok(1,2)] by (simp add: sample_epoch_def)
  have aead: "aead_correct sample_csp" by (auto simp: aead_correct_def sample_csp_def)
  have a: "auth_content_ok sample_private" "ac_wire_format sample_private = Wf_PrivateMessage"
    "fc_group_id (ac_content sample_private) = gc_group_id sample_context" "fc_epoch (ac_content sample_private) = gc_epoch sample_context"
    by (simp_all add: sample_private_def sample_signed_def set_signature_def sample_auth_content_def auth_content_new_def
        auth_content_ok_def auth_data_ok_def)
  from sealed_message_opens_once [OF aead sim [of 0] sim [of 1] _ _ _ _ _ _ _ _ a(1,2) _ _ seal _ refl, of 0] seal a(3,4)
  show ?thesis by (auto simp: sample_epoch_def MAX_LEAF_INDEX_def REUSE_GUARD_SIZE_def fresh_window_def)
qed

end
