(* ===== verification/Spec2Isabelle.thy ===== *)
theory Spec2Isabelle
  imports BatchEdit ValidationLaws FramingLaws SecretTreeLaws MessageProtection
begin

text \<open>
  \<^bold>\<open>A verification development of mls-rs\<close>, an implementation of Messaging Layer Security (RFC 9420) in Rust. File names
  are relative to \<^verbatim>\<open>src/\<close>.

  \<^bold>\<open>The program.\<close> The members of a group share a ratchet tree: an array of nodes with the members at the even positions
  and HPKE keys of subtrees at the odd ones. Proposals (add, remove, update, ...) are collected in a commit; the committer
  edits the tree, refreshes the keys on its path to the root, encrypts the new path secrets to the subtrees of its copath
  and signs the result. Every member derives the secrets of the next epoch from the commit secret with the key schedule, and
  message keys from a tree of secrets. Messages are framed, signed, and either tagged with a membership key (public
  messages) or encrypted (private messages).

  \<^bold>\<open>Conventions.\<close> A fallible operation returns \<open>'e + 'a\<close> with the error on the left, most often \<open>'a res = mls_error + 'a\<close>
  with the constructors of \<^verbatim>\<open>MlsError\<close>; \<open>Mls_Panic\<close> and \<open>Mls_Diverges\<close> stand for a panic and for a loop that does not end.
  Operations on \<^verbatim>\<open>&mut self\<close> take the state and return it; where the caller goes on with the state after an error, the state
  is returned beside the result. Fixed-width integers are words with wrap-around, as in a release build; \<^verbatim>\<open>usize\<close> is \<open>nat\<close>.
  Hash maps are association lists. The cipher suite and identity providers are records of functions, parameters of the
  model; what theorems need of them (that decryption inverts encryption, that a signature verifies) are named hypotheses,
  and the instance in theory \<open>Samples\<close> shows that they can hold. Outcomes of random choices are arguments. The build modelled
  has the features std, by_ref_proposal, tree_index, custom_proposal, private_message, out_of_order, psk, x509 and prior_epoch.

  \<^bold>\<open>Theories\<close>, in the order of their imports:
  \<^item> \<open>Prelude\<close>: results and their monad, lists, association lists, words.
  \<^item> \<open>Codec\<close>, \<open>CodecLaws\<close> (\<^verbatim>\<open>mls-rs-codec\<close>, \<^verbatim>\<open>mls-rs-codec-derive\<close>): the encoders and decoders as a record of functions and
    combinators for structs, enums, vectors, options. The locales \<open>mls_codec\<close>, \<open>canonical_codec\<close>, \<open>stream_codec\<close> and
    \<open>wire_codec\<close> state what a codec promises and are interpreted for each codec; \<open>StreamCodecs\<close> has the combinators for
    messages.
  \<^item> \<open>TreeMath\<close> (\<^verbatim>\<open>mls-rs/src/tree_kem/math.rs\<close>): index arithmetic, described by the level and offset of a node.
  \<^item> \<open>MlsTypes\<close>, \<open>MlsTypesLaws\<close> (\<^verbatim>\<open>mls-rs-core\<close>, \<^verbatim>\<open>leaf_node.rs\<close>, \<^verbatim>\<open>lifetime.rs\<close>, \<^verbatim>\<open>signer.rs\<close>): extensions, credentials,
    capabilities, leaf and parent nodes, group contexts, signing; \<open>Samples\<close>: a concrete provider for the witnesses.
  \<^item> \<open>NodeVec\<close>, \<open>NodeVecLaws\<close> (\<^verbatim>\<open>node.rs\<close>): the array of nodes, resolutions. \<open>TreeIndex\<close> (\<^verbatim>\<open>tree_index.rs\<close>): the index of
    leaves; the locale \<open>leaf_registry\<close> states its contract. \<open>TreeHash\<close>, \<open>TreeHashLaws\<close> (\<^verbatim>\<open>tree_hash.rs\<close>): tree hashes and
    their cache.
  \<^item> \<open>Proposals\<close> (\<^verbatim>\<open>group/proposal.rs\<close>, \<^verbatim>\<open>key_package/mod.rs\<close>, \<^verbatim>\<open>proposal_filter/bundle.rs\<close>): proposals and bundles.
  \<^item> \<open>Simulation\<close>, \<open>SecretTree\<close>, \<open>SecretTreeLaws\<close> (\<^verbatim>\<open>group/secret_tree.rs\<close>): message keys; the abstract machine is a window
    of generations for each leaf and key type, refined twice through the locale \<open>simulation\<close>.
  \<^item> \<open>KeySchedule\<close> (\<^verbatim>\<open>key_schedule.rs\<close>, \<^verbatim>\<open>epoch.rs\<close>, \<^verbatim>\<open>psk/secret.rs\<close>): the secrets of an epoch.
  \<^item> \<open>Framing\<close>, \<open>FramingLaws\<close>, \<open>MessageAuth\<close> (\<^verbatim>\<open>framing.rs\<close>, \<^verbatim>\<open>message_signature.rs\<close>, \<^verbatim>\<open>membership_tag.rs\<close>,
    \<^verbatim>\<open>message_verifier.rs\<close>, ...): messages, their wire format and authentication; \<open>Padding\<close>, \<open>MessageProtection\<close>
    (\<^verbatim>\<open>padding.rs\<close>, \<^verbatim>\<open>ciphertext_processor.rs\<close>): private messages.
  \<^item> \<open>TreeKem\<close> (\<^verbatim>\<open>tree_kem/mod.rs\<close>, \<^verbatim>\<open>parent_hash.rs\<close>): the public ratchet tree, its batch edits, update paths and parent
    hashes. \<open>Kem\<close> (\<^verbatim>\<open>kem.rs\<close>, \<^verbatim>\<open>path_secret.rs\<close>, \<^verbatim>\<open>private.rs\<close>, \<^verbatim>\<open>hpke_encryption.rs\<close>): encapsulation and decapsulation.
    \<open>Validation\<close> (\<^verbatim>\<open>leaf_node_validator.rs\<close>, \<^verbatim>\<open>tree_validator.rs\<close>, \<^verbatim>\<open>update_path.rs\<close>, \<^verbatim>\<open>key_package/validator.rs\<close>,
    \<^verbatim>\<open>generator.rs\<close>): what is checked of the nodes, trees, paths and key packages of others.
  \<^item> \<open>TreeKemLaws\<close>, \<open>BatchEdit\<close>, \<open>ValidationLaws\<close>: the invariant of a ratchet tree, that editing keeps it, and what
    validation establishes.

  \<^bold>\<open>What is shown.\<close> Wire formats: decoders invert encoders and, where the format is canonical, accept nothing else
  (integers, trees, group contexts, messages), and end on every input. Trees: the copath partitions the leaves; the stack
  machine for resolutions, the work queue for hashes and the incremental hash cache agree with definitions by recursion on
  the tree; the index accepts what a scan of the leaves accepts; a batch of proposals keeps the invariant of the tree and
  its cache. Validation: an accepted tree has the properties of RFC 9420 that are checked leaf by leaf, and its unmerged
  leaves are exactly the consistent ones. Keys: joiners derive the secrets of the members; requests for message keys refine
  the abstract windows and forget what was handed out. Messages: what a member signs, tags or seals is accepted by the
  others, once; what is accepted is authentic. Some theorems state behaviour that is not intended: reverted updates that
  drop members, parent hashes that are not checked below a blank root, nodes the tree hash does not see, update paths that
  make the receiver panic, the wrap-around of the generation window, and the overhead of the Padme padding.

  \<^bold>\<open>Bounds and fuel.\<close> Trees are bounded by the 32-bit index of a node. Loops that climb a tree have fuel 32, more than the 31
  levels a tree can have; the theorems about them show that the fuel is not used up. The loops over work queues are partial
  functions whose termination is proved.

  \<^bold>\<open>Not modelled.\<close> The group state machine and the proposal rules (\<^verbatim>\<open>group/mod.rs\<close>, \<^verbatim>\<open>commit.rs\<close>, \<^verbatim>\<open>message_processor.rs\<close>,
  \<^verbatim>\<open>proposal_filter\<close>) except the data they exchange; clients and builders, which wire the parts together; the bindings to
  cryptographic libraries and HPKE, which stand behind the provider interface; X.509 identity, SQLite storage and the foreign
  function interfaces.
\<close>

end
